(* ===== verification/Go_Prelude.thy ===== *)
theory Go_Prelude
  imports Main
begin

text \<open>
  The vocabulary every component shares: Go errors and their wrapping chains, outcomes of
  calls that may panic, 64-bit integers with wrap-around, instants and durations in
  nanoseconds, and the byte-string functions of the package \<open>strings\<close> the sources call.
  Strings are lists of bytes, as in Go.
\<close>

named_theorems go_defs \<open>definitions a component proof unfolds\<close>
named_theorems err_simps \<open>rewriting of error chains\<close>

type_synonym duration = int
type_synonym instant = int

section \<open>Errors\<close>

text \<open>
  The marks of the wrapper types of the sources: \<open>queue.permanentError\<close>,
  \<open>queue.haltError\<close> and \<open>broker.permanentError\<close>.
\<close>

datatype mark = Queue_Permanent | Queue_Halt | Broker_Permanent

text \<open>The fields of \<open>errs.Error\<close>; the type variable stands for the wrapped error. The map
  of arguments is an association list, read with \<open>map_of\<close>.\<close>

datatype 'e app_error = App_Error
  (ae_code: nat)
  (ae_code_str: string)
  (ae_title: string)
  (ae_message: string)
  (ae_fields: "(string \<times> string) list")
  (ae_args: "(string \<times> string) list")
  (ae_message_id: string)
  (ae_func: string)
  (ae_wrapped: "'e option")

text \<open>
  An error value. \<open>Sentinel\<close> is a package variable made with \<open>errors.New\<close>, told apart by
  its text; \<open>Plain\<close> is an error made on the spot; \<open>Wrapf\<close> and \<open>Wrap_Many\<close> are what
  \<open>fmt.Errorf\<close> with \<open>%w\<close> and \<open>errors.Join\<close> return, with their full text;
  \<open>Panic_Error\<close> is \<open>*safetick.PanicError\<close> with its printed value.
\<close>

datatype go_error =
    Sentinel string
  | Plain string
  | Wrapf string go_error
  | Wrap_Many string "go_error list"
  | Marked mark go_error
  | Panic_Error string
  | App "go_error app_error"

type_synonym err = "go_error option"

text \<open>\<open>Error()\<close> of an error value.\<close>

fun err_text :: "go_error \<Rightarrow> string" where
  "err_text (Sentinel s) = s"
| "err_text (Plain s) = s"
| "err_text (Wrapf s e) = s"
| "err_text (Wrap_Many s es) = s"
| "err_text (Marked m e) = err_text e"
| "err_text (Panic_Error v) = ''panic: '' @ v"
| "err_text (App a) =
     (if ae_func a \<noteq> [] then ae_func a @ '': '' else []) @ ae_code_str a @ '': '' @ ae_message a"

text \<open>
  The errors that \<open>errors.Is\<close> and \<open>errors.AsType\<close> visit, in their order: an error,
  then what it wraps, depth first.
\<close>

fun chain :: "go_error \<Rightarrow> go_error list" where
  "chain (Sentinel s) = [Sentinel s]"
| "chain (Plain s) = [Plain s]"
| "chain (Wrapf s e) = Wrapf s e # chain e"
| "chain (Wrap_Many s es) = Wrap_Many s es # concat (map chain es)"
| "chain (Marked m e) = Marked m e # chain e"
| "chain (Panic_Error v) = [Panic_Error v]"
| "chain (App (App_Error c cs ti msg fs args mid fn w)) =
     App (App_Error c cs ti msg fs args mid fn w) #
       (case w of None \<Rightarrow> [] | Some e \<Rightarrow> chain e)"

text \<open>\<open>errors.Is\<close> against a package variable.\<close>

definition err_is :: "err \<Rightarrow> string \<Rightarrow> bool" where
  "err_is e s = (case e of None \<Rightarrow> False | Some x \<Rightarrow> Sentinel s \<in> set (chain x))"

text \<open>\<open>errors.AsType\<close> for one of the wrapper types, and for \<open>*safetick.PanicError\<close>.\<close>

fun has_mark :: "mark \<Rightarrow> go_error \<Rightarrow> bool" where
  "has_mark m (Marked m' e) = (m = m')"
| "has_mark m _ = False"

definition marked_as :: "mark \<Rightarrow> err \<Rightarrow> bool" where
  "marked_as m e = (case e of None \<Rightarrow> False | Some x \<Rightarrow> list_ex (has_mark m) (chain x))"

fun panic_value :: "go_error \<Rightarrow> string option" where
  "panic_value (Panic_Error v) = Some v"
| "panic_value _ = None"

fun first_some :: "('a \<Rightarrow> 'b option) \<Rightarrow> 'a list \<Rightarrow> 'b option" where
  "first_some f [] = None"
| "first_some f (x # xs) = (case f x of Some y \<Rightarrow> Some y | None \<Rightarrow> first_some f xs)"

definition as_panic :: "err \<Rightarrow> string option" where
  "as_panic e = (case e of None \<Rightarrow> None | Some x \<Rightarrow> first_some panic_value (chain x))"

text \<open>\<open>fmt.Errorf("what: %w", err)\<close>, and with two wrapped errors.\<close>

definition wrap_err :: "string \<Rightarrow> go_error \<Rightarrow> go_error" where
  "wrap_err what e = Wrapf (what @ '': '' @ err_text e) e"

definition wrap_both :: "go_error \<Rightarrow> go_error \<Rightarrow> go_error" where
  "wrap_both a b = Wrap_Many (err_text a @ '': '' @ err_text b) [a, b]"

lemma chain_not_Nil [simp]: "chain e \<noteq> []"
  by (cases e rule: chain.cases) simp_all

lemma chain_head [simp]: "hd (chain e) = e"
  by (cases e rule: chain.cases) simp_all

lemma chain_self [simp, intro]: "e \<in> set (chain e)"
  using chain_not_Nil chain_head by (metis list.set_sel(1))

lemma err_is_None [simp]: "\<not> err_is None s"
  by (simp add: err_is_def)

lemma err_is_Wrapf [simp, err_simps]: "err_is (Some (Wrapf t e)) s = err_is (Some e) s"
  by (simp add: err_is_def)

lemma err_is_wrap_err [simp, err_simps]: "err_is (Some (wrap_err t e)) s = err_is (Some e) s"
  by (simp add: wrap_err_def)

lemma err_is_wrap_both [simp, err_simps]:
  "err_is (Some (wrap_both a b)) s = (err_is (Some a) s \<or> err_is (Some b) s)"
  by (auto simp: wrap_both_def err_is_def)

lemma err_is_Sentinel [simp, err_simps]: "err_is (Some (Sentinel t)) s = (s = t)"
  by (simp add: err_is_def)

lemma err_is_Plain [simp, err_simps]: "\<not> err_is (Some (Plain t)) s"
  by (simp add: err_is_def)

lemma marked_as_None [simp]: "\<not> marked_as m None"
  by (simp add: marked_as_def)

lemma marked_as_Marked [simp, err_simps]:
  "marked_as m (Some (Marked m' e)) = (m = m' \<or> marked_as m (Some e))"
  by (simp add: marked_as_def)

lemma marked_as_Wrapf [simp, err_simps]: "marked_as m (Some (Wrapf s e)) = marked_as m (Some e)"
  by (simp add: marked_as_def)

lemma marked_as_leaf [simp, err_simps]:
  "\<not> marked_as m (Some (Plain s))" "\<not> marked_as m (Some (Sentinel s))"
  "\<not> marked_as m (Some (Panic_Error v))"
  by (simp_all add: marked_as_def)

lemma as_panic_simps [simp, err_simps]:
  "as_panic None = None"
  "as_panic (Some (Plain s)) = None"
  "as_panic (Some (Sentinel s)) = None"
  "as_panic (Some (Panic_Error v)) = Some v"
  "as_panic (Some (Wrapf s e)) = as_panic (Some e)"
  "as_panic (Some (Marked m e)) = as_panic (Some e)"
  by (simp_all add: as_panic_def)

section \<open>Calls that may panic\<close>

text \<open>How a Go call ends: it returns, or it panics with a value (printed).\<close>

datatype 'a outcome = Ret 'a | Panics string

text \<open>
  How one round trip to a database or a broker ends: it works; it fails before the other
  side acted; or the other side acted and the answer was lost.
\<close>

datatype fault = Works | Fails_before go_error | Fails_after go_error

section \<open>Contexts\<close>

text \<open>
  A \<open>context.Context\<close> by the way it was derived, from a context the caller handed in:
  \<open>context.WithTimeout\<close>, \<open>context.WithoutCancel\<close>, and the tracing marks of the package
  \<open>otel\<close>. Whether a context is done is a question to the state of the world; a context
  follows the cancellation of the caller's context unless it was detached from it.
\<close>

datatype ctx =
    Caller
  | Without_cancel ctx
  | With_timeout ctx duration
  | Suppress ctx
  | Unsuppress ctx

fun follows_caller :: "ctx \<Rightarrow> bool" where
  "follows_caller Caller = True"
| "follows_caller (Without_cancel c) = False"
| "follows_caller (With_timeout c d) = follows_caller c"
| "follows_caller (Suppress c) = follows_caller c"
| "follows_caller (Unsuppress c) = follows_caller c"

section \<open>Integers, instants and durations\<close>

text \<open>
  \<open>int\<close> and \<open>time.Duration\<close> are 64-bit: a sum or a product that leaves the range wraps.
  Durations count nanoseconds. An instant counts nanoseconds since January 1 of year 1 in
  UTC (the zero \<open>time.Time\<close>); \<open>Time.Sub\<close> saturates.
\<close>

abbreviation min_int64 :: int where "min_int64 \<equiv> - (2 ^ 63)"
abbreviation max_int64 :: int where "max_int64 \<equiv> 2 ^ 63 - 1"

definition in_int64 :: "int \<Rightarrow> bool" where
  "in_int64 x = (min_int64 \<le> x \<and> x \<le> max_int64)"

definition wrap64 :: "int \<Rightarrow> int" where
  "wrap64 x = (x + 2 ^ 63) mod 2 ^ 64 - 2 ^ 63"

definition clamp64 :: "int \<Rightarrow> int" where
  "clamp64 x = (if x < min_int64 then min_int64 else if x > max_int64 then max_int64 else x)"

abbreviation millisecond :: duration where "millisecond \<equiv> 1000000"
abbreviation second :: duration where "second \<equiv> 1000000000"
abbreviation minute :: duration where "minute \<equiv> 60000000000"
abbreviation hour :: duration where "hour \<equiv> 3600000000000"

lemma wrap64_id [simp]: "in_int64 x \<Longrightarrow> wrap64 x = x"
  by (simp add: in_int64_def wrap64_def)

lemma wrap64_range: "in_int64 (wrap64 x)"
proof -
  have "0 \<le> (x + 2 ^ 63) mod 2 ^ 64" and "(x + 2 ^ 63) mod 2 ^ 64 < (2 ^ 64 :: int)"
    by simp_all
  then show ?thesis unfolding in_int64_def wrap64_def by simp
qed

lemma clamp64_range: "in_int64 (clamp64 x)"
  by (simp add: in_int64_def clamp64_def)

lemma clamp64_id [simp]: "in_int64 x \<Longrightarrow> clamp64 x = x"
  by (simp add: in_int64_def clamp64_def)

section \<open>Byte strings\<close>

text \<open>\<open>strings.HasPrefix\<close>, \<open>strings.CutPrefix\<close> and \<open>strings.Cut\<close>.\<close>

fun cut_prefix :: "string \<Rightarrow> string \<Rightarrow> string option" where
  "cut_prefix [] s = Some s"
| "cut_prefix (p # ps) [] = None"
| "cut_prefix (p # ps) (c # cs) = (if p = c then cut_prefix ps cs else None)"

definition has_prefix :: "string \<Rightarrow> string \<Rightarrow> bool" where
  "has_prefix p s = (cut_prefix p s \<noteq> None)"

fun cut :: "string \<Rightarrow> string \<Rightarrow> string \<times> string \<times> bool" where
  "cut sep [] = (case cut_prefix sep [] of Some rest \<Rightarrow> ([], rest, True) | None \<Rightarrow> ([], [], False))"
| "cut sep (c # cs) =
     (case cut_prefix sep (c # cs) of
        Some rest \<Rightarrow> ([], rest, True)
      | None \<Rightarrow> (case cut sep cs of (before, after, found) \<Rightarrow> (c # before, after, found)))"

text \<open>\<open>strings.Split\<close> on one byte.\<close>

fun split_on :: "char \<Rightarrow> string \<Rightarrow> string list" where
  "split_on sep [] = [[]]"
| "split_on sep (c # cs) =
     (if c = sep then [] # split_on sep cs
      else case split_on sep cs of [] \<Rightarrow> [[c]] | w # ws \<Rightarrow> (c # w) # ws)"

text \<open>\<open>strings.TrimSpace\<close>: the white space of Unicode, in UTF-8.\<close>

definition white_space :: "string list" where
  "white_space =
     [[CHR 0x09], [CHR 0x0A], [CHR 0x0B], [CHR 0x0C], [CHR 0x0D], [CHR 0x20],
      [CHR 0xC2, CHR 0x85], [CHR 0xC2, CHR 0xA0], [CHR 0xE1, CHR 0x9A, CHR 0x80],
      [CHR 0xE2, CHR 0x80, CHR 0x80], [CHR 0xE2, CHR 0x80, CHR 0x81],
      [CHR 0xE2, CHR 0x80, CHR 0x82], [CHR 0xE2, CHR 0x80, CHR 0x83],
      [CHR 0xE2, CHR 0x80, CHR 0x84], [CHR 0xE2, CHR 0x80, CHR 0x85],
      [CHR 0xE2, CHR 0x80, CHR 0x86], [CHR 0xE2, CHR 0x80, CHR 0x87],
      [CHR 0xE2, CHR 0x80, CHR 0x88], [CHR 0xE2, CHR 0x80, CHR 0x89],
      [CHR 0xE2, CHR 0x80, CHR 0x8A], [CHR 0xE2, CHR 0x80, CHR 0xA8],
      [CHR 0xE2, CHR 0x80, CHR 0xA9], [CHR 0xE2, CHR 0x80, CHR 0xAF],
      [CHR 0xE2, CHR 0x81, CHR 0x9F], [CHR 0xE3, CHR 0x80, CHR 0x80]]"

fun drop_spaces :: "nat \<Rightarrow> string list \<Rightarrow> string \<Rightarrow> string" where
  "drop_spaces 0 ws s = s"
| "drop_spaces (Suc n) ws s =
     (case first_some (\<lambda>w. cut_prefix w s) ws of
        Some rest \<Rightarrow> drop_spaces n ws rest
      | None \<Rightarrow> s)"

definition trim_space :: "string \<Rightarrow> string" where
  "trim_space s =
     (let l = drop_spaces (length s) white_space s
      in rev (drop_spaces (length l) (map rev white_space) (rev l)))"

text \<open>
  The verb \<open>%q\<close>: a string between double quotes, with the escapes of a Go literal. A byte
  above ASCII is part of a rune, which is taken to be well formed and printable.
\<close>

definition hex_digit :: "nat \<Rightarrow> char" where
  "hex_digit n = char_of (if n < 10 then 48 + n else 87 + n)"

definition quote_char :: "char \<Rightarrow> string" where
  "quote_char c =
     (let n = of_char c :: nat; esc = CHR 0x5C
      in if n = 34 \<or> n = 92 then [esc, c]
         else if n = 7 then [esc, CHR ''a''] else if n = 8 then [esc, CHR ''b'']
         else if n = 12 then [esc, CHR ''f''] else if n = 10 then [esc, CHR ''n'']
         else if n = 13 then [esc, CHR ''r''] else if n = 9 then [esc, CHR ''t'']
         else if n = 11 then [esc, CHR ''v'']
         else if n < 32 \<or> n = 127 then [esc, CHR ''x'', hex_digit (n div 16), hex_digit (n mod 16)]
         else [c])"

definition go_quote :: "string \<Rightarrow> string" where
  "go_quote s = CHR 0x22 # concat (map quote_char s) @ [CHR 0x22]"

text \<open>The verb \<open>%q\<close> on a slice, and \<open>strings.Join\<close>.\<close>

fun join :: "string \<Rightarrow> string list \<Rightarrow> string" where
  "join sep [] = []"
| "join sep [s] = s"
| "join sep (s # t # ts) = s @ sep @ join sep (t # ts)"

definition go_quotes :: "string list \<Rightarrow> string" where
  "go_quotes ss = ''['' @ join '' '' (map go_quote ss) @ '']''"

lemma cut_prefix_Some: "cut_prefix p s = Some r \<longleftrightarrow> s = p @ r"
  by (induction p s rule: cut_prefix.induct) auto

lemma cut_prefix_append [simp]: "cut_prefix p (p @ r) = Some r"
  by (simp add: cut_prefix_Some)

lemma has_prefix_iff: "has_prefix p s \<longleftrightarrow> (\<exists>r. s = p @ r)"
  by (auto simp: has_prefix_def cut_prefix_Some)

lemma split_on_not_Nil [simp]: "split_on sep s \<noteq> []"
  by (induction s) (auto split: list.splits)

lemma split_on_no_sep: "\<forall>w \<in> set (split_on sep s). sep \<notin> set w"
proof (induction s)
  case (Cons c cs)
  then show ?case by (cases "split_on sep cs") auto
qed simp

section \<open>Lists\<close>

text \<open>A list operation a store runs as one statement: update the rows that match.\<close>

definition update_where :: "('a \<Rightarrow> bool) \<Rightarrow> ('a \<Rightarrow> 'a) \<Rightarrow> 'a list \<Rightarrow> 'a list" where
  "update_where P f xs = map (\<lambda>x. if P x then f x else x) xs"

lemma length_update_where [simp]: "length (update_where P f xs) = length xs"
  by (simp add: update_where_def)

lemma set_update_where: "set (update_where P f xs) = (\<lambda>x. if P x then f x else x) ` set xs"
  by (simp add: update_where_def)

lemma map_update_where [simp]:
  assumes "\<And>x. g (f x) = g x"
  shows "map g (update_where P f xs) = map g xs"
  by (simp add: update_where_def assms)

lemma update_where_idle: "(\<And>x. x \<in> set xs \<Longrightarrow> \<not> P x) \<Longrightarrow> update_where P f xs = xs"
  by (induction xs) (auto simp: update_where_def)

lemma update_where_cong:
  "(\<And>x. x \<in> set xs \<Longrightarrow> P x = Q x) \<Longrightarrow> (\<And>x. x \<in> set xs \<Longrightarrow> P x \<Longrightarrow> f x = g x) \<Longrightarrow>
   update_where P f xs = update_where Q g xs"
  by (auto simp: update_where_def)

text \<open>Counting the elements of a list with a property, under an update at one index.\<close>

definition count_where :: "('a \<Rightarrow> bool) \<Rightarrow> 'a list \<Rightarrow> nat" where
  "count_where P xs = length (filter P xs)"

lemma count_where_simps [simp]:
  "count_where P [] = 0"
  "count_where P (x # xs) = (if P x then Suc (count_where P xs) else count_where P xs)"
  "count_where P (xs @ ys) = count_where P xs + count_where P ys"
  by (simp_all add: count_where_def)

lemma count_where_update:
  "i < length xs \<Longrightarrow>
   count_where P (xs[i := x]) + (if P (xs ! i) then 1 else 0) = count_where P xs + (if P x then 1 else 0)"
proof (induction xs arbitrary: i)
  case (Cons y ys)
  then show ?case by (cases i) auto
qed simp

lemma count_where_pos: "i < length xs \<Longrightarrow> P (xs ! i) \<Longrightarrow> 0 < count_where P xs"
  using filter_set [of P xs] by (auto simp: count_where_def filter_empty_conv)

lemma count_where_zero: "count_where P xs = 0 \<longleftrightarrow> (\<forall>x \<in> set xs. \<not> P x)"
  by (auto simp: count_where_def filter_empty_conv)

lemma count_where_mono: "(\<And>x. P x \<Longrightarrow> Q x) \<Longrightarrow> count_where P xs \<le> count_where Q xs"
  by (induction xs) (auto intro: le_SucI)

text \<open>A list cut into pieces of a positive length, the last one maybe shorter.\<close>

function chunks :: "nat \<Rightarrow> 'a list \<Rightarrow> 'a list list" where
  "chunks n xs = (if xs = [] \<or> n = 0 then [] else take n xs # chunks n (drop n xs))"
  by pat_completeness auto
termination
  by (relation "measure (\<lambda>(n, xs). length xs)") auto

declare chunks.simps [simp del]

lemma chunks_Nil [simp]: "chunks n [] = []"
  by (simp add: chunks.simps)

lemma concat_chunks: "0 < n \<Longrightarrow> concat (chunks n xs) = xs"
  by (induction n xs rule: chunks.induct) (subst chunks.simps, auto)

lemma chunks_length:
  assumes "b \<in> set (chunks n xs)" and "d dvd n" and "d dvd length xs"
  shows "b \<noteq> [] \<and> length b \<le> n \<and> d dvd length b"
  using assms
proof (induction n xs rule: chunks.induct)
  case (1 n xs)
  have "d dvd length (drop n xs)" using 1(3,4) by (cases "n \<le> length xs") (auto simp: dvd_diff_nat)
  moreover have "d dvd length (take n xs)" using 1(3,4) by (simp add: min_def)
  moreover have "b = take n xs \<or> b \<in> set (chunks n (drop n xs))" and "xs \<noteq> []" and "0 < n"
    using 1(2) chunks.simps [of n xs] by (auto split: if_splits)
  ultimately show ?case using 1 by auto
qed

section \<open>Transition systems\<close>

text \<open>
  The runs of a step relation are its reflexive-transitive closure. A property that every
  step keeps holds at the end of a run if it holds at its start.
\<close>

lemmas run_refl = rtranclp.rtrancl_refl
lemmas run_step = rtranclp.rtrancl_into_rtrancl

lemma run_invariant:
  "rtranclp r x y \<Longrightarrow> I x \<Longrightarrow> (\<And>x y. r x y \<Longrightarrow> I x \<Longrightarrow> I y) \<Longrightarrow> I y"
  by (induction rule: rtranclp_induct) auto

lemma run_one: "r x y \<Longrightarrow> rtranclp r x y"
  by (rule r_into_rtranclp)

end
