(* ===== verification/Errs.thy ===== *)
theory Errs
  imports Go_Prelude
begin

text \<open>
  The package \<open>errs\<close>: the codes and their HTTP statuses (\<open>codes.go\<close>), the application
  error and its normalisation (\<open>errs.go\<close>), field errors (\<open>fields.go\<close>), and the
  redaction and truncation of messages (\<open>sanitize.go\<close>). The call site that
  \<open>newError\<close> records through \<open>runtime.Caller\<close> is an argument.
\<close>

section \<open>Codes\<close>

abbreviation (input) code_OK :: nat where "code_OK \<equiv> 0"
abbreviation (input) code_InvalidArgument :: nat where "code_InvalidArgument \<equiv> 3"
abbreviation (input) code_Internal :: nat where "code_Internal \<equiv> 13"

definition codeNames :: "(nat \<times> string) list" where
  "codeNames =
     [(0, ''ok''), (1, ''canceled''), (2, ''unknown''), (3, ''invalid_argument''),
      (4, ''deadline_exceeded''), (5, ''not_found''), (6, ''already_exists''),
      (7, ''permission_denied''), (8, ''resource_exhausted''), (9, ''failed_precondition''),
      (10, ''aborted''), (11, ''out_of_range''), (12, ''unimplemented''), (13, ''internal''),
      (14, ''unavailable''), (15, ''data_loss''), (16, ''unauthenticated'')]"

definition httpStatus :: "(nat \<times> int) list" where
  "httpStatus =
     [(0, 200), (1, 499), (2, 500), (3, 400), (4, 504), (5, 404), (6, 409), (7, 403),
      (8, 429), (9, 400), (10, 409), (11, 400), (12, 501), (13, 500), (14, 503), (15, 500),
      (16, 401)]"

definition code_String :: "nat \<Rightarrow> string" where
  "code_String c = (case map_of codeNames c of Some name \<Rightarrow> name | None \<Rightarrow> ''unknown'')"

definition code_HTTPStatus :: "nat \<Rightarrow> int" where
  "code_HTTPStatus c = (case map_of httpStatus c of Some s \<Rightarrow> s | None \<Rightarrow> 500)"

section \<open>The application error\<close>

definition errText :: "err \<Rightarrow> string" where
  "errText e = (case e of None \<Rightarrow> [] | Some x \<Rightarrow> err_text x)"

definition newError :: "string \<Rightarrow> nat \<Rightarrow> err \<Rightarrow> string \<Rightarrow> go_error app_error" where
  "newError site code wrapped msg =
     App_Error code (code_String code) [] msg [] [] [] site wrapped"

definition New :: "string \<Rightarrow> nat \<Rightarrow> err \<Rightarrow> go_error app_error" where
  "New site code e = newError site code e (errText e)"

definition Newf :: "string \<Rightarrow> nat \<Rightarrow> string \<Rightarrow> go_error app_error" where
  "Newf site code text = newError site code None text"

definition Wrapf_app :: "string \<Rightarrow> nat \<Rightarrow> err \<Rightarrow> string \<Rightarrow> go_error app_error" where
  "Wrapf_app site code e text =
     newError site code e (if e \<noteq> None then text @ '': '' @ errText e else text)"

text \<open>\<open>errors.AsType[*Error]\<close>: the first application error of the chain.\<close>

fun app_of :: "go_error \<Rightarrow> go_error app_error option" where
  "app_of (App a) = Some a"
| "app_of _ = None"

definition as_app :: "err \<Rightarrow> go_error app_error option" where
  "as_app e = (case e of None \<Rightarrow> None | Some x \<Rightarrow> first_some app_of (chain x))"

definition From :: "string \<Rightarrow> err \<Rightarrow> go_error app_error option" where
  "From site e =
     (if e = None then None
      else case as_app e of Some a \<Rightarrow> Some a | None \<Rightarrow> Some (New site code_Internal e))"

definition Is :: "err \<Rightarrow> nat \<Rightarrow> bool" where
  "Is e code = (case as_app e of Some a \<Rightarrow> ae_code a = code | None \<Rightarrow> False)"

definition app_HTTPStatus :: "go_error app_error \<Rightarrow> int" where
  "app_HTTPStatus a = code_HTTPStatus (ae_code a)"

fun WithTitle :: "string \<Rightarrow> 'e app_error \<Rightarrow> 'e app_error" where
  "WithTitle t (App_Error c cs ti msg fs args mid fn w) = App_Error c cs t msg fs args mid fn w"

fun WithMessageID :: "string \<Rightarrow> 'e app_error \<Rightarrow> 'e app_error" where
  "WithMessageID i (App_Error c cs ti msg fs args mid fn w) = App_Error c cs ti msg fs args i fn w"

fun WithArgs :: "(string \<times> string) list \<Rightarrow> 'e app_error \<Rightarrow> 'e app_error" where
  "WithArgs new (App_Error c cs ti msg fs args mid fn w) =
     App_Error c cs ti msg fs (new @ args) mid fn w"

section \<open>Field errors\<close>

definition fieldsTitle :: string where "fieldsTitle = ''data validation error''"
definition fieldsDetail :: string where "fieldsDetail = ''validation failed''"

definition FieldErrors_Add ::
    "(string \<times> string) list \<Rightarrow> string \<Rightarrow> err \<Rightarrow> (string \<times> string) list" where
  "FieldErrors_Add fe field e =
     (case e of None \<Rightarrow> fe | Some x \<Rightarrow> fe @ [(field, err_text x)])"

fun with_fields :: "(string \<times> string) list \<Rightarrow> 'e app_error \<Rightarrow> 'e app_error" where
  "with_fields f (App_Error c cs ti msg fs args mid fn w) = App_Error c cs ti msg f args mid fn w"

definition FieldErrors_Err :: "string \<Rightarrow> (string \<times> string) list \<Rightarrow> err" where
  "FieldErrors_Err site fe =
     (if fe = [] then None
      else Some (App (with_fields fe (WithTitle fieldsTitle
             (newError site code_InvalidArgument None fieldsDetail)))))"

definition NewFieldError :: "string \<Rightarrow> string \<Rightarrow> err \<Rightarrow> go_error app_error" where
  "NewFieldError site field e =
     with_fields [(field, errText e)] (WithTitle fieldsTitle
       (newError site code_InvalidArgument e fieldsDetail))"

section \<open>Redaction\<close>

text \<open>
  The two regular expressions of \<open>sanitize.go\<close>, as matchers on bytes. The option
  \<open>(?i)\<close> folds by Unicode: besides its two ASCII forms, \<open>s\<close> matches U+017F and \<open>k\<close>
  matches U+212A. \<open>\b\<close> and \<open>\s\<close> are ASCII.
\<close>

definition is_word :: "char \<Rightarrow> bool" where
  "is_word c = (let n = of_char c :: nat in
     (48 \<le> n \<and> n \<le> 57) \<or> (65 \<le> n \<and> n \<le> 90) \<or> (97 \<le> n \<and> n \<le> 122) \<or> n = 95)"

definition is_re_space :: "char \<Rightarrow> bool" where
  "is_re_space c = (c = CHR 0x09 \<or> c = CHR 0x0A \<or> c = CHR 0x0C \<or> c = CHR 0x0D \<or> c = CHR 0x20)"

definition upper :: "char \<Rightarrow> char" where
  "upper c = (let n = of_char c :: nat in if 97 \<le> n \<and> n \<le> 122 then char_of (n - 32) else c)"

definition fold_letter :: "char \<Rightarrow> string \<Rightarrow> (string \<times> string) option" where
  "fold_letter p s =
     (case s of
        [] \<Rightarrow> None
      | c # cs \<Rightarrow>
          if c = p \<or> c = upper p then Some ([c], cs)
          else if p = CHR ''s'' \<and> c = CHR 0xC5 \<and> cs \<noteq> [] \<and> hd cs = CHR 0xBF
            then Some ([c, hd cs], tl cs)
          else if p = CHR ''k'' \<and> c = CHR 0xE2 \<and> take 2 cs = [CHR 0x84, CHR 0xAA]
            then Some (c # take 2 cs, drop 2 cs)
          else None)"

fun match_ci :: "string \<Rightarrow> string \<Rightarrow> (string \<times> string) option" where
  "match_ci [] s = Some ([], s)"
| "match_ci (p # ps) s =
     (case fold_letter p s of
        None \<Rightarrow> None
      | Some (m, r) \<Rightarrow>
          (case match_ci ps r of None \<Rightarrow> None | Some (m', r') \<Rightarrow> Some (m @ m', r')))"

definition secret_names :: "string list" where
  "secret_names = [''password'', ''passwd'', ''pwd'', ''token'', ''secret'', ''authorization'',
     ''api-key'', ''api_key'', ''apikey'']"

text \<open>
  \<open>secretKVRE\<close> at the head of \<open>s\<close>, after a byte that is (or is not) a word character:
  the name that matched and what follows the match.
\<close>

definition match_kv :: "bool \<Rightarrow> string \<Rightarrow> (string \<times> string) option" where
  "match_kv prev s =
     (if prev = (s \<noteq> [] \<and> is_word (hd s)) then None
      else first_some (\<lambda>name.
        case match_ci name s of
          Some (m, r) \<Rightarrow>
            (case r of
               c # v \<Rightarrow> if c = CHR ''='' \<and> v \<noteq> [] \<and> \<not> is_re_space (hd v)
                        then Some (m, dropWhile (\<lambda>c. \<not> is_re_space c) v) else None
             | [] \<Rightarrow> None)
        | None \<Rightarrow> None) secret_names)"

text \<open>\<open>secretJSONRE\<close> at the head of \<open>s\<close>.\<close>

definition match_json :: "string \<Rightarrow> (string \<times> string) option" where
  "match_json s =
     (case cut_prefix [CHR 0x22] s of
        None \<Rightarrow> None
      | Some s1 \<Rightarrow> first_some (\<lambda>name.
          case match_ci name s1 of
            None \<Rightarrow> None
          | Some (m, r) \<Rightarrow>
              (case cut_prefix [CHR 0x22] r of
                 None \<Rightarrow> None
               | Some r0 \<Rightarrow>
                   (case cut_prefix '':'' (dropWhile is_re_space r0) of
                      None \<Rightarrow> None
                    | Some r1 \<Rightarrow>
                        (case cut_prefix [CHR 0x22] (dropWhile is_re_space r1) of
                           None \<Rightarrow> None
                         | Some r2 \<Rightarrow>
                             (case dropWhile (\<lambda>c. c \<noteq> CHR 0x22) r2 of
                                c # rest \<Rightarrow> Some (m, rest)
                              | [] \<Rightarrow> None))))) secret_names)"

lemma fold_letter_shorter: "fold_letter p s = Some (m, r) \<Longrightarrow> length r < length s"
  by (auto simp: fold_letter_def Let_def split: list.splits if_splits)

lemma match_ci_length: "match_ci p s = Some (m, r) \<Longrightarrow> length r \<le> length s"
proof (induction p s arbitrary: m r rule: match_ci.induct)
  case (2 p ps s)
  then show ?case
    by (auto split: option.splits prod.splits dest!: fold_letter_shorter)
       (metis le_trans less_or_eq_imp_le)
qed simp

lemma first_some_SomeE:
  assumes "first_some f xs = Some y"
  obtains x where "x \<in> set xs" and "f x = Some y"
  using assms by (induction xs) (auto split: option.splits)

lemma match_kv_shorter:
  assumes "match_kv prev s = Some (m, r)"
  shows "length r < length s"
proof -
  from assms obtain name where "(case match_ci name s of
          Some (m, r) \<Rightarrow>
            (case r of
               c # v \<Rightarrow> if c = CHR ''='' \<and> v \<noteq> [] \<and> \<not> is_re_space (hd v)
                        then Some (m, dropWhile (\<lambda>c. \<not> is_re_space c) v) else None
             | [] \<Rightarrow> None)
        | None \<Rightarrow> None) = Some (m, r)"
    by (auto simp: match_kv_def split: if_splits elim: first_some_SomeE)
  then obtain c v where ci: "match_ci name s = Some (m, c # v)"
    and r: "r = dropWhile (\<lambda>c. \<not> is_re_space c) v"
    by (auto split: option.splits list.splits if_splits)
  from ci have "length v < length s" by (auto dest: match_ci_length)
  moreover have "length r \<le> length v" unfolding r by (rule length_dropWhile_le)
  ultimately show ?thesis by simp
qed

lemma cut_prefix_one: "cut_prefix [c] s = Some r \<longleftrightarrow> s = c # r"
  by (simp add: cut_prefix_Some)

lemma match_json_shorter:
  assumes "match_json s = Some (m, r)"
  shows "length r < length s"
proof -
  from assms obtain s1 name r0 r1 r2 c where s: "s = CHR 0x22 # s1"
    and ci: "match_ci name s1 = Some (m, CHR 0x22 # r0)"
    and d1: "dropWhile is_re_space r0 = CHR '':'' # r1"
    and d2: "dropWhile is_re_space r1 = CHR 0x22 # r2"
    and d3: "dropWhile (\<lambda>c. c \<noteq> CHR 0x22) r2 = c # r"
    by (auto simp: match_json_def cut_prefix_one split: list.splits option.splits
        elim!: first_some_SomeE)
  have "length (c # r) \<le> length r2" unfolding d3 [symmetric] by (rule length_dropWhile_le)
  moreover have "length (CHR 0x22 # r2) \<le> length r1"
    unfolding d2 [symmetric] by (rule length_dropWhile_le)
  moreover have "length (CHR '':'' # r1) \<le> length r0"
    unfolding d1 [symmetric] by (rule length_dropWhile_le)
  ultimately show ?thesis using match_ci_length [OF ci] s by simp
qed

text \<open>\<open>ReplaceAllString\<close> with \<open>"$1=***"\<close> and with \<open>"\"$1\":\"***\""\<close>.\<close>

function replace_kv :: "bool \<Rightarrow> string \<Rightarrow> string" where
  "replace_kv prev s =
     (case match_kv prev s of
        Some (m, r) \<Rightarrow> m @ ''=***'' @ replace_kv (is_word (last (take (length s - length r) s))) r
      | None \<Rightarrow> (case s of [] \<Rightarrow> [] | c # cs \<Rightarrow> c # replace_kv (is_word c) cs))"
  by pat_completeness auto
termination
  by (relation "measure (\<lambda>(prev, s). length s)") (auto dest: match_kv_shorter)

function replace_json :: "string \<Rightarrow> string" where
  "replace_json s =
     (case match_json s of
        Some (m, r) \<Rightarrow> [CHR 0x22] @ m @ [CHR 0x22, CHR '':'', CHR 0x22] @ ''***'' @ [CHR 0x22]
                        @ replace_json r
      | None \<Rightarrow> (case s of [] \<Rightarrow> [] | c # cs \<Rightarrow> c # replace_json cs))"
  by pat_completeness auto
termination
  by (relation "measure length") (auto dest: match_json_shorter)

declare replace_kv.simps [simp del] replace_json.simps [simp del]

section \<open>Truncation\<close>

definition MaxMessageLen :: nat where "MaxMessageLen = 1024"

definition RuneStart :: "char \<Rightarrow> bool" where
  "RuneStart c = (let n = of_char c :: nat in n < 128 \<or> 192 \<le> n)"

fun rune_cut :: "string \<Rightarrow> nat \<Rightarrow> nat" where
  "rune_cut s 0 = 0"
| "rune_cut s (Suc n) = (if \<not> RuneStart (s ! Suc n) then rune_cut s n else Suc n)"

definition truncateUTF8 :: "string \<Rightarrow> nat \<Rightarrow> string" where
  "truncateUTF8 s maxLen = (if length s \<le> maxLen then s else take (rune_cut s maxLen) s)"

definition Sanitize :: "string \<Rightarrow> string" where
  "Sanitize msg =
     (let msg = replace_json (replace_kv False msg)
      in if length msg > MaxMessageLen then truncateUTF8 msg MaxMessageLen else msg)"

section \<open>Wrapping keeps the application error\<close>

lemma as_app_simps [simp, err_simps]:
  "as_app None = None"
  "as_app (Some (App a)) = Some a"
  "as_app (Some (Wrapf t e)) = as_app (Some e)"
  "as_app (Some (Marked m e)) = as_app (Some e)"
  by (cases a; simp add: as_app_def)+

text \<open>An error wrapped any number of times, outermost wrapper first.\<close>

fun wrap_in :: "(string + mark) list \<Rightarrow> go_error \<Rightarrow> go_error" where
  "wrap_in [] e = e"
| "wrap_in (Inl t # ws) e = Wrapf t (wrap_in ws e)"
| "wrap_in (Inr m # ws) e = Marked m (wrap_in ws e)"

lemma New_simps [simp]:
  "ae_code (newError site c w m) = c"
  "ae_code_str (newError site c w m) = code_String c"
  "ae_message (newError site c w m) = m"
  "ae_wrapped (newError site c w m) = w"
  "ae_fields (newError site c w m) = []"
  by (simp_all add: newError_def)

lemma with_simps [simp]:
  "ae_code (WithTitle t a) = ae_code a" "ae_code (with_fields f a) = ae_code a"
  "ae_fields (with_fields f a) = f" "ae_fields (WithTitle t a) = ae_fields a"
  "ae_code (WithMessageID i a) = ae_code a" "ae_code (WithArgs m a) = ae_code a"
  by (cases a; simp)+

lemma codeNames_total: "c \<le> 16 \<Longrightarrow> \<exists>n. map_of codeNames c = Some n"
  unfolding codeNames_def by (simp add: numeral_eq_Suc le_Suc_eq; blast)

section \<open>Truncation falls on a rune boundary\<close>

text \<open>A rune's encoding: a leading byte, then continuation bytes.\<close>

definition is_rune :: "string \<Rightarrow> bool" where
  "is_rune r = (case r of [] \<Rightarrow> False | c # cs \<Rightarrow> RuneStart c \<and> list_all (\<lambda>c. \<not> RuneStart c) cs)"

lemma is_rune_nonempty: "is_rune r \<Longrightarrow> r \<noteq> []"
  by (auto simp: is_rune_def)

lemma rune_cut_le: "rune_cut s n \<le> n"
  by (induction n) auto

lemma rune_cut_start: "rune_cut s n \<noteq> 0 \<Longrightarrow> RuneStart (s ! rune_cut s n)"
  by (induction n) auto

lemma rune_cut_max: "rune_cut s n < i \<Longrightarrow> i \<le> n \<Longrightarrow> \<not> RuneStart (s ! i)"
proof (induction n)
  case (Suc n)
  show ?case
  proof (cases "RuneStart (s ! Suc n)")
    case True
    with Suc.prems show ?thesis by simp
  next
    case False
    with Suc show ?thesis by (cases "i = Suc n") simp_all
  qed
qed simp

lemma rune_start_boundary:
  assumes "list_all is_rune rs" and "j < length (concat rs)" and "RuneStart (concat rs ! j)"
  shows "\<exists>k < length rs. j = length (concat (take k rs))"
  using assms
proof (induction rs arbitrary: j)
  case (Cons r rs)
  show ?case
  proof (cases "j < length r")
    case True
    with Cons.prems have "RuneStart (r ! j)" by (simp add: nth_append)
    moreover from Cons.prems(1) obtain c cs where "r = c # cs" "list_all (\<lambda>c. \<not> RuneStart c) cs"
      by (auto simp: is_rune_def split: list.splits)
    ultimately have "j = 0" using True by (cases j) (auto simp: list_all_length)
    then show ?thesis by (intro exI [of _ 0]) simp
  next
    case False
    with Cons.prems have "RuneStart (concat rs ! (j - length r))" and "j - length r < length (concat rs)"
      by (auto simp: nth_append)
    then obtain k where "k < length rs" and "j - length r = length (concat (take k rs))"
      using Cons.IH [of "j - length r"] Cons.prems(1) by auto
    with False show ?thesis by (intro exI [of _ "Suc k"]) auto
  qed
qed simp

lemma boundary_rune_start:
  assumes "list_all is_rune rs" and "k < length rs"
  shows "RuneStart (concat rs ! length (concat (take k rs)))"
proof -
  have "concat rs = concat (take k rs) @ rs ! k @ concat (drop (Suc k) rs)"
    using assms(2) by (metis append_take_drop_id concat.simps(2) concat_append Cons_nth_drop_Suc)
  moreover have "is_rune (rs ! k)" using assms by (simp add: list_all_length)
  ultimately show ?thesis
    by (auto simp: is_rune_def nth_append split: list.splits)
qed

lemma truncateUTF8_runes:
  assumes rs: "list_all is_rune rs" and big: "n < length (concat rs)"
  shows "\<exists>k < length rs. truncateUTF8 (concat rs) n = concat (take k rs) \<and>
           length (concat (take k rs)) \<le> n \<and> n < length (concat (take (Suc k) rs))"
proof -
  define j where "j = rune_cut (concat rs) n"
  have jn: "j \<le> n" by (simp add: j_def rune_cut_le)
  have "rs \<noteq> []" using big by auto
  have "\<exists>k < length rs. j = length (concat (take k rs))"
  proof (cases "j = 0")
    case True
    with \<open>rs \<noteq> []\<close> show ?thesis by (intro exI [of _ 0]) simp
  next
    case False
    with rune_start_boundary [OF rs, of j] jn big rune_cut_start [of "concat rs" n]
    show ?thesis by (simp add: j_def)
  qed
  then obtain k where k: "k < length rs" "j = length (concat (take k rs))" by blast
  have split: "concat rs = concat (take k rs) @ concat (drop k rs)"
    by (metis append_take_drop_id concat_append)
  have "take j (concat rs) = concat (take k rs)"
    unfolding k(2) by (subst split) simp
  moreover have "n < length (concat (take (Suc k) rs))"
  proof (rule ccontr)
    assume le: "\<not> n < length (concat (take (Suc k) rs))"
    have lt: "j < length (concat (take (Suc k) rs))"
    proof -
      have "rs ! k \<noteq> []" using rs k(1) by (simp add: list_all_length is_rune_nonempty)
      then show ?thesis using k by (simp add: take_Suc_conv_app_nth)
    qed
    have "Suc k < length rs"
    proof (rule ccontr)
      assume "\<not> Suc k < length rs"
      then have "concat (take (Suc k) rs) = concat rs" by simp
      with le big show False by simp
    qed
    from boundary_rune_start [OF rs this] rune_cut_max [of "concat rs" n] lt le
    show False by (simp add: j_def)
  qed
  ultimately show ?thesis using k big jn by (auto simp: truncateUTF8_def simp flip: j_def)
qed

section \<open>Properties\<close>

text \<open>
  C15: \<open>Sanitize\<close> never splits a rune. If the redacted message is a sequence of whole
  runes, the result is a prefix of that sequence, is at most \<open>MaxMessageLen\<close> bytes long,
  and either is the whole message or would exceed the limit with one more rune.
\<close>
theorem Sanitize_whole_runes:
  assumes "replace_json (replace_kv False msg) = concat rs" and "list_all is_rune rs"
  shows "\<exists>k \<le> length rs. Sanitize msg = concat (take k rs) \<and>
           length (Sanitize msg) \<le> MaxMessageLen \<and>
           (k = length rs \<or> MaxMessageLen < length (concat (take (Suc k) rs)))"
proof (cases "length (concat rs) \<le> MaxMessageLen")
  case True
  then show ?thesis using assms(1) by (intro exI [of _ "length rs"]) (simp add: Sanitize_def)
next
  case False
  then obtain k where "k < length rs" "truncateUTF8 (concat rs) MaxMessageLen = concat (take k rs)"
    "length (concat (take k rs)) \<le> MaxMessageLen"
    "MaxMessageLen < length (concat (take (Suc k) rs))"
    using truncateUTF8_runes [OF assms(2), of MaxMessageLen] by auto
  with False assms(1) show ?thesis by (intro exI [of _ k]) (simp add: Sanitize_def)
qed

theorem Sanitize_whole_runes_witness:
  "\<exists>k \<le> 3. Sanitize [CHR ''h'', CHR 0xC3, CHR 0xA9, CHR ''!''] =
     concat (take k [''h'', [CHR 0xC3, CHR 0xA9], ''!''])"
proof -
  have "replace_json (replace_kv False [CHR ''h'', CHR 0xC3, CHR 0xA9, CHR ''!'']) =
      concat [''h'', [CHR 0xC3, CHR 0xA9], ''!'']"
    by code_simp
  moreover have "list_all is_rune [''h'', [CHR 0xC3, CHR 0xA9], ''!'']"
    by code_simp
  ultimately show ?thesis
    using Sanitize_whole_runes [of "[CHR ''h'', CHR 0xC3, CHR 0xA9, CHR ''!'']"
      "[''h'', [CHR 0xC3, CHR 0xA9], ''!'']"] by (metis length_Cons list.size(3) numeral_3_eq_3)
qed

text \<open>
  C22: \<open>From\<close> and \<open>Is\<close> for every error. \<open>From\<close> of nil is nil. When the tree of the error, as
  \<open>errors.As\<close> visits it through wrapped and joined errors, holds an application error, \<open>From\<close> returns
  the first one unchanged and \<open>Is\<close> answers by its code. When it holds none, whatever kinds of errors
  it is made of, \<open>From\<close> returns an \<open>Internal\<close> error (HTTP 500) with the text of the original, which it
  wraps, and \<open>Is\<close> is false for every code. In particular any number of wrappings by \<open>fmt.Errorf\<close> or
  by the wrapper types of the queue and the broker changes nothing of what is found, and neither does
  joining an error behind others that carry no application error.
\<close>
theorem From_through_wrapping:
  "From site None = None \<and>
   (\<forall>before a after. chain e = before @ App a # after \<longrightarrow> list_all (\<lambda>x. app_of x = None) before \<longrightarrow>
      From site (Some e) = Some a \<and> (\<forall>c. Is (Some e) c = (ae_code a = c))) \<and>
   (list_all (\<lambda>x. app_of x = None) (chain e) \<longrightarrow>
      (\<exists>r. From site (Some e) = Some r \<and> ae_code r = code_Internal \<and> app_HTTPStatus r = 500 \<and>
         ae_message r = err_text e \<and> ae_wrapped r = Some e) \<and> (\<forall>c. \<not> Is (Some e) c)) \<and>
   From site (Some (wrap_in ws (App a))) = Some a \<and>
   (list_all (\<lambda>x. as_app (Some x) = None) xs \<longrightarrow> as_app (Some e) \<noteq> None \<longrightarrow>
      From site (Some (Wrap_Many t (xs @ e # ys))) = From site (Some e))"
proof -
  have none: "first_some app_of l = None" if "list_all (\<lambda>x. app_of x = None) l" for l
    using that by (induction l) auto
  have app: "first_some app_of (l @ m) = (case first_some app_of l of None \<Rightarrow> first_some app_of m | Some a \<Rightarrow> Some a)" for l m
    by (induction l) (auto split: option.splits)
  have found: "as_app (Some e) = Some b" if "chain e = before @ App b # after" "list_all (\<lambda>x. app_of x = None) before" for before b after
    using none [OF that(2)] by (simp add: as_app_def that(1) app)
  have skip: "first_some app_of (concat (map chain xs)) = None" if "list_all (\<lambda>x. as_app (Some x) = None) xs"
    using that by (induction xs) (auto simp: as_app_def app)
  have joined: "From site (Some (Wrap_Many t (xs @ e # ys))) = From site (Some e)"
    if "list_all (\<lambda>x. as_app (Some x) = None) xs" "as_app (Some e) \<noteq> None"
    using skip [OF that(1)] that(2) by (auto simp: From_def as_app_def app)
  have "as_app (Some (wrap_in ws (App a))) = Some a" by (induction ws "App a" rule: wrap_in.induct) simp_all
  moreover have "as_app (Some e) = None" if "list_all (\<lambda>x. app_of x = None) (chain e)"
    using none [OF that] by (simp add: as_app_def)
  ultimately show ?thesis
    using found joined
    by (auto simp: From_def Is_def app_HTTPStatus_def New_def code_HTTPStatus_def httpStatus_def errText_def)
qed

theorem From_through_wrapping_witness:
  "From ''main.handle'' (Some (Wrap_Many ''io; not found'' [Sentinel ''io'', Wrapf ''get: not found'' (App (Newf [] 3 ''not found''))])) =
     Some (Newf [] 3 ''not found'')"
  using From_through_wrapping [of "''main.handle''" "Wrapf ''get: not found'' (App (Newf [] 3 ''not found''))" "[]"
      "Newf [] 3 ''not found''" "[Sentinel ''io'']" "''io; not found''" "[]"]
  by (simp add: as_app_def [of "Some (Sentinel ''io'')"] From_def)

end
