(* ===== verification/Float64.thy ===== *)
theory Float64
  imports Complex_Main "HOL-Library.Log_Nat" Go_Prelude
begin

text \<open>
  Go's \<open>float64\<close>: IEEE 754 binary64 values with round-to-nearest-even arithmetic. A finite
  value is the rational it denotes; the sign of zero is not kept, since no operation the
  sources use can tell it. Only the operations the sources use are defined: addition,
  subtraction, multiplication, comparison and the conversions from and to \<open>int64\<close>. The
  result of converting a value outside the range of \<open>int64\<close> (or NaN) is left to the
  implementation by the language, so it is an argument.
\<close>

datatype f64 = Fin rat | PInf | NInf | NaN

section \<open>Rounding\<close>

definition pow2 :: "int \<Rightarrow> rat" where
  "pow2 e = (if 0 \<le> e then 2 ^ nat e else 1 / 2 ^ nat (- e))"

definition ilog2 :: "rat \<Rightarrow> int" where
  "ilog2 x = (case quotient_of x of (n, d) \<Rightarrow>
     let k = bitlen n - bitlen d in if pow2 k \<le> x then k else k - 1)"

definition round_half_even :: "rat \<Rightarrow> int" where
  "round_half_even x = (let f = \<lfloor>x\<rfloor>; r = x - of_int f in
     if r < 1 / 2 then f else if r > 1 / 2 then f + 1 else if even f then f else f + 1)"

definition rnd64 :: "rat \<Rightarrow> f64" where
  "rnd64 x =
     (if x = 0 then Fin 0
      else let e = max (ilog2 \<bar>x\<bar> - 52) (- 1074);
               y = of_int (round_half_even (x / pow2 e)) * pow2 e
           in if \<bar>y\<bar> \<ge> 2 ^ 1024 then (if x > 0 then PInf else NInf) else Fin y)"

section \<open>Operations\<close>

fun f_less :: "f64 \<Rightarrow> f64 \<Rightarrow> bool" where
  "f_less (Fin a) (Fin b) = (a < b)"
| "f_less NaN _ = False"
| "f_less _ NaN = False"
| "f_less PInf _ = False"
| "f_less _ NInf = False"
| "f_less _ _ = True"

definition f_le :: "f64 \<Rightarrow> f64 \<Rightarrow> bool" where
  "f_le a b = (f_less a b \<or> (a = b \<and> a \<noteq> NaN))"

lemma f_less_NaN [simp]: "\<not> f_less x NaN"
  by (cases x) simp_all

fun f_neg :: "f64 \<Rightarrow> f64" where
  "f_neg (Fin a) = Fin (- a)"
| "f_neg PInf = NInf"
| "f_neg NInf = PInf"
| "f_neg NaN = NaN"

fun f_add :: "f64 \<Rightarrow> f64 \<Rightarrow> f64" where
  "f_add (Fin a) (Fin b) = rnd64 (a + b)"
| "f_add NaN _ = NaN"
| "f_add _ NaN = NaN"
| "f_add PInf NInf = NaN"
| "f_add NInf PInf = NaN"
| "f_add PInf _ = PInf"
| "f_add _ PInf = PInf"
| "f_add NInf _ = NInf"
| "f_add _ NInf = NInf"

definition f_sub :: "f64 \<Rightarrow> f64 \<Rightarrow> f64" where
  "f_sub a b = f_add a (f_neg b)"

fun f_mul :: "f64 \<Rightarrow> f64 \<Rightarrow> f64" where
  "f_mul (Fin a) (Fin b) = rnd64 (a * b)"
| "f_mul NaN _ = NaN"
| "f_mul _ NaN = NaN"
| "f_mul (Fin a) PInf = (if a = 0 then NaN else if a > 0 then PInf else NInf)"
| "f_mul (Fin a) NInf = (if a = 0 then NaN else if a > 0 then NInf else PInf)"
| "f_mul PInf (Fin b) = (if b = 0 then NaN else if b > 0 then PInf else NInf)"
| "f_mul NInf (Fin b) = (if b = 0 then NaN else if b > 0 then NInf else PInf)"
| "f_mul PInf PInf = PInf"
| "f_mul NInf NInf = PInf"
| "f_mul PInf NInf = NInf"
| "f_mul NInf PInf = NInf"

definition of_int64 :: "int \<Rightarrow> f64" where
  "of_int64 i = rnd64 (of_int i)"

definition truncate_rat :: "rat \<Rightarrow> int" where
  "truncate_rat q = (if 0 \<le> q then \<lfloor>q\<rfloor> else \<lceil>q\<rceil>)"

definition to_int64 :: "(f64 \<Rightarrow> int) \<Rightarrow> f64 \<Rightarrow> int" where
  "to_int64 other x =
     (case x of
        Fin q \<Rightarrow> if in_int64 (truncate_rat q) then truncate_rat q else other x
      | _ \<Rightarrow> other x)"

text \<open>
  \<open>math.Pow\<close> for a positive base or NaN and a non-negative integral exponent, which is all
  the sources ask of it: the special cases first, then repeated squaring on the fraction
  and exponent of \<open>math.Frexp\<close>, put together by \<open>math.Ldexp\<close>.
\<close>

definition f_frexp :: "rat \<Rightarrow> f64 \<times> int" where
  "f_frexp q = (let e = ilog2 q + 1 in (Fin (q / pow2 e), e))"

fun f_ldexp :: "f64 \<Rightarrow> int \<Rightarrow> f64" where
  "f_ldexp (Fin q) e = rnd64 (q * pow2 e)"
| "f_ldexp x e = x"

function pow_loop :: "nat \<Rightarrow> f64 \<Rightarrow> int \<Rightarrow> f64 \<Rightarrow> int \<Rightarrow> f64 \<times> int" where
  "pow_loop i x1 xe a1 ae =
     (if i = 0 then (a1, ae)
      else if xe < - 4096 \<or> 4096 < xe then (a1, ae + xe)
      else let a1 = (if odd i then f_mul a1 x1 else a1);
               ae = (if odd i then ae + xe else ae);
               x1 = f_mul x1 x1;
               xe = 2 * xe
           in if f_less x1 (Fin (1 / 2)) then pow_loop (i div 2) (f_add x1 x1) (xe - 1) a1 ae
              else pow_loop (i div 2) x1 xe a1 ae)"
  by pat_completeness auto
termination
  by (relation "measure (\<lambda>(i, x1, xe, a1, ae). i)") auto

declare pow_loop.simps [simp del]

definition f_pow :: "f64 \<Rightarrow> nat \<Rightarrow> f64" where
  "f_pow x y =
     (if y = 0 \<or> x = Fin 1 then Fin 1
      else if y = 1 then x
      else case x of
        NaN \<Rightarrow> NaN
      | PInf \<Rightarrow> PInf
      | NInf \<Rightarrow> if odd y then NInf else PInf
      | Fin q \<Rightarrow>
          if y \<ge> 2 ^ 63 then (if q < 1 then Fin 0 else PInf)
          else case f_frexp q of (x1, xe) \<Rightarrow>
            (case pow_loop y x1 xe (Fin 1) 0 of (a1, ae) \<Rightarrow> f_ldexp a1 ae))"

section \<open>Rounding is exact on small integers and bounded\<close>

lemma pow2_pos [simp]: "0 < pow2 e"
  by (simp add: pow2_def)

lemma pow2_nonzero [simp]: "pow2 e \<noteq> 0"
  using pow2_pos [of e] by linarith

lemma pow2_mono: "a \<le> b \<Longrightarrow> pow2 a \<le> pow2 b"
proof -
  assume le: "a \<le> b"
  consider "0 \<le> a" | "a < 0" "0 \<le> b" | "b < 0" using le by linarith
  then show ?thesis
  proof cases
    case 1
    with le show ?thesis by (simp add: pow2_def nat_mono power_increasing)
  next
    case 2
    have "1 / 2 ^ nat (- a) \<le> (1 :: rat)" by simp
    also have "\<dots> \<le> 2 ^ nat b" by simp
    finally show ?thesis using 2 by (simp add: pow2_def)
  next
    case 3
    with le have "nat (- b) \<le> nat (- a)" by simp
    then have "(2 :: rat) ^ nat (- b) \<le> 2 ^ nat (- a)" by (simp add: power_increasing)
    with 3 le show ?thesis by (simp add: pow2_def frac_le)
  qed
qed

lemma pow2_add: "pow2 (a + b) = pow2 a * pow2 b"
proof -
  have pp: "pow2 (int m + int n) = pow2 (int m) * pow2 (int n)" for m n
    by (simp add: pow2_def power_add nat_add_distrib)
  have split: "pow2 (int m - int n) = pow2 (int m) / 2 ^ n" for m n
  proof (cases "n \<le> m")
    case True
    then have "nat (int m - int n) = m - n" by simp
    with True show ?thesis by (simp add: pow2_def power_diff)
  next
    case False
    then have k: "nat (- (int m - int n)) = n - m" and neg: "int m - int n < 0" by simp_all
    have "(2 :: rat) ^ n = 2 ^ m * 2 ^ (n - m)"
      using False by (simp flip: power_add)
    then show ?thesis using k neg by (simp add: pow2_def)
  qed
  obtain m n where a: "a = int m - int n" by (rule int_diff_cases)
  obtain k l where b: "b = int k - int l" by (rule int_diff_cases)
  have "a + b = int (m + k) - int (n + l)" by (simp add: a b)
  then have "pow2 (a + b) = pow2 (int (m + k)) / 2 ^ (n + l)" by (simp only: split)
  also have "\<dots> = (pow2 (int m) / 2 ^ n) * (pow2 (int k) / 2 ^ l)"
    by (simp add: pp power_add)
  also have "\<dots> = pow2 a * pow2 b" by (simp only: a b split)
  finally show ?thesis .
qed

lemma ilog2_le: "0 < x \<Longrightarrow> pow2 (ilog2 x) \<le> x"
proof -
  assume x: "0 < x"
  obtain n d where nd: "quotient_of x = (n, d)" by force
  then have xq: "x = of_int n / of_int d" by (rule quotient_of_div)
  from nd have d: "0 < d" using quotient_of_denom_pos by blast
  with x xq have n: "0 < n" by (simp add: zero_less_divide_iff)
  let ?k = "bitlen n - bitlen d"
  show ?thesis
  proof (cases "pow2 ?k \<le> x")
    case True
    then show ?thesis by (simp add: ilog2_def nd)
  next
    case False
    have bn: "2 ^ nat (bitlen n - 1) \<le> n" using bitlen_bounds [OF n] by simp
    have bd: "d < 2 ^ nat (bitlen d)" using bitlen_bounds [OF d] by simp
    have n1: "1 \<le> bitlen n" using n by (meson bitlen_eq_zero_iff bitlen_nonneg
      int_one_le_iff_zero_less not_less order_le_less)
    have d0: "0 \<le> bitlen d" by (rule bitlen_nonneg)
    have "pow2 (bitlen n - 1) = of_int (2 ^ nat (bitlen n - 1))"
      using n1 by (simp add: pow2_def)
    also have "\<dots> \<le> of_int n" using bn by (simp only: of_int_le_iff)
    finally have A: "pow2 (bitlen n - 1) \<le> of_int n" .
    have "of_int d \<le> (of_int (2 ^ nat (bitlen d)) :: rat)"
      using bd by (simp only: of_int_le_iff)
    also have "\<dots> = pow2 (bitlen d)" using d0 by (simp add: pow2_def)
    finally have B: "of_int d \<le> pow2 (bitlen d)" .
    have "pow2 (?k - 1) * of_int d \<le> pow2 (?k - 1) * pow2 (bitlen d)"
      using B by (simp add: mult_left_mono less_imp_le)
    also have "\<dots> = pow2 (bitlen n - 1)" by (simp flip: pow2_add)
    also note A
    finally have "pow2 (?k - 1) \<le> x"
      using d by (simp add: xq field_simps)
    then show ?thesis using False by (simp add: ilog2_def nd)
  qed
qed

lemma round_half_even_near: "\<bar>of_int (round_half_even x) - x\<bar> \<le> 1 / 2"
proof -
  have "of_int \<lfloor>x\<rfloor> \<le> x" and "x < of_int \<lfloor>x\<rfloor> + 1" by linarith+
  then show ?thesis by (cases "x - of_int \<lfloor>x\<rfloor> < 1 / 2";
      cases "x - of_int \<lfloor>x\<rfloor> > 1 / 2"; simp add: round_half_even_def Let_def; linarith)
qed

lemma round_half_even_int [simp]: "round_half_even (of_int i) = i"
  by (simp add: round_half_even_def)

lemma rnd64_0 [simp]: "rnd64 0 = Fin 0"
  by (simp add: rnd64_def)

lemma rnd64_bounded:
  assumes "\<bar>x\<bar> \<le> 2 ^ 1000"
  shows "\<exists>y. rnd64 x = Fin y \<and> \<bar>y\<bar> \<le> 2 * \<bar>x\<bar> + 1"
proof (cases "x = 0")
  case False
  define e where "e = max (ilog2 \<bar>x\<bar> - 52) (- 1074)"
  define y where "y = of_int (round_half_even (x / pow2 e)) * pow2 e"
  have "\<bar>y - x\<bar> = \<bar>of_int (round_half_even (x / pow2 e)) - x / pow2 e\<bar> * pow2 e"
  proof -
    have "y - x = (of_int (round_half_even (x / pow2 e)) - x / pow2 e) * pow2 e"
      by (simp add: y_def algebra_simps)
    then show ?thesis by (simp add: abs_mult abs_of_pos)
  qed
  also have "\<dots> \<le> 1 / 2 * pow2 e"
    by (intro mult_right_mono round_half_even_near) (simp add: less_imp_le)
  finally have near: "\<bar>y - x\<bar> \<le> 1 / 2 * pow2 e" .
  have "pow2 e \<le> \<bar>x\<bar> + 1"
  proof (cases "e = - 1074")
    case True
    have "pow2 e \<le> pow2 0" unfolding True by (rule pow2_mono) simp
    then show ?thesis by (simp add: pow2_def)
  next
    case False
    then have "pow2 e \<le> pow2 (ilog2 \<bar>x\<bar>)"
      by (intro pow2_mono) (simp add: e_def max_def split: if_splits)
    also have "\<dots> \<le> \<bar>x\<bar>" using \<open>x \<noteq> 0\<close> by (simp add: ilog2_le)
    finally show ?thesis by simp
  qed
  with near have bound: "\<bar>y\<bar> \<le> 2 * \<bar>x\<bar> + 1" by linarith
  have "2 * (2 :: rat) ^ 1000 + 1 < 2 ^ 1024" by simp
  with bound assms have "\<bar>y\<bar> < 2 ^ 1024" by linarith
  with False have "rnd64 x = Fin y"
    by (simp add: rnd64_def Let_def flip: e_def y_def)
  with bound show ?thesis by blast
qed simp

lemma of_int64_exact:
  assumes "\<bar>i\<bar> \<le> 2 ^ 53"
  shows "of_int64 i = Fin (of_int i)"
proof (cases "i = 0")
  case False
  define e where "e = max (ilog2 \<bar>of_int i :: rat\<bar> - 52) (- 1074)"
  have x: "0 < \<bar>of_int i :: rat\<bar>" using False by simp
  have xb: "\<bar>of_int i :: rat\<bar> \<le> 2 ^ 53"
    using assms by (metis of_int_abs of_int_le_iff of_int_numeral of_int_power)
  have "pow2 (ilog2 \<bar>of_int i :: rat\<bar>) \<le> 2 ^ 53"
    using ilog2_le [OF x] xb by (rule order_trans)
  then have small: "ilog2 \<bar>of_int i :: rat\<bar> \<le> 53"
  proof (rule contrapos_pp)
    assume "\<not> ilog2 \<bar>of_int i :: rat\<bar> \<le> 53"
    then have "pow2 54 \<le> pow2 (ilog2 \<bar>of_int i :: rat\<bar>)" by (intro pow2_mono) simp
    then show "\<not> pow2 (ilog2 \<bar>of_int i :: rat\<bar>) \<le> 2 ^ 53" by (simp add: pow2_def)
  qed
  have integral: "\<exists>m. of_int i / pow2 e = of_int m"
  proof (cases "ilog2 \<bar>of_int i :: rat\<bar> = 53")
    case True
    have "pow2 53 \<le> \<bar>of_int i :: rat\<bar>" using ilog2_le [OF x] True by simp
    then have "2 ^ 53 \<le> \<bar>i\<bar>"
      by (simp add: pow2_def)
    with assms have i: "\<bar>i\<bar> = 2 ^ 53" by simp
    have e: "e = 1" by (simp add: e_def True)
    have "of_int i / pow2 e = (of_int (i div 2) :: rat)"
    proof -
      have "i = 2 ^ 53 \<or> i = - (2 ^ 53)" using i by linarith
      then have "i = 2 * (i div 2)" by auto
      then have "of_int i = 2 * (of_int (i div 2) :: rat)" by (metis of_int_mult of_int_numeral)
      then show ?thesis by (simp add: e pow2_def)
    qed
    then show ?thesis by blast
  next
    case False
    with small have "e \<le> 0" by (simp add: e_def)
    then have "of_int i / pow2 e = (of_int (i * 2 ^ nat (- e)) :: rat)"
      by (cases "e = 0") (simp_all add: pow2_def)
    then show ?thesis by blast
  qed
  then obtain m where m: "of_int i / pow2 e = (of_int m :: rat)" ..
  have y: "of_int (round_half_even (of_int i / pow2 e)) * pow2 e = (of_int i :: rat)"
    unfolding m round_half_even_int using m by (simp add: field_simps)
  have "\<bar>of_int i :: rat\<bar> < 2 ^ 1024"
  proof -
    have "(2 :: rat) ^ 53 < 2 ^ 1024" by (rule power_strict_increasing) simp_all
    with xb show ?thesis by linarith
  qed
  with False y show ?thesis
    by (simp add: of_int64_def rnd64_def Let_def flip: e_def)
qed (simp add: of_int64_def)

section \<open>Products, sums and powers\<close>

definition f_nonneg :: "f64 \<Rightarrow> bool" where
  "f_nonneg x = (case x of Fin q \<Rightarrow> 0 \<le> q | PInf \<Rightarrow> True | _ \<Rightarrow> False)"

lemma f_nonneg_simps [simp]:
  "f_nonneg (Fin q) = (0 \<le> q)" "f_nonneg PInf" "\<not> f_nonneg NInf" "\<not> f_nonneg NaN"
  by (simp_all add: f_nonneg_def)

lemma f_nonneg_cases:
  assumes "f_nonneg x"
  obtains q where "x = Fin q" and "0 \<le> q" | "x = PInf"
  using assms by (cases x) simp_all

lemma round_half_even_nonneg: "0 \<le> x \<Longrightarrow> 0 \<le> round_half_even x"
  by (simp add: round_half_even_def Let_def)

lemma round_half_even_le: "x \<le> of_int n \<Longrightarrow> round_half_even x \<le> n"
proof -
  assume le: "x \<le> of_int n"
  show ?thesis
  proof (cases "\<lfloor>x\<rfloor> = n")
    case True
    with le have "x = of_int n" by linarith
    then show ?thesis by simp
  next
    case False
    with le have "\<lfloor>x\<rfloor> + 1 \<le> n" by linarith
    then show ?thesis by (simp add: round_half_even_def Let_def)
  qed
qed

lemma rnd64_nonneg: "0 \<le> x \<Longrightarrow> f_nonneg (rnd64 x)"
  by (simp add: rnd64_def Let_def round_half_even_nonneg less_imp_le)

lemma rnd64_unit:
  assumes "0 \<le> x" and "x \<le> 1"
  shows "\<exists>y. rnd64 x = Fin y \<and> 0 \<le> y \<and> y \<le> 1"
proof (cases "x = 0")
  case False
  with assms have pos: "0 < x" by simp
  define e where "e = max (ilog2 \<bar>x\<bar> - 52) (- 1074)"
  define y where "y = of_int (round_half_even (x / pow2 e)) * pow2 e"
  have "ilog2 x \<le> 0"
  proof (rule ccontr)
    assume "\<not> ilog2 x \<le> 0"
    then have "pow2 1 \<le> pow2 (ilog2 x)" by (intro pow2_mono) simp
    then have "2 \<le> x" using ilog2_le [OF pos] by (simp add: pow2_def)
    with assms show False by simp
  qed
  then have e: "e \<le> 0" using pos by (simp add: e_def)
  define n where "n = (2 :: int) ^ nat (- e)"
  have n: "of_int n * pow2 e = 1"
    using e by (cases "e = 0") (simp_all add: n_def pow2_def)
  have "x / pow2 e \<le> of_int n"
    using assms n by (simp add: pos_divide_le_eq)
  then have "round_half_even (x / pow2 e) \<le> n" by (rule round_half_even_le)
  then have "y \<le> of_int n * pow2 e"
    unfolding y_def by (intro mult_right_mono) (simp_all add: less_imp_le)
  then have y1: "y \<le> 1" by (simp add: n)
  have y0: "0 \<le> y" using assms by (simp add: y_def round_half_even_nonneg less_imp_le)
  have "\<bar>y\<bar> < 2 ^ 1024" using y0 y1 by simp
  with False have "rnd64 x = Fin y"
    by (simp add: rnd64_def Let_def flip: e_def y_def)
  with y0 y1 show ?thesis by blast
qed simp

definition in_unit :: "f64 \<Rightarrow> bool" where
  "in_unit x = (\<exists>q. x = Fin q \<and> 0 \<le> q \<and> q \<le> 1)"

lemma in_unit_mul: "in_unit x \<Longrightarrow> in_unit y \<Longrightarrow> in_unit (f_mul x y)"
  by (auto simp: in_unit_def mult_le_one intro!: rnd64_unit)

lemma in_unit_double: "in_unit x \<Longrightarrow> f_less x (Fin (1 / 2)) \<Longrightarrow> in_unit (f_add x x)"
  by (auto simp: in_unit_def intro!: rnd64_unit)

lemma pow_loop_unit:
  "in_unit x1 \<Longrightarrow> in_unit a1 \<Longrightarrow> in_unit (fst (pow_loop i x1 xe a1 ae))"
proof (induction i x1 xe a1 ae rule: pow_loop.induct)
  case (1 i x1 xe a1 ae)
  note IH = 1(1,2) and units = 1(3,4)
  show ?case
  proof (cases "i = 0 \<or> xe < - 4096 \<or> 4096 < xe")
    case True
    then show ?thesis using units by (subst pow_loop.simps) auto
  next
    case False
    have a1: "in_unit (if odd i then f_mul a1 x1 else a1)"
      using units by (simp add: in_unit_mul)
    have x1: "in_unit (f_mul x1 x1)" using units by (simp add: in_unit_mul)
    show ?thesis
    proof (cases "f_less (f_mul x1 x1) (Fin (1 / 2))")
      case True
      from False True show ?thesis
        using IH(1) [OF _ _ refl refl refl refl True in_unit_double [OF x1 True] a1]
        by (subst pow_loop.simps) (auto simp: Let_def)
    next
      case nl: False
      from False nl show ?thesis
        using IH(2) [OF _ _ refl refl refl refl nl x1 a1]
        by (subst pow_loop.simps) (auto simp: Let_def)
    qed
  qed
qed

lemma f_ldexp_nonneg: "in_unit x \<Longrightarrow> f_nonneg (f_ldexp x e)"
  by (auto simp: in_unit_def less_imp_le intro!: rnd64_nonneg)

lemma ilog2_upper:
  assumes x: "0 < x"
  shows "x < pow2 (ilog2 x + 1)"
proof -
  obtain n d where nd: "quotient_of x = (n, d)" by force
  then have xq: "x = of_int n / of_int d" by (rule quotient_of_div)
  from nd have d: "0 < d" using quotient_of_denom_pos by blast
  with x xq have n: "0 < n" by (simp add: zero_less_divide_iff)
  let ?k = "bitlen n - bitlen d"
  have d1: "1 \<le> bitlen d" using d by (meson bitlen_eq_zero_iff bitlen_nonneg
    int_one_le_iff_zero_less not_less order_le_less)
  have "of_int n < (of_int (2 ^ nat (bitlen n)) :: rat)"
    using bitlen_bounds [OF n] by (simp only: of_int_less_iff)
  also have "\<dots> = pow2 (bitlen n)" by (simp add: pow2_def bitlen_nonneg)
  finally have A: "of_int n < pow2 (bitlen n)" .
  have "pow2 (bitlen d - 1) = of_int (2 ^ nat (bitlen d - 1))"
    using d1 by (simp add: pow2_def)
  also have "\<dots> \<le> of_int d" using bitlen_bounds [OF d] by (simp only: of_int_le_iff)
  finally have B: "pow2 (bitlen d - 1) \<le> of_int d" .
  have "pow2 (bitlen n) = pow2 (?k + 1) * pow2 (bitlen d - 1)" by (simp flip: pow2_add)
  also have "\<dots> \<le> pow2 (?k + 1) * of_int d"
    using B by (simp add: mult_left_mono less_imp_le)
  finally have "x < pow2 (?k + 1)"
    using A d by (simp add: xq pos_divide_less_eq)
  then show ?thesis by (simp add: ilog2_def nd Let_def)
qed

lemma f_frexp_unit: "0 < q \<Longrightarrow> in_unit (fst (f_frexp q))"
  using ilog2_upper [of q] by (simp add: f_frexp_def Let_def in_unit_def less_imp_le)

lemma f_pow_nonneg:
  assumes "f_less (Fin 1) x"
  shows "f_nonneg (f_pow x y)"
proof (cases x)
  case (Fin q)
  with assms have q: "1 < q" by simp
  obtain x1 xe where fr: "f_frexp q = (x1, xe)" by force
  have "in_unit x1" using f_frexp_unit [of q] q fr by simp
  then have u: "in_unit (fst (pow_loop y x1 xe (Fin 1) 0))"
    by (rule pow_loop_unit) (simp add: in_unit_def)
  obtain a1 ae where pl: "pow_loop y x1 xe (Fin 1) 0 = (a1, ae)" by force
  with u have "f_nonneg (f_ldexp a1 ae)" by (simp add: f_ldexp_nonneg)
  with Fin q fr pl show ?thesis by (simp add: f_pow_def)
qed (use assms in \<open>simp_all add: f_pow_def\<close>)

text \<open>Products and sums of finite values that stay far below the overflow threshold.\<close>

lemma f_mul_bounded:
  assumes "\<bar>a * b\<bar> \<le> 2 ^ 1000"
  obtains c where "f_mul (Fin a) (Fin b) = Fin c" and "\<bar>c\<bar> \<le> 2 * \<bar>a * b\<bar> + 1"
  using rnd64_bounded [OF assms] by auto

lemma f_add_bounded:
  assumes "\<bar>a + b\<bar> \<le> 2 ^ 1000"
  obtains c where "f_add (Fin a) (Fin b) = Fin c" and "\<bar>c\<bar> \<le> 2 * \<bar>a + b\<bar> + 1"
  using rnd64_bounded [OF assms] by auto

lemma f_mul_nonneg:
  assumes "0 < a" and "f_nonneg x"
  shows "f_nonneg (f_mul (Fin a) x)"
  using assms by (auto elim!: f_nonneg_cases intro!: rnd64_nonneg)

lemma ilog2_unique:
  assumes "pow2 k \<le> x" and "x < pow2 (k + 1)"
  shows "ilog2 x = k"
proof -
  have pos: "0 < x" using assms(1) pow2_pos [of k] by linarith
  have "\<not> k + 1 \<le> ilog2 x"
    using pow2_mono [of "k + 1" "ilog2 x"] ilog2_le [OF pos] assms(2) by linarith
  moreover have "\<not> ilog2 x + 1 \<le> k"
    using pow2_mono [of "ilog2 x + 1" k] ilog2_upper [OF pos] assms(1) by linarith
  ultimately show ?thesis by linarith
qed

lemma of_int64_max: "of_int64 max_int64 = Fin (2 ^ 63)"
proof -
  have l: "ilog2 9223372036854775807 = 62"
    by (rule ilog2_unique) (simp_all add: pow2_def)
  have f: "\<lfloor>9223372036854775807 / 1024 :: rat\<rfloor> = 9007199254740991"
    by (simp add: floor_eq_iff)
  show ?thesis
    by (simp add: of_int64_def rnd64_def l pow2_def round_half_even_def Let_def f)
qed

section \<open>Powers of two\<close>

lemma ilog2_pow2 [simp]: "ilog2 (pow2 k) = k"
proof (rule ilog2_unique)
  have "pow2 (k + 1) = pow2 k * 2" by (simp add: pow2_add) (simp add: pow2_def)
  then show "pow2 k < pow2 (k + 1)" by simp
qed simp

lemma pow2_diff_int: "e \<le> k \<Longrightarrow> pow2 k / pow2 e = of_int (2 ^ nat (k - e))"
proof -
  assume le: "e \<le> k"
  have "pow2 k = pow2 (k - e) * pow2 e" by (simp flip: pow2_add)
  then show ?thesis using le by (simp add: pow2_def [of "k - e"])
qed

lemma rnd64_pow2: "- 1074 \<le> k \<Longrightarrow> rnd64 (pow2 k) = (if k < 1024 then Fin (pow2 k) else PInf)"
proof -
  assume k: "- 1074 \<le> k"
  define e where "e = max (k - 52) (- 1074)"
  have e: "e \<le> k" using k by (simp add: e_def)
  have y: "of_int (round_half_even (pow2 k / pow2 e)) * pow2 e = pow2 k"
    using pow2_diff_int [OF e] by (metis nonzero_divide_eq_eq pow2_nonzero round_half_even_int)
  have "pow2 k \<ge> 2 ^ 1024 \<longleftrightarrow> 1024 \<le> k"
  proof
    assume "1024 \<le> k"
    then have "pow2 1024 \<le> pow2 k" by (rule pow2_mono)
    then show "2 ^ 1024 \<le> pow2 k" by (simp add: pow2_def [of 1024])
  next
    assume big: "2 ^ 1024 \<le> pow2 k"
    show "1024 \<le> k"
    proof (rule ccontr)
      assume "\<not> 1024 \<le> k"
      then have "pow2 k \<le> pow2 1023" by (intro pow2_mono) simp
      then have "pow2 k \<le> 2 ^ 1023" by (simp add: pow2_def [of 1023])
      moreover have "(2 :: rat) ^ 1023 < 2 ^ 1024" by (rule power_strict_increasing) simp_all
      ultimately show False using big by linarith
    qed
  qed
  then show ?thesis
    by (simp add: rnd64_def Let_def abs_of_pos y flip: e_def)
qed

lemma rnd64_ge_pow2:
  assumes "0 \<le> k" and "pow2 k \<le> x"
  shows "rnd64 x = PInf \<or> (\<exists>y. rnd64 x = Fin y \<and> pow2 k \<le> y)"
proof -
  have pos: "0 < x" using assms(2) pow2_pos [of k] by linarith
  define l where "l = ilog2 x"
  have kl: "k \<le> l"
  proof (rule ccontr)
    assume "\<not> k \<le> l"
    then have "pow2 (l + 1) \<le> pow2 k" by (intro pow2_mono) simp
    with ilog2_upper [OF pos] assms(2) show False by (simp add: l_def)
  qed
  define e where "e = max (l - 52) (- 1074)"
  define y where "y = of_int (round_half_even (x / pow2 e)) * pow2 e"
  have e: "e \<le> l" using kl assms(1) by (simp add: e_def)
  define n where "n = (2 :: int) ^ nat (l - e)"
  have n: "of_int n * pow2 e = pow2 l"
    using pow2_diff_int [OF e] by (simp add: n_def field_simps)
  have "of_int n \<le> x / pow2 e"
    using ilog2_le [OF pos] n by (simp add: pos_le_divide_eq l_def)
  then have "n \<le> \<lfloor>x / pow2 e\<rfloor>" by linarith
  then have "n \<le> round_half_even (x / pow2 e)" by (simp add: round_half_even_def Let_def)
  then have "of_int n * pow2 e \<le> y"
    unfolding y_def by (intro mult_right_mono) (simp_all add: less_imp_le)
  then have "pow2 k \<le> y" using pow2_mono [OF kl] n by simp
  then show ?thesis using pos
    by (simp add: rnd64_def Let_def flip: l_def e_def y_def)
qed

lemma rnd64_overflow:
  assumes "pow2 1024 \<le> x"
  shows "rnd64 x = PInf"
proof -
  have small: "y < B" if "(if B \<le> \<bar>z\<bar> then (if 0 < x then PInf else NInf) else Fin z) = Fin y" for y z B :: rat
    using that by (auto split: if_splits)
  have "y < 2 ^ 1024" if "rnd64 x = Fin y" for y
  proof (cases "x = 0")
    case True
    then show ?thesis using that by (simp add: rnd64_def)
  next
    case False
    then show ?thesis using that small unfolding rnd64_def Let_def if_not_P [OF False] by blast
  qed
  then show ?thesis using rnd64_ge_pow2 [OF _ assms] by (auto simp: pow2_def [of 1024] not_less [symmetric])
qed

lemma rnd64_scaled:
  assumes "0 < i" and "i \<le> 2 ^ 53" and "0 \<le> k" and "of_int i * pow2 k < 2 ^ 1024"
  shows "rnd64 (of_int i * pow2 k) = Fin (of_int i * pow2 k)"
proof -
  define l where "l = ilog2 (of_int i)"
  define x :: rat where "x = of_int i * pow2 k"
  have i: "0 < (of_int i :: rat)" using assms(1) by simp
  have x: "0 < x" using i by (simp add: x_def)
  have "ilog2 x = l + k"
    using ilog2_le [OF i] ilog2_upper [OF i]
    by (intro ilog2_unique) (simp_all add: x_def l_def pow2_add algebra_simps)
  moreover have l0: "0 \<le> l"
  proof (rule ccontr)
    assume "\<not> 0 \<le> l"
    then have "pow2 (l + 1) \<le> pow2 0" by (intro pow2_mono) simp
    moreover have "1 \<le> (of_int i :: rat)" using assms(1) by simp
    ultimately show False using ilog2_upper [OF i] by (simp add: l_def pow2_def [of 0])
  qed
  ultimately have e: "max (ilog2 \<bar>x\<bar> - 52) (- 1074) = l + k - 52" using assms(3) x by simp
  have "(of_int i :: rat) / pow2 (l - 52) = of_int (round_half_even (of_int i / pow2 (l - 52)))"
  proof (cases "i = 2 ^ 53")
    case True
    then have l53: "l = 53" using ilog2_pow2 [of 53] by (simp add: l_def pow2_def)
    show ?thesis using round_half_even_int [of "2 ^ 52"] by (simp add: True l53 pow2_def)
  next
    case False
    then have "i < 2 ^ 53" using assms(2) by simp
    then have "(of_int i :: rat) < of_int (2 ^ 53)" by (simp only: of_int_less_iff)
    then have "l \<le> 52" using ilog2_le [OF i] pow2_mono [of 53 l]
      by (cases "l \<le> 52") (simp_all add: l_def pow2_def [of 53])
    then have "(of_int i :: rat) / pow2 (l - 52) = of_int (i * 2 ^ nat (52 - l))"
      by (cases "l = 52") (simp_all add: pow2_def)
    then show ?thesis by (simp only: round_half_even_int)
  qed
  moreover have "x / pow2 (l + k - 52) = of_int i / pow2 (l - 52)"
    using pow2_add [of "l - 52" k] by (simp add: x_def algebra_simps)
  moreover have "of_int i / pow2 (l - 52) * pow2 (l + k - 52) = x"
    using pow2_add [of "l - 52" k] by (simp add: x_def algebra_simps)
  ultimately have "of_int (round_half_even (x / pow2 (l + k - 52))) * pow2 (l + k - 52) = x" by (simp only:)
  with x assms(4) show ?thesis
    unfolding x_def [symmetric] rnd64_def Let_def e by (simp only: abs_of_pos not_le [symmetric] less_irrefl if_False)
      (simp del: power_numeral)
qed

lemma pow_loop_half:
  assumes "2 ^ nat p \<le> xe - 1" and "0 \<le> p" and "p \<le> 13" and "p \<le> ae"
  shows "\<exists>p' e'. pow_loop i (Fin (1 / 2)) xe (Fin (pow2 (- p))) ae = (Fin (pow2 (- p')), e') \<and>
           (e' - p' = ae - p + int i * (xe - 1) \<or> 4096 \<le> e' - p' \<and> 4096 \<le> int i * (xe - 1))"
  using assms
proof (induction i arbitrary: xe p ae rule: less_induct)
  case (less i)
  have xe2: "2 \<le> xe" using less.prems(1) one_le_power [of "2 :: int" "nat p"] by linarith
  consider "i = 0" | "i \<noteq> 0" "4096 < xe" | "i \<noteq> 0" "xe \<le> 4096" by linarith
  then show ?case
  proof cases
    case 1
    then show ?thesis by (subst pow_loop.simps) auto
  next
    case 2
    have "4096 \<le> int i * (xe - 1)" using mult_mono [of 1 "int i" 4096 "xe - 1"] 2 by simp
    then show ?thesis
      using 2 less.prems(4) by (subst pow_loop.simps) (intro exI [of _ p] exI [of _ "ae + xe"], simp)
  next
    case 3
    have "(2 :: int) ^ nat p < 2 ^ 12" using less.prems(1) 3(2) by simp
    then have p11: "p \<le> 11" using power_strict_increasing_iff [of "2 :: int" "nat p" 12] by linarith
    define q where "q = (if odd i then p + 1 else p)"
    define be where "be = (if odd i then ae + xe else ae)"
    have quarter: "rnd64 (1 / 4) = Fin (1 / 4)" and half: "rnd64 (1 / 2) = Fin (1 / 2)"
      using rnd64_pow2 [of "- 2"] rnd64_pow2 [of "- 1"] by (simp_all add: pow2_def)
    have "pow2 (- p) * (1 / 2) = pow2 (- (p + 1))"
      using pow2_add [of "- p" "- 1"] by (simp add: pow2_def [of "- 1"])
    moreover have "rnd64 (pow2 (- (p + 1))) = Fin (pow2 (- (p + 1)))"
      using rnd64_pow2 [of "- (p + 1)"] less.prems(2) p11 by simp
    ultimately have a1: "(if odd i then f_mul (Fin (pow2 (- p))) (Fin (1 / 2)) else Fin (pow2 (- p)))
        = Fin (pow2 (- q))"
      by (simp add: q_def)
    have step: "pow_loop i (Fin (1 / 2)) xe (Fin (pow2 (- p))) ae =
        pow_loop (i div 2) (Fin (1 / 2)) (2 * xe - 1) (Fin (pow2 (- q))) be"
      using 3 xe2 unfolding a1 [symmetric]
      by (subst pow_loop.simps) (simp add: Let_def quarter half be_def)
    have i2: "int i = 2 * int (i div 2) + (if odd i then 1 else 0)" by (auto elim!: oddE evenE)
    have ie: "int (i div 2) * (2 * xe - 1 - 1) = (int i - (if odd i then 1 else 0)) * (xe - 1)"
      unfolding i2 by (simp add: algebra_simps)
    have "2 ^ nat q \<le> 2 * xe - 1 - 1"
      using less.prems(1,2) xe2 by (simp add: q_def nat_add_distrib)
    then obtain p' e' where
      "pow_loop (i div 2) (Fin (1 / 2)) (2 * xe - 1) (Fin (pow2 (- q))) be = (Fin (pow2 (- p')), e')"
      "e' - p' = be - q + int (i div 2) * (2 * xe - 1 - 1) \<or>
        4096 \<le> e' - p' \<and> 4096 \<le> int (i div 2) * (2 * xe - 1 - 1)"
      using less.IH [of "i div 2" q "2 * xe - 1" be] 3 less.prems(2,4) p11 xe2
      by (auto simp: q_def be_def split: if_splits)
    then show ?thesis
      unfolding step ie using xe2
      by (intro exI [of _ p'] exI [of _ e']) (cases "odd i"; auto simp: be_def q_def algebra_simps)
  qed
qed

text \<open>The powers of two are exact and overflow to infinity, whatever the exponent.\<close>

lemma f_pow_two: "f_pow (Fin 2) n = rnd64 (pow2 (int n))"
proof -
  have l: "ilog2 2 = 1" using ilog2_pow2 [of 1] by (simp add: pow2_def)
  have fr: "f_frexp 2 = (Fin (1 / 2), 2)" by (simp add: f_frexp_def l pow2_def)
  obtain p e where pl: "pow_loop n (Fin (1 / 2)) 2 (Fin 1) 0 = (Fin (pow2 (- p)), e)"
    and pe: "e - p = int n \<or> 4096 \<le> e - p \<and> 4096 \<le> int n"
    using pow_loop_half [of 0 2 0 n] by (auto simp: pow2_def [of 0])
  have "pow2 (- p) * pow2 e = pow2 (e - p)"
    unfolding pow2_add [symmetric] by (simp add: algebra_simps)
  moreover have "rnd64 (pow2 (e - p)) = rnd64 (pow2 (int n))"
    using pe rnd64_pow2 [of "e - p"] rnd64_pow2 [of "int n"] by auto
  moreover have "rnd64 1 = Fin 1" "rnd64 2 = Fin 2"
    using rnd64_pow2 [of 0] rnd64_pow2 [of 1] by (simp_all add: pow2_def)
  moreover have "2 ^ 63 \<le> n \<Longrightarrow> rnd64 (pow2 (int n)) = PInf"
    using rnd64_pow2 [of "int n"] by simp
  ultimately show ?thesis by (auto simp: f_pow_def fr pl pow2_def [of 0] pow2_def [of 1])
qed

end
