(* ===== verification/Retry.thy ===== *)
theory Retry
  imports Float64
begin

text \<open>
  The package \<open>retry\<close>: the delay schedule \<open>Backoff\<close> (\<open>backoff.go\<close>) in \<open>float64\<close>
  arithmetic, and the loop \<open>Do\<close> with its context-aware sleep (\<open>retry.go\<close>). The state
  \<open>'w\<close> is whatever the called functions read and change; the context and the timer are
  functions of it. A multiplication and an addition are rounded separately, as on amd64.
\<close>

section \<open>Backoff\<close>

record backoff =
  Base :: duration
  Max_delay :: duration
  Factor :: f64
  MaxAttempts :: int
  Jitter :: f64

fun f_nat :: "f64 \<Rightarrow> nat" where
  "f_nat (Fin q) = nat \<lfloor>q\<rfloor>"
| "f_nat _ = 0"

text \<open>
  \<open>NextWithRand\<close> step by step: the growth, the cap, the jitter, the floor at zero, the
  second cap and the guarded conversion. The first argument is the implementation's
  conversion of values that do not fit a \<open>Duration\<close>.
\<close>

definition growth :: "backoff \<Rightarrow> int \<Rightarrow> f64" where
  "growth b attempt =
     (let attempt = (if attempt < 1 then 1 else attempt);
          factor = (if f_le (Factor b) (Fin 1) then Fin 2 else Factor b)
      in f_mul (of_int64 (Base b)) (f_pow factor (f_nat (of_int64 (attempt - 1)))))"

definition cap_max :: "backoff \<Rightarrow> f64 \<Rightarrow> f64" where
  "cap_max b delay =
     (if Max_delay b > 0 \<and> f_less (of_int64 (Max_delay b)) delay then of_int64 (Max_delay b) else delay)"

definition add_jitter :: "backoff \<Rightarrow> f64 \<Rightarrow> f64 \<Rightarrow> f64" where
  "add_jitter b randFraction delay =
     (if f_less (Fin 0) (Jitter b)
      then let offset = f_mul (f_sub (f_mul randFraction (Fin 2)) (Fin 1)) (Jitter b)
           in f_add delay (f_mul delay offset)
      else delay)"

definition NextWithRand :: "(f64 \<Rightarrow> int) \<Rightarrow> backoff \<Rightarrow> int \<Rightarrow> f64 \<Rightarrow> duration" where
  "NextWithRand other b attempt randFraction =
     (let delay = cap_max b (growth b attempt);
          delay = add_jitter b randFraction delay;
          delay = (if f_less delay (Fin 0) then Fin 0 else delay);
          delay = cap_max b delay
      in if f_le (of_int64 max_int64) delay then max_int64 else to_int64 other delay)"

definition Next :: "(f64 \<Rightarrow> int) \<Rightarrow> backoff \<Rightarrow> int \<Rightarrow> duration" where
  "Next other b attempt = NextWithRand other b attempt (Fin 0)"

definition Exhausted :: "backoff \<Rightarrow> int \<Rightarrow> bool" where
  "Exhausted b attempts = (MaxAttempts b > 0 \<and> attempts \<ge> MaxAttempts b)"

section \<open>Do\<close>

text \<open>The runtime a retry loop meets: the context's error, the race of a timer against the
  context (true when the context is done first), and the default random source.\<close>

record 'w runtime =
  ctx_Err :: "'w \<Rightarrow> err"
  timer :: "duration \<Rightarrow> 'w \<Rightarrow> bool \<times> 'w"
  rand_Float64 :: "'w \<Rightarrow> f64 \<times> 'w"
  convert :: "f64 \<Rightarrow> int"

record 'w retry_config =
  Backoff :: backoff
  Strategy :: "(int \<Rightarrow> 'w \<Rightarrow> duration \<times> 'w) option"
  IsTerminal :: "(go_error \<Rightarrow> bool) option"
  OnRetry :: "(int \<Rightarrow> go_error \<Rightarrow> 'w \<Rightarrow> 'w) option"
  Sleep :: "(duration \<Rightarrow> 'w \<Rightarrow> err \<times> 'w) option"
  Rand :: "('w \<Rightarrow> f64 \<times> 'w) option"

definition Fixed :: "duration \<Rightarrow> int \<Rightarrow> 'w \<Rightarrow> duration \<times> 'w" where
  "Fixed d attempt w = (d, w)"

definition sleepCtx :: "'w runtime \<Rightarrow> duration \<Rightarrow> 'w \<Rightarrow> err \<times> 'w" where
  "sleepCtx rt d w =
     (if d \<le> 0 then (ctx_Err rt w, w)
      else case timer rt d w of
        (cancelled, w) \<Rightarrow> (if cancelled then ctx_Err rt w else None, w))"

definition budget :: "'w retry_config \<Rightarrow> int" where
  "budget cfg = max (MaxAttempts (Backoff cfg)) 1"

definition sleep_of :: "'w runtime \<Rightarrow> 'w retry_config \<Rightarrow> duration \<Rightarrow> 'w \<Rightarrow> err \<times> 'w" where
  "sleep_of rt cfg = (case Sleep cfg of None \<Rightarrow> sleepCtx rt | Some s \<Rightarrow> s)"

definition delay_of :: "'w runtime \<Rightarrow> 'w retry_config \<Rightarrow> int \<Rightarrow> 'w \<Rightarrow> duration \<times> 'w" where
  "delay_of rt cfg attempt w =
     (case Strategy cfg of
        Some s \<Rightarrow> s attempt w
      | None \<Rightarrow>
          (case (case Rand cfg of None \<Rightarrow> rand_Float64 rt | Some r \<Rightarrow> r) w of
             (r, w) \<Rightarrow> (NextWithRand (convert rt) (Backoff cfg) attempt r, w)))"

definition terminal :: "'w retry_config \<Rightarrow> go_error \<Rightarrow> bool" where
  "terminal cfg e = (case IsTerminal cfg of None \<Rightarrow> False | Some f \<Rightarrow> f e)"

definition notify :: "'w retry_config \<Rightarrow> int \<Rightarrow> go_error \<Rightarrow> 'w \<Rightarrow> 'w" where
  "notify cfg attempt e w = (case OnRetry cfg of None \<Rightarrow> w | Some f \<Rightarrow> f attempt e w)"

function do_loop ::
    "'w runtime \<Rightarrow> 'w retry_config \<Rightarrow> ('w \<Rightarrow> err \<times> 'w) \<Rightarrow> int \<Rightarrow> err \<Rightarrow> 'w \<Rightarrow> err \<times> 'w" where
  "do_loop rt cfg fn attempt lerr w =
     (if attempt > budget cfg then (lerr, w)
      else case fn w of
        (None, w) \<Rightarrow> (None, w)
      | (Some e, w) \<Rightarrow>
          if terminal cfg e then (Some e, w)
          else if attempt = budget cfg then (Some e, w)
          else case delay_of rt cfg attempt (notify cfg attempt e w) of
            (d, w) \<Rightarrow>
              (case sleep_of rt cfg d w of
                 (Some serr, w) \<Rightarrow> (Some e, w)
               | (None, w) \<Rightarrow> do_loop rt cfg fn (attempt + 1) (Some e) w))"
  by pat_completeness auto
termination
  by (relation "measure (\<lambda>(rt, cfg, fn, attempt, lerr, w). nat (budget cfg + 1 - attempt))") auto

declare do_loop.simps [simp del]

definition Do :: "'w runtime \<Rightarrow> 'w retry_config \<Rightarrow> ('w \<Rightarrow> err \<times> 'w) \<Rightarrow> 'w \<Rightarrow> err \<times> 'w" where
  "Do rt cfg fn w = do_loop rt cfg fn 1 None w"

text \<open>
  A rule for what a run leaves behind: \<open>I\<close> holds before each call of the operation, \<open>P\<close> of
  what a call returns and of the result of the run.
\<close>

lemma do_loop_rule:
  assumes call: "\<And>w r w'. I w \<Longrightarrow> fn w = (r, w') \<Longrightarrow> P r w'"
    and again: "\<And>e w. P (Some e) w \<Longrightarrow> \<not> terminal cfg e \<Longrightarrow> I w"
    and waits: "\<And>n e w. I w \<Longrightarrow> I (notify cfg n e w)" "\<And>n w. I w \<Longrightarrow> I (snd (delay_of rt cfg n w))"
      "\<And>d w. I w \<Longrightarrow> I (snd (sleep_of rt cfg d w))"
    and gives_up: "\<And>e w. I w \<Longrightarrow> \<not> terminal cfg e \<Longrightarrow> P (Some e) w"
  shows "I w \<Longrightarrow> n \<le> budget cfg \<Longrightarrow> do_loop rt cfg fn n x w = (r, w') \<Longrightarrow> P r w'"
proof (induction "nat (budget cfg - n)" arbitrary: n x w rule: less_induct)
  case less
  obtain r1 w1 where fn: "fn w = (r1, w1)" by force
  have p1: "P r1 w1" using call [OF less.prems(1) fn] .
  show ?case
  proof (cases "r1 = None \<or> terminal cfg (the r1) \<or> n = budget cfg")
    case True
    then have "do_loop rt cfg fn n x w = (r1, w1)"
      using less.prems(2) fn by (cases r1) (auto simp: do_loop.simps [of _ _ _ n])
    with less.prems(3) p1 show ?thesis by simp
  next
    case False
    then obtain e where e: "r1 = Some e" "\<not> terminal cfg e" "n < budget cfg"
      using less.prems(2) by auto
    obtain d w2 where d: "delay_of rt cfg n (notify cfg n e w1) = (d, w2)" by force
    obtain s w3 where s: "sleep_of rt cfg d w2 = (s, w3)" by force
    have "I w1" using again [of e w1] p1 e(1,2) by simp
    then have "I w2" using waits(2) [OF waits(1), of w1 n n e] d by simp
    then have i3: "I w3" using waits(3) [of w2 d] s by simp
    have step: "do_loop rt cfg fn n x w =
        (case s of None \<Rightarrow> do_loop rt cfg fn (n + 1) (Some e) w3 | Some _ \<Rightarrow> (Some e, w3))"
      using e d s fn by (subst do_loop.simps) (auto split: option.splits)
    show ?thesis
    proof (cases s)
      case None
      then have "do_loop rt cfg fn (n + 1) (Some e) w3 = (r, w')" using step less.prems(3) by simp
      then show ?thesis using less.hyps [of "n + 1" w3 "Some e"] i3 e(3) by simp
    next
      case (Some serr)
      then show ?thesis using step less.prems(3) gives_up [OF i3 e(2)] by auto
    qed
  qed
qed

lemma Do_rule:
  assumes "\<And>w r w'. I w \<Longrightarrow> fn w = (r, w') \<Longrightarrow> P r w'"
    and "\<And>e w. P (Some e) w \<Longrightarrow> \<not> terminal cfg e \<Longrightarrow> I w"
    and "\<And>n e w. I w \<Longrightarrow> I (notify cfg n e w)" and "\<And>n w. I w \<Longrightarrow> I (snd (delay_of rt cfg n w))"
    and "\<And>d w. I w \<Longrightarrow> I (snd (sleep_of rt cfg d w))"
    and "\<And>e w. I w \<Longrightarrow> \<not> terminal cfg e \<Longrightarrow> P (Some e) w"
    and "I w" and "Do rt cfg fn w = (r, w')"
  shows "P r w'"
proof (rule do_loop_rule [of I fn P cfg rt w 1 None r w'])
  show "do_loop rt cfg fn 1 None w = (r, w')" using assms(8) by (simp add: Do_def)
  show "1 \<le> budget cfg" by (simp add: budget_def)
qed (fact assms)+

section \<open>The delay stays within its bounds\<close>

lemma cap_max_bounded:
  assumes "0 < Max_delay b" and "Max_delay b \<le> 2 ^ 53" and "f_nonneg x"
  shows "\<exists>q. cap_max b x = Fin q \<and> 0 \<le> q \<and> q \<le> of_int (Max_delay b)"
proof -
  have "of_int64 (Max_delay b) = Fin (of_int (Max_delay b))"
    using assms by (intro of_int64_exact) simp
  with assms show ?thesis
    by (auto simp: cap_max_def elim!: f_nonneg_cases)
qed

lemma of_int64_pos:
  assumes "0 < i" and "i \<le> max_int64"
  shows "\<exists>a. of_int64 i = Fin a \<and> 1 \<le> a"
proof -
  have "(of_int i :: rat) \<le> of_int (2 ^ 63)" using assms(2) by (intro of_int_le_iff [THEN iffD2]) simp
  moreover have "(2 ^ 63 :: rat) \<le> 2 ^ 1000" by (rule power_increasing) simp_all
  ultimately have "\<bar>of_int i :: rat\<bar> \<le> 2 ^ 1000" using assms(1) by simp
  then obtain a where "rnd64 (of_int i) = Fin a" using rnd64_bounded by blast
  moreover have "pow2 0 \<le> (of_int i :: rat)" using assms(1) by (simp add: pow2_def)
  ultimately show ?thesis using rnd64_ge_pow2 [of 0 "of_int i"] by (simp add: of_int64_def pow2_def)
qed

lemma growth_nonneg:
  assumes "0 < Base b" and "Base b \<le> max_int64" and "Factor b \<noteq> NaN"
  shows "f_nonneg (growth b attempt)"
proof -
  have f: "f_less (Fin 1) (if f_le (Factor b) (Fin 1) then Fin 2 else Factor b)"
    using assms(3) by (cases "Factor b") (auto simp: f_le_def)
  obtain a where "of_int64 (Base b) = Fin a" "1 \<le> a" using of_int64_pos [OF assms(1,2)] by blast
  with f_pow_nonneg [OF f] show ?thesis
    unfolding growth_def Let_def by (simp only:) (rule f_mul_nonneg, simp_all)
qed

lemma add_jitter_finite:
  assumes "\<bar>q\<bar> \<le> 2 ^ 53" and "Jitter b = Fin j" and "0 \<le> j" and "j \<le> 1"
    and "0 \<le> r" and "r \<le> 1"
  shows "\<exists>c. add_jitter b (Fin r) (Fin q) = Fin c"
proof -
  have "\<bar>r * 2\<bar> \<le> 2 ^ 1000" using assms by (simp add: abs_if)
  then obtain x where x: "f_mul (Fin r) (Fin 2) = Fin x" "\<bar>x\<bar> \<le> 2 * \<bar>r * 2\<bar> + 1"
    by (rule f_mul_bounded)
  have x5: "\<bar>x\<bar> \<le> 5" using x(2) assms by simp
  have "\<bar>x + - 1\<bar> \<le> 2 ^ 1000" using x5 by (simp add: abs_if split: if_splits)
  then obtain y where y: "f_add (Fin x) (Fin (- 1)) = Fin y" "\<bar>y\<bar> \<le> 2 * \<bar>x + - 1\<bar> + 1"
    by (rule f_add_bounded)
  have y13: "\<bar>y\<bar> \<le> 13" using y(2) x5 by (simp add: abs_if split: if_splits)
  have yj: "\<bar>y * j\<bar> \<le> 13"
    using mult_mono [of "\<bar>y\<bar>" 13 "\<bar>j\<bar>" 1] y13 assms(3,4) by (simp add: abs_mult)
  then have "\<bar>y * j\<bar> \<le> 2 ^ 1000" by simp
  then obtain z where z: "f_mul (Fin y) (Fin j) = Fin z" "\<bar>z\<bar> \<le> 2 * \<bar>y * j\<bar> + 1"
    by (rule f_mul_bounded)
  have z27: "\<bar>z\<bar> \<le> 27" using z(2) yj by simp
  have qz: "\<bar>q * z\<bar> \<le> 2 ^ 58"
    using mult_mono [of "\<bar>q\<bar>" "2 ^ 53" "\<bar>z\<bar>" 27] assms(1) z27 by (simp add: abs_mult)
  then have "\<bar>q * z\<bar> \<le> 2 ^ 1000" by simp
  then obtain u where u: "f_mul (Fin q) (Fin z) = Fin u" "\<bar>u\<bar> \<le> 2 * \<bar>q * z\<bar> + 1"
    by (rule f_mul_bounded)
  have "\<bar>q + u\<bar> \<le> 2 ^ 60" using u(2) qz assms(1) by (simp add: abs_if split: if_splits)
  then have "\<bar>q + u\<bar> \<le> 2 ^ 1000" by simp
  then obtain v where "f_add (Fin q) (Fin u) = Fin v" by (rule f_add_bounded)
  with x(1) y(1) z(1) u(1) assms(2) show ?thesis
    by (auto simp: add_jitter_def f_sub_def Let_def simp del: f_mul.simps f_add.simps)
qed

lemma to_int64_within:
  assumes "0 \<le> q" and "q \<le> of_int m" and "m \<le> max_int64"
  shows "0 \<le> to_int64 other (Fin q) \<and> to_int64 other (Fin q) \<le> m"
proof -
  have "0 \<le> \<lfloor>q\<rfloor>" and "\<lfloor>q\<rfloor> \<le> m" using assms by (simp, linarith)
  with assms show ?thesis by (simp add: to_int64_def truncate_rat_def in_int64_def)
qed

lemma NextWithRand_within:
  assumes "0 < Base b" and "Base b \<le> max_int64" and "0 < Max_delay b" and "Max_delay b \<le> 2 ^ 53"
    and "Factor b \<noteq> NaN" and "Jitter b = Fin j" and "0 \<le> j" and "j \<le> 1"
    and "0 \<le> r" and "r < 1"
  shows "0 \<le> NextWithRand other b attempt (Fin r) \<and>
         NextWithRand other b attempt (Fin r) \<le> Max_delay b"
proof -
  obtain q where q: "cap_max b (growth b attempt) = Fin q" "0 \<le> q" "q \<le> of_int (Max_delay b)"
    using cap_max_bounded [OF assms(3,4) growth_nonneg [OF assms(1,2,5)]] by blast
  have "of_int (Max_delay b) \<le> (2 ^ 53 :: rat)"
    using assms(4) by (metis of_int_le_iff of_int_numeral of_int_power)
  with q have q53: "\<bar>q\<bar> \<le> 2 ^ 53" by simp
  obtain c where c: "add_jitter b (Fin r) (Fin q) = Fin c"
    using add_jitter_finite [OF q53 assms(6-9)] assms(10) by auto
  define d where "d = (if f_less (Fin c) (Fin 0) then Fin 0 else Fin c)"
  have "f_nonneg d" by (simp add: d_def)
  then obtain z where z: "cap_max b d = Fin z" "0 \<le> z" "z \<le> of_int (Max_delay b)"
    using cap_max_bounded [OF assms(3,4)] by blast
  have "z < 2 ^ 63" using z(3) \<open>of_int (Max_delay b) \<le> (2 ^ 53 :: rat)\<close> by simp
  then have "\<not> f_le (of_int64 max_int64) (Fin z)"
    unfolding of_int64_max by (simp add: f_le_def)
  then have "NextWithRand other b attempt (Fin r) = to_int64 other (Fin z)"
    unfolding NextWithRand_def Let_def q(1) c d_def [symmetric] z(1) by (rule if_not_P)
  moreover have "Max_delay b \<le> max_int64" using assms(4) by simp
  ultimately show ?thesis using to_int64_within [OF z(2,3)] by simp
qed

text \<open>The doubling schedule, where \<open>float64\<close> is exact.\<close>

definition doubles :: "backoff \<Rightarrow> bool" where
  "doubles b = (Factor b = Fin 2 \<or> f_le (Factor b) (Fin 1))"

lemma f_nat_pow_two:
  assumes "0 \<le> n" and "n \<le> max_int64"
  shows "f_pow (Fin 2) (f_nat (of_int64 n)) = rnd64 (pow2 n)"
proof (cases "n \<le> 2 ^ 53")
  case True
  then show ?thesis using of_int64_exact [of n] assms(1) by (simp add: f_pow_two)
next
  case False
  then obtain a where a: "of_int64 n = Fin a" using of_int64_pos [of n] assms(2) by fastforce
  have "(of_int (2 ^ 53) :: rat) \<le> of_int n" using False by (simp only: of_int_le_iff)
  then have "pow2 53 \<le> of_int n" by (simp add: pow2_def)
  then have "pow2 53 \<le> a" using rnd64_ge_pow2 [of 53 "of_int n"] a by (simp add: of_int64_def)
  then have "2 ^ 53 \<le> \<lfloor>a\<rfloor>" by (simp add: pow2_def le_floor_iff)
  then show ?thesis using False a rnd64_pow2 [of "\<lfloor>a\<rfloor>"] rnd64_pow2 [of n] by (simp add: f_pow_two)
qed

lemma growth_two:
  assumes "doubles b" and "n \<le> max_int64"
  shows "growth b n = f_mul (of_int64 (Base b)) (rnd64 (pow2 (max n 1 - 1)))"
proof -
  have "(if f_le (Factor b) (Fin 1) then Fin 2 else Factor b) = Fin 2"
    using assms(1) by (auto simp: doubles_def f_le_def)
  moreover have "(if n < 1 then 1 else n) = max n 1" by simp
  ultimately show ?thesis
    using f_nat_pow_two [of "max n 1 - 1"] assms(2) unfolding growth_def Let_def by simp
qed

lemma growth_two_exact:
  assumes "0 < Base b" and "Base b \<le> 2 ^ 53" and "doubles b" and "n \<le> max_int64"
  shows "growth b n = rnd64 (of_int (Base b * 2 ^ nat (n - 1)))"
proof -
  let ?k = "max n 1 - 1"
  have k: "nat ?k = nat (n - 1)" by simp
  have b: "of_int64 (Base b) = Fin (of_int (Base b))" using assms by (intro of_int64_exact) simp
  have m: "of_int (Base b * 2 ^ nat (n - 1)) = (of_int (Base b) :: rat) * pow2 ?k"
    by (simp add: pow2_def k)
  show ?thesis
  proof (cases "?k < 1024")
    case True
    then show ?thesis using rnd64_pow2 [of ?k] unfolding growth_two [OF assms(3,4)] b m by simp
  next
    case False
    have "1 * pow2 1024 \<le> of_int (Base b) * pow2 ?k"
      using False assms(1) by (intro mult_mono pow2_mono) (simp_all add: less_imp_le)
    then have "pow2 1024 \<le> (of_int (Base b) * pow2 ?k :: rat)" by simp
    from rnd64_overflow [OF this]
    show ?thesis
      using False rnd64_pow2 [of ?k] assms(1) unfolding growth_two [OF assms(3,4)] b m by simp
  qed
qed

lemma cap_max_exact:
  assumes "0 < Max_delay b" and "Max_delay b \<le> 2 ^ 53" and "0 < m"
  shows "cap_max b (rnd64 (of_int m)) = Fin (of_int (min (Max_delay b) m))"
proof -
  have M: "of_int64 (Max_delay b) = Fin (of_int (Max_delay b))"
    using assms by (intro of_int64_exact) simp
  show ?thesis
  proof (cases "m \<le> 2 ^ 53")
    case True
    then have "rnd64 (of_int m) = Fin (of_int m)"
      using of_int64_exact [of m] assms(3) by (simp add: of_int64_def)
    then show ?thesis using assms(1) by (simp add: cap_max_def M min_def)
  next
    case False
    then have "(of_int (2 ^ 53) :: rat) \<le> of_int m" by (simp only: of_int_le_iff)
    then have "pow2 53 \<le> of_int m" by (simp add: pow2_def)
    then consider "rnd64 (of_int m) = PInf" | y where "rnd64 (of_int m) = Fin y" "pow2 53 \<le> y"
      using rnd64_ge_pow2 [of 53 "of_int m"] by auto
    moreover have "of_int (Max_delay b) \<le> pow2 53"
      using assms(2) by (metis of_int_le_iff of_int_numeral of_int_power nat_numeral pow2_def
          zero_le_numeral)
    moreover have "min (Max_delay b) m = Max_delay b" using False assms(2) by simp
    ultimately show ?thesis using assms(1) by cases (auto simp: cap_max_def M)
  qed
qed

text \<open>What the conversion makes of an integral delay, and of one out of range.\<close>

lemma convert_delay:
  assumes "0 < m" and exact: "rnd64 (of_int m) = Fin (of_int m) \<or> 2 ^ 63 \<le> m"
  shows "(let d = rnd64 (of_int m) in if f_le (of_int64 max_int64) d then max_int64 else to_int64 other d) =
    min max_int64 m"
proof (cases "m < 2 ^ 63")
  case True
  then have "(of_int m :: rat) < of_int (2 ^ 63)" by (simp only: of_int_less_iff)
  then have "\<not> f_le (of_int64 max_int64) (Fin (of_int m))" unfolding of_int64_max by (simp add: f_le_def)
  then show ?thesis using True exact assms(1) by (simp add: to_int64_def truncate_rat_def in_int64_def)
next
  case False
  then have "(of_int (2 ^ 63) :: rat) \<le> of_int m" by (intro of_int_le_iff [THEN iffD2]) simp
  then have "pow2 63 \<le> of_int m" by (simp add: pow2_def)
  then have "f_le (of_int64 max_int64) (rnd64 (of_int m))"
    using rnd64_ge_pow2 [of 63 "of_int m"] unfolding of_int64_max by (auto simp: f_le_def pow2_def)
  then show ?thesis using False by simp
qed

lemma NextWithRand_doubles:
  assumes "0 < Base b" and "Base b \<le> 2 ^ 53" and "doubles b" and "\<not> f_less (Fin 0) (Jitter b)"
    and "Max_delay b \<le> 2 ^ 53" and "n \<le> max_int64"
  shows "NextWithRand other b n r =
    min (if 0 < Max_delay b then Max_delay b else max_int64) (Base b * 2 ^ nat (n - 1))"
proof -
  define m where "m = Base b * 2 ^ nat (n - 1)"
  define k where "k = (if 0 < Max_delay b then min (Max_delay b) m else m)"
  have m: "0 < m" using assms(1) by (simp add: m_def)
  have k: "0 < k" using m by (simp add: k_def)
  have exact: "rnd64 (of_int k) = Fin (of_int k) \<or> 2 ^ 63 \<le> k"
  proof (cases "0 < Max_delay b")
    case True
    then show ?thesis using of_int64_exact [of k] k assms(5) by (simp add: k_def of_int64_def)
  next
    case False
    have "rnd64 (of_int m) = Fin (of_int m)" if "m < 2 ^ 63"
    proof -
      have "(of_int m :: rat) < of_int (2 ^ 63)" using that by (simp only: of_int_less_iff)
      moreover have "(2 ^ 63 :: rat) < 2 ^ 1024" by (rule power_strict_increasing) simp_all
      moreover have "of_int (Base b) * pow2 (int (nat (n - 1))) = (of_int m :: rat)" by (simp add: m_def pow2_def)
      ultimately show ?thesis using rnd64_scaled [OF assms(1,2), of "int (nat (n - 1))"] by simp
    qed
    then show ?thesis using False by (auto simp: k_def)
  qed
  have c1: "cap_max b (growth b n) = rnd64 (of_int k)"
    using growth_two_exact [OF assms(1-3,6)] cap_max_exact [of b m] m assms(5) of_int64_exact [of k] k
    by (auto simp: k_def m_def cap_max_def of_int64_def)
  have c2: "cap_max b (rnd64 (of_int k)) = rnd64 (of_int k)"
    using cap_max_exact [of b k] exact assms(5) k of_int64_exact [of k]
    by (auto simp: k_def cap_max_def of_int64_def)
  have nn: "\<not> f_less (rnd64 (of_int k)) (Fin 0)"
    using rnd64_nonneg [of "of_int k"] k by (cases "rnd64 (of_int k)") simp_all
  have "NextWithRand other b n r = min max_int64 k"
    using convert_delay [OF k exact, of other] assms(4)
    unfolding NextWithRand_def add_jitter_def Let_def c1 by (simp only: if_False nn c2)
  also have "\<dots> = min (if 0 < Max_delay b then Max_delay b else max_int64) m"
    using assms(5) by (simp add: k_def)
  finally show ?thesis by (simp add: m_def)
qed

text \<open>A growth that reached infinity turns into NaN under an offset that is not positive.\<close>

lemma rnd64_nonpos: "x \<le> 0 \<Longrightarrow> rnd64 x = NInf \<or> (\<exists>y. rnd64 x = Fin y \<and> y \<le> 0)"
proof -
  assume x: "x \<le> 0"
  have "round_half_even (x / pow2 e) \<le> 0" for e
    using x by (intro round_half_even_le) (simp add: divide_le_0_iff less_imp_le)
  then have "of_int (round_half_even (x / pow2 e)) * pow2 e \<le> 0" for e
    by (simp add: mult_le_0_iff less_imp_le)
  then show ?thesis using x by (simp add: rnd64_def Let_def)
qed

lemma jitter_inf:
  assumes "Jitter b = Fin j" and "0 < j" and "j \<le> 1" and "0 \<le> q" and "q \<le> 1 / 2"
  shows "add_jitter b (Fin q) PInf = NaN"
proof -
  obtain x where x: "rnd64 (q * 2) = Fin x" "x \<le> 1" using rnd64_unit [of "q * 2"] assms(4,5) by auto
  then have "x + - 1 \<le> 0" by simp
  from rnd64_nonpos [OF this] have "f_mul (f_add (Fin x) (Fin (- 1))) (Fin j) = NInf \<or>
      (\<exists>z. f_mul (f_add (Fin x) (Fin (- 1))) (Fin j) = Fin z \<and> z \<le> 0)"
  proof (elim disjE exE conjE)
    fix y assume y: "rnd64 (x + - 1) = Fin y" "y \<le> 0"
    then have "y * j \<le> 0" using assms(2) by (simp add: mult_le_0_iff)
    from rnd64_nonpos [OF this] y(1) show ?thesis by simp
  qed (use assms(2) in simp)
  then show ?thesis using assms(1,2) x(1) by (auto simp: add_jitter_def f_sub_def Let_def)
qed

lemma NextWithRand_NaN: "add_jitter b r (cap_max b (growth b n)) = NaN \<Longrightarrow> NextWithRand other b n r = other NaN"
  by (simp add: NextWithRand_def Let_def cap_max_def f_le_def to_int64_def)

section \<open>The attempts of Do\<close>

text \<open>
  \<open>Do\<close> over a state that also logs each call of the operation and each wait: what the
  operation returned, and how long the wait was and how it ended.
\<close>

datatype retry_event = Called err | Waited duration err

definition log_rt :: "'w runtime \<Rightarrow> ('w \<times> retry_event list) runtime" where
  "log_rt rt = \<lparr>ctx_Err = (\<lambda>(w, l). ctx_Err rt w),
     timer = (\<lambda>d (w, l). case timer rt d w of (c, w) \<Rightarrow> (c, w, l)),
     rand_Float64 = (\<lambda>(w, l). case rand_Float64 rt w of (r, w) \<Rightarrow> (r, w, l)),
     convert = convert rt\<rparr>"

definition log_cfg :: "'w runtime \<Rightarrow> 'w retry_config \<Rightarrow> ('w \<times> retry_event list) retry_config" where
  "log_cfg rt cfg = \<lparr>Backoff = Backoff cfg,
     Strategy = Some (\<lambda>n (w, l). case delay_of rt cfg n w of (d, w) \<Rightarrow> (d, w, l)),
     IsTerminal = IsTerminal cfg,
     OnRetry = Some (\<lambda>n e (w, l). (notify cfg n e w, l)),
     Sleep = Some (\<lambda>d (w, l). case sleep_of rt cfg d w of (e, w) \<Rightarrow> (e, w, l @ [Waited d e])),
     Rand = None\<rparr>"

definition log_fn :: "('w \<Rightarrow> err \<times> 'w) \<Rightarrow> 'w \<times> retry_event list \<Rightarrow> err \<times> 'w \<times> retry_event list" where
  "log_fn fn = (\<lambda>(w, l). case fn w of (e, w) \<Rightarrow> (e, w, l @ [Called e]))"

fun attempts :: "retry_event list \<Rightarrow> err list" where
  "attempts [] = []"
| "attempts (Called e # l) = e # attempts l"
| "attempts (Waited d e # l) = attempts l"

lemma log_cfg_simps [simp]:
  "budget (log_cfg rt cfg) = budget cfg"
  "terminal (log_cfg rt cfg) = terminal cfg"
  "notify (log_cfg rt cfg) n e (w, l) = (notify cfg n e w, l)"
  "delay_of (log_rt rt) (log_cfg rt cfg) n (w, l) =
     (case delay_of rt cfg n w of (d, w) \<Rightarrow> (d, w, l))"
  "sleep_of (log_rt rt) (log_cfg rt cfg) d (w, l) =
     (case sleep_of rt cfg d w of (e, w) \<Rightarrow> (e, w, l @ [Waited d e]))"
  "log_fn fn (w, l) = (case fn w of (e, w) \<Rightarrow> (e, w, l @ [Called e]))"
  by (simp_all add: log_cfg_def budget_def terminal_def fun_eq_iff notify_def delay_of_def
      sleep_of_def log_fn_def)

text \<open>What a run from attempt \<open>n\<close> logs.\<close>

definition retry_log :: "'w retry_config \<Rightarrow> int \<Rightarrow> err \<Rightarrow> retry_event list \<Rightarrow> bool" where
  "retry_log cfg n r l =
     (attempts l \<noteq> [] \<and> int (length (attempts l)) \<le> budget cfg - n + 1 \<and>
      r = last (attempts l) \<and>
      list_all (\<lambda>x. case x of None \<Rightarrow> False | Some e \<Rightarrow> \<not> terminal cfg e) (butlast (attempts l)) \<and>
      (case r of None \<Rightarrow> True
       | Some e \<Rightarrow> terminal cfg e \<or> int (length (attempts l)) = budget cfg - n + 1 \<or>
           (\<exists>d s. last l = Waited d (Some s))))"

lemma retry_log_stop:
  "n \<le> budget cfg \<Longrightarrow> r = None \<or> (\<exists>e. r = Some e \<and> (terminal cfg e \<or> n = budget cfg)) \<Longrightarrow>
   retry_log cfg n r [Called r]"
  by (auto simp: retry_log_def)

lemma retry_log_cut:
  "n \<le> budget cfg \<Longrightarrow> retry_log cfg n (Some e) [Called (Some e), Waited d (Some s)]"
  by (auto simp: retry_log_def)

lemma retry_log_again:
  "\<not> terminal cfg e \<Longrightarrow> retry_log cfg (n + 1) r l \<Longrightarrow>
   retry_log cfg n r (Called (Some e) # Waited d None # l)"
  by (cases l rule: attempts.cases) (auto simp: retry_log_def split: option.splits)

lemma do_loop_log:
  assumes "n \<le> budget cfg"
  shows "\<exists>l'. do_loop (log_rt rt) (log_cfg rt cfg) (log_fn fn) n x (w, l) =
                (fst (do_loop rt cfg fn n y w), snd (do_loop rt cfg fn n y w), l @ l') \<and>
              retry_log cfg n (fst (do_loop rt cfg fn n y w)) l'"
  using assms
proof (induction "nat (budget cfg - n)" arbitrary: n x y w l)
  case (0 n x y w l)
  then have n: "n = budget cfg" by simp
  obtain r w1 where fn: "fn w = (r, w1)" by force
  show ?case
    by (rule exI [of _ "[Called r]"])
       (use n fn in \<open>auto simp: do_loop.simps [of _ _ _ "budget cfg"] intro!: retry_log_stop
          split: option.splits\<close>)
next
  case (Suc k n x y w l)
  then have n: "n < budget cfg" and k: "k = nat (budget cfg - (n + 1))" by simp_all
  obtain r w1 where fn: "fn w = (r, w1)" by force
  show ?case
  proof (cases "r = None \<or> terminal cfg (the r)")
    case True
    then show ?thesis
      by (intro exI [of _ "[Called r]"])
         (use n fn in \<open>cases r; auto simp: do_loop.simps [of _ _ _ n] intro!: retry_log_stop\<close>)
  next
    case False
    then obtain e where r: "r = Some e" and nt: "\<not> terminal cfg e" by auto
    obtain d w2 where d: "delay_of rt cfg n (notify cfg n e w1) = (d, w2)" by force
    obtain s w3 where s: "sleep_of rt cfg d w2 = (s, w3)" by force
    have step: "do_loop rt cfg fn n y w =
        (case s of None \<Rightarrow> do_loop rt cfg fn (n + 1) (Some e) w3 | Some _ \<Rightarrow> (Some e, w3))"
      using n r nt d s fn by (subst do_loop.simps) (auto split: option.splits)
    have lstep: "do_loop (log_rt rt) (log_cfg rt cfg) (log_fn fn) n x (w, l) =
        (case s of
           None \<Rightarrow> do_loop (log_rt rt) (log_cfg rt cfg) (log_fn fn) (n + 1) (Some e)
                     (w3, l @ [Called (Some e), Waited d None])
         | Some _ \<Rightarrow> (Some e, w3, l @ [Called (Some e), Waited d s]))"
      using n r nt d s fn by (subst do_loop.simps) (auto split: option.splits)
    show ?thesis
    proof (cases s)
      case None
      from Suc(1) [OF k, of "Some e" w3 "l @ [Called (Some e), Waited d None]" "Some e"] n
      obtain l' where "do_loop (log_rt rt) (log_cfg rt cfg) (log_fn fn) (n + 1) (Some e)
             (w3, l @ [Called (Some e), Waited d None]) =
           (fst (do_loop rt cfg fn (n + 1) (Some e) w3), snd (do_loop rt cfg fn (n + 1) (Some e) w3),
            (l @ [Called (Some e), Waited d None]) @ l')"
        and "retry_log cfg (n + 1) (fst (do_loop rt cfg fn (n + 1) (Some e) w3)) l'" by auto
      then show ?thesis
        using step lstep None retry_log_again [OF nt]
        by (intro exI [of _ "Called (Some e) # Waited d None # l'"]) simp
    next
      case (Some serr)
      then show ?thesis
        using step lstep n retry_log_cut [of n cfg e d serr]
        by (intro exI [of _ "[Called (Some e), Waited d s]"]) simp
    qed
  qed
qed

section \<open>Properties\<close>

text \<open>
  C17: let \<open>Base\<close> be positive, \<open>Max\<close> positive and at most \<open>2^53\<close> nanoseconds (104 days, up to which
  \<open>float64\<close> is exact), \<open>Factor\<close> not NaN, \<open>Jitter\<close> in \<open>[0,1]\<close> and the random fraction in \<open>[0,1)\<close>. Then
  for every attempt number the delay is never negative and never above \<open>Max\<close>.
\<close>
theorem NextWithRand_bounds:
  assumes "0 < Base b" and "Base b \<le> max_int64" and "0 < Max_delay b" and "Max_delay b \<le> 2 ^ 53"
    and "Factor b \<noteq> NaN" and "Jitter b = Fin j" and "0 \<le> j" and "j \<le> 1"
    and "0 \<le> r" and "r < 1"
  shows "0 \<le> NextWithRand other b attempt (Fin r) \<and>
         NextWithRand other b attempt (Fin r) \<le> Max_delay b"
  by (rule NextWithRand_within [OF assms])

theorem NextWithRand_bounds_witness:
  "0 \<le> NextWithRand (\<lambda>_. 0) \<lparr>Base = 100 * millisecond, Max_delay = 30 * second, Factor = Fin 2,
         MaxAttempts = 5, Jitter = Fin (1 / 2)\<rparr> 40 (Fin (3 / 4)) \<and>
   NextWithRand (\<lambda>_. 0) \<lparr>Base = 100 * millisecond, Max_delay = 30 * second, Factor = Fin 2,
         MaxAttempts = 5, Jitter = Fin (1 / 2)\<rparr> 40 (Fin (3 / 4)) \<le> 30 * second"
  using NextWithRand_bounds [of "\<lparr>Base = 100 * millisecond, Max_delay = 30 * second,
    Factor = Fin 2, MaxAttempts = 5, Jitter = Fin (1 / 2)\<rparr>" "1 / 2" "3 / 4" "\<lambda>_. 0" 40]
  by simp

text \<open>
  C7: \<open>Do\<close> always returns, after at least one and at most \<open>max(MaxAttempts, 1)\<close> calls of the
  operation. It returns what the last call returned; every earlier call failed with an
  error that is not terminal; and it gives up on an error only if that error is terminal,
  the budget is spent, or the last wait was cut short by the context.
\<close>
theorem Do_attempts:
  "\<exists>l. Do (log_rt rt) (log_cfg rt cfg) (log_fn fn) (w, []) =
         (fst (Do rt cfg fn w), snd (Do rt cfg fn w), l) \<and>
       attempts l \<noteq> [] \<and> int (length (attempts l)) \<le> budget cfg \<and>
       fst (Do rt cfg fn w) = last (attempts l) \<and>
       list_all (\<lambda>x. case x of None \<Rightarrow> False | Some e \<Rightarrow> \<not> terminal cfg e)
         (butlast (attempts l)) \<and>
       (case fst (Do rt cfg fn w) of None \<Rightarrow> True
        | Some e \<Rightarrow> terminal cfg e \<or> int (length (attempts l)) = budget cfg \<or>
            (\<exists>d s. last l = Waited d (Some s)))"
proof -
  have "1 \<le> budget cfg" by (simp add: budget_def)
  from do_loop_log [OF this, of rt fn None w "[]" None] obtain l where
    "do_loop (log_rt rt) (log_cfg rt cfg) (log_fn fn) 1 None (w, []) =
       (fst (do_loop rt cfg fn 1 None w), snd (do_loop rt cfg fn 1 None w), l)"
    and "retry_log cfg 1 (fst (do_loop rt cfg fn 1 None w)) l" by auto
  then show ?thesis
    unfolding Do_def retry_log_def diff_add_cancel by blast
qed

text \<open>
  C21: with a positive \<open>Base\<close> and a \<open>Max\<close> of at most \<open>2^53\<close> nanoseconds (104 days) each, the factor 2,
  given or by default for a factor up to 1, and no positive jitter, the schedule is exactly the
  documented one, for every attempt number: the delay before attempt \<open>n\<close> is \<open>Base\<close> times two to the
  \<open>n - 1\<close>, or \<open>Max\<close> when that is less; without a ceiling (\<open>Max\<close> not positive) it is that product, or
  the largest duration when the product does not fit. An attempt number below 1 counts as 1. No
  rounding shows.
\<close>
theorem NextWithRand_exponential:
  assumes "0 < Base b" and "Base b \<le> 2 ^ 53" and "Factor b = Fin 2 \<or> f_le (Factor b) (Fin 1)"
    and "\<not> f_less (Fin 0) (Jitter b)" and "Max_delay b \<le> 2 ^ 53" and "n \<le> max_int64"
  shows "NextWithRand other b n r =
    min (if 0 < Max_delay b then Max_delay b else max_int64) (Base b * 2 ^ nat (n - 1))"
  using NextWithRand_doubles [of b n other r] assms by (simp add: doubles_def)

theorem NextWithRand_exponential_witness:
  "NextWithRand (\<lambda>_. 0) \<lparr>Base = 100 * millisecond, Max_delay = 30 * second, Factor = Fin 2,
     MaxAttempts = 5, Jitter = Fin 0\<rparr> 4 NaN = 800 * millisecond"
  by (subst NextWithRand_exponential) simp_all

text \<open>
  C24: with the factor 2, given or by default, and any attempt number from 1025 on, the power
  overflows to \<open>+Inf\<close> and the guard before the conversion does not stop what may come of it: the
  duration is whatever the implementation makes of NaN when \<open>Base\<close> is 0 (zero times infinity),
  whatever the other fields are, and when \<open>Base\<close> is positive, \<open>Max\<close> is not (no ceiling), the jitter
  lies in \<open>(0,1]\<close> and the random fraction in \<open>[0,1/2]\<close>, as with \<open>Next\<close>, which passes 0.
\<close>
theorem NextWithRand_overflow_NaN:
  assumes "Factor b = Fin 2 \<or> f_le (Factor b) (Fin 1)" and "1025 \<le> n" and "n \<le> max_int64"
    and "Base b = 0 \<or>
      0 < Base b \<and> Base b \<le> max_int64 \<and> Max_delay b \<le> 0 \<and> Jitter b = Fin j \<and> 0 < j \<and> j \<le> 1 \<and> 0 \<le> q \<and> q \<le> 1 / 2"
  shows "NextWithRand other b n (Fin q) = other NaN"
proof (rule NextWithRand_NaN)
  have g: "growth b n = f_mul (of_int64 (Base b)) PInf"
    using growth_two [of b n] rnd64_pow2 [of "n - 1"] assms(1-3) by (simp add: doubles_def max_def)
  from assms(4) show "add_jitter b (Fin q) (cap_max b (growth b n)) = NaN"
  proof (elim disjE)
    assume "Base b = 0"
    then show ?thesis by (simp add: g of_int64_def cap_max_def add_jitter_def Let_def)
  next
    assume b: "0 < Base b \<and> Base b \<le> max_int64 \<and> Max_delay b \<le> 0 \<and> Jitter b = Fin j \<and> 0 < j \<and> j \<le> 1 \<and> 0 \<le> q \<and> q \<le> 1 / 2"
    then obtain a where "of_int64 (Base b) = Fin a" "1 \<le> a" using of_int64_pos [of "Base b"] by blast
    then show ?thesis using b jitter_inf [of b j q] by (simp add: g cap_max_def)
  qed
qed

theorem NextWithRand_overflow_NaN_witness:
  "NextWithRand (\<lambda>x. if x = NaN then 7 else 0) \<lparr>Base = second, Max_delay = 0, Factor = Fin 2, MaxAttempts = 0, Jitter = Fin (1 / 2)\<rparr> 1030 (Fin 0) =
     7 \<and>
   NextWithRand (\<lambda>x. if x = NaN then 7 else 0) \<lparr>Base = 0, Max_delay = second, Factor = Fin 0, MaxAttempts = 0, Jitter = Fin 0\<rparr> 2000 (Fin (3 / 4)) =
     7"
  using NextWithRand_overflow_NaN [of "\<lparr>Base = second, Max_delay = 0, Factor = Fin 2, MaxAttempts = 0, Jitter = Fin (1 / 2)\<rparr>" 1030 "1 / 2" 0 "\<lambda>x. if x = NaN then 7 else 0"]
    NextWithRand_overflow_NaN [of "\<lparr>Base = 0, Max_delay = second, Factor = Fin 0, MaxAttempts = 0, Jitter = Fin 0\<rparr>" 2000 0 "3 / 4" "\<lambda>x. if x = NaN then 7 else 0"]
  by (simp add: f_le_def)

end
