(* ===== verification/Worker_Processor.thy ===== *)
theory Worker_Processor
  imports Errs
begin

text \<open>
  The batch processor of \<open>worker/processor.go\<close> and the recovering call of
  \<open>safetick/safetick.go\<close>. The steps of a source are functions of a state \<open>'w\<close>; a call of
  \<open>Handle\<close> may panic, and the other steps and callbacks are taken not to (a panic of theirs ends the
  tick, which the surrounding loop recovers). Each step gets the context the code derives for it. Logging is not
  modelled.
\<close>

section \<open>safetick\<close>

definition Call :: "('w \<Rightarrow> err outcome \<times> 'w) \<Rightarrow> 'w \<Rightarrow> err \<times> 'w" where
  "Call fn w =
     (case fn w of (Ret e, w) \<Rightarrow> (e, w) | (Panics v, w) \<Rightarrow> (Some (Panic_Error v), w))"

text \<open>\<open>Guard\<close>: whether a panic was recovered; \<open>onPanic\<close> is told the worker and the phase.\<close>

definition Guard ::
    "(string \<Rightarrow> string \<Rightarrow> 'w \<Rightarrow> 'w) option \<Rightarrow> string \<Rightarrow> ('w \<Rightarrow> unit outcome \<times> 'w) \<Rightarrow> 'w \<Rightarrow> bool \<times> 'w" where
  "Guard onPanic worker fn w =
     (case fn w of
        (Ret u, w) \<Rightarrow> (False, w)
      | (Panics v, w) \<Rightarrow>
          (True, case onPanic of None \<Rightarrow> w | Some h \<Rightarrow> h worker ''guard'' w))"

section \<open>Steps and configuration\<close>

record ('w, 't) steps =
  Claim :: "(ctx \<Rightarrow> instant \<Rightarrow> int \<Rightarrow> 'w \<Rightarrow> ('t list \<times> err) \<times> 'w) option"
  Handle :: "(ctx \<Rightarrow> 't \<Rightarrow> 'w \<Rightarrow> err outcome \<times> 'w) option"
  MarkDone :: "(ctx \<Rightarrow> 't \<Rightarrow> instant \<Rightarrow> 'w \<Rightarrow> err \<times> 'w) option"
  MarkFailed :: "(ctx \<Rightarrow> 't \<Rightarrow> string \<Rightarrow> bool \<Rightarrow> instant \<Rightarrow> 'w \<Rightarrow> err \<times> 'w) option"
  Release :: "(ctx \<Rightarrow> 't list \<Rightarrow> 'w \<Rightarrow> err \<times> 'w) option"

definition missing :: "('w, 't) steps \<Rightarrow> string" where
  "missing s =
     (if Claim s = None then ''Claim''
      else if Handle s = None then ''Handle''
      else if MarkDone s = None then ''MarkDone''
      else if MarkFailed s = None then ''MarkFailed''
      else [])"

record ('w, 't) processorConfig =
  pc_Name :: string
  BatchSize :: int
  HandleTimeout :: duration
  BatchTimeout :: duration
  pc_IsTerminal :: "(go_error \<Rightarrow> bool) option"
  IsHalt :: "(go_error \<Rightarrow> bool) option"
  OnPanic :: "(ctx \<Rightarrow> 't \<Rightarrow> go_error \<Rightarrow> 'w \<Rightarrow> err \<times> 'w) option"
  Now :: "('w \<Rightarrow> instant \<times> 'w) option"

definition retryPanic :: "ctx \<Rightarrow> 't \<Rightarrow> go_error \<Rightarrow> 'w \<Rightarrow> err \<times> 'w" where
  "retryPanic c item p w = (Some p, w)"

definition default_to :: "'a \<Rightarrow> 'a option \<Rightarrow> 'a option" where
  "default_to d x = (case x of None \<Rightarrow> Some d | Some y \<Rightarrow> Some y)"

text \<open>\<open>withDefaults\<close>; the argument is the system clock.\<close>

definition withDefaults ::
    "('w \<Rightarrow> instant \<times> 'w) \<Rightarrow> ('w, 't) processorConfig \<Rightarrow> ('w, 't) processorConfig" where
  "withDefaults clock c =
     c\<lparr>pc_Name := if pc_Name c = [] then ''processor'' else pc_Name c,
       BatchSize := if BatchSize c \<le> 0 then 100 else BatchSize c,
       pc_IsTerminal := default_to (\<lambda>_. False) (pc_IsTerminal c),
       IsHalt := default_to (\<lambda>_. False) (IsHalt c),
       OnPanic := default_to retryPanic (OnPanic c),
       Now := default_to clock (Now c)\<rparr>"

definition markTimeout :: duration where "markTimeout = 5 * second"

text \<open>
  A processor: its steps and its configuration, with every function that the constructor
  has checked or defaulted taken out of its option; \<open>ctxErr\<close> is \<open>ctx.Err()\<close>.
\<close>

record ('w, 't) processor =
  claim :: "ctx \<Rightarrow> instant \<Rightarrow> int \<Rightarrow> 'w \<Rightarrow> ('t list \<times> err) \<times> 'w"
  handler :: "ctx \<Rightarrow> 't \<Rightarrow> 'w \<Rightarrow> err outcome \<times> 'w"
  markDone :: "ctx \<Rightarrow> 't \<Rightarrow> instant \<Rightarrow> 'w \<Rightarrow> err \<times> 'w"
  markFailed :: "ctx \<Rightarrow> 't \<Rightarrow> string \<Rightarrow> bool \<Rightarrow> instant \<Rightarrow> 'w \<Rightarrow> err \<times> 'w"
  releaser :: "(ctx \<Rightarrow> 't list \<Rightarrow> 'w \<Rightarrow> err \<times> 'w) option"
  batchSize :: int
  handleTimeout :: duration
  batchTimeout :: duration
  isTerminal :: "go_error \<Rightarrow> bool"
  isHalt :: "go_error \<Rightarrow> bool"
  onPanic :: "ctx \<Rightarrow> 't \<Rightarrow> go_error \<Rightarrow> 'w \<Rightarrow> err \<times> 'w"
  now :: "'w \<Rightarrow> instant \<times> 'w"
  ctxErr :: "ctx \<Rightarrow> 'w \<Rightarrow> err"

definition NewProcessor ::
    "('w \<Rightarrow> instant \<times> 'w) \<Rightarrow> (ctx \<Rightarrow> 'w \<Rightarrow> err) \<Rightarrow> ('w, 't) steps \<Rightarrow> ('w, 't) processorConfig \<Rightarrow>
     ('w, 't) processor outcome" where
  "NewProcessor clock ctxe s cfg =
     (let c = withDefaults clock cfg in
      if missing s \<noteq> [] then Panics (''worker: processor '' @ go_quote (pc_Name c) @ '': Steps.'' @ missing s @ '' is nil'')
      else Ret \<lparr>claim = the (Claim s), handler = the (Handle s), markDone = the (MarkDone s),
                markFailed = the (MarkFailed s), releaser = Release s,
                batchSize = BatchSize c, handleTimeout = HandleTimeout c,
                batchTimeout = BatchTimeout c, isTerminal = the (pc_IsTerminal c),
                isHalt = the (IsHalt c), onPanic = the (OnPanic c), now = the (Now c),
                ctxErr = ctxe\<rparr>)"

section \<open>One drain\<close>

datatype pace = Idle | Busy

definition settle :: "ctx \<Rightarrow> (ctx \<Rightarrow> 'w \<Rightarrow> 'a \<times> 'w) \<Rightarrow> 'w \<Rightarrow> 'a \<times> 'w" where
  "settle c op w = op (With_timeout (Without_cancel c) markTimeout) w"

definition bounded ::
    "('w, 't) processor \<Rightarrow> ctx \<Rightarrow> (ctx \<Rightarrow> 'w \<Rightarrow> 'a \<times> 'w) \<Rightarrow> 'w \<Rightarrow> 'a \<times> 'w" where
  "bounded p c op w =
     (if handleTimeout p \<le> 0 then op c w else op (With_timeout c (handleTimeout p)) w)"

definition handle :: "('w, 't) processor \<Rightarrow> ctx \<Rightarrow> 't \<Rightarrow> 'w \<Rightarrow> err \<times> 'w" where
  "handle p c item w =
     (case bounded p (Unsuppress c) (\<lambda>c. Call (handler p c item)) w of
        (e, w) \<Rightarrow>
          (case as_panic e of
             None \<Rightarrow> (e, w)
           | Some v \<Rightarrow> onPanic p c item (Panic_Error v) w))"

definition handleOne :: "('w, 't) processor \<Rightarrow> ctx \<Rightarrow> 't \<Rightarrow> 'w \<Rightarrow> err \<times> 'w" where
  "handleOne p c item w =
     (case now p w of (t, w) \<Rightarrow>
        (case handle p c item w of (handleErr, w) \<Rightarrow>
           (case settle c (\<lambda>c w.
                    case handleErr of
                      Some e \<Rightarrow> markFailed p c item (Sanitize (err_text e)) (isTerminal p e) t w
                    | None \<Rightarrow> markDone p c item t w) w of
              (markErr, w) \<Rightarrow> (handleErr, w))))"

definition release :: "('w, 't) processor \<Rightarrow> ctx \<Rightarrow> 't list \<Rightarrow> 'w \<Rightarrow> 'w" where
  "release p c rest w =
     (case releaser p of
        None \<Rightarrow> w
      | Some rel \<Rightarrow> if rest = [] then w else snd (settle c (\<lambda>c. rel c rest) w))"

definition stops :: "('w, 't) processor \<Rightarrow> err \<Rightarrow> bool" where
  "stops p e = (case e of None \<Rightarrow> False | Some x \<Rightarrow> isHalt p x)"

definition expired :: "('w, 't) processor \<Rightarrow> ctx \<Rightarrow> instant \<Rightarrow> 'w \<Rightarrow> bool \<times> 'w" where
  "expired p c start w =
     (if ctxErr p c w \<noteq> None then (True, w)
      else if batchTimeout p > 0
        then (case now p w of (t, w) \<Rightarrow> (clamp64 (t - start) \<ge> batchTimeout p, w))
      else (False, w))"

text \<open>The loop of \<open>drain\<close>: whether a halting error ended it.\<close>

fun drain_loop :: "('w, 't) processor \<Rightarrow> ctx \<Rightarrow> instant \<Rightarrow> 't list \<Rightarrow> 'w \<Rightarrow> bool \<times> 'w" where
  "drain_loop p c start [] w = (False, w)"
| "drain_loop p c start (item # rest) w =
     (case expired p c start w of
        (True, w) \<Rightarrow> (False, release p c (item # rest) w)
      | (False, w) \<Rightarrow>
          (case handleOne p c item w of (e, w) \<Rightarrow>
             if stops p e then (True, release p c rest w)
             else drain_loop p c start rest w))"

definition drain :: "('w, 't) processor \<Rightarrow> ctx \<Rightarrow> 'w \<Rightarrow> (pace \<times> err) \<times> 'w" where
  "drain p c w =
     (case now p w of (start, w) \<Rightarrow>
        (case claim p c start (batchSize p) w of ((items, e), w) \<Rightarrow>
           if e \<noteq> None then ((Idle, e), w)
           else case drain_loop p c start items w of (halted, w) \<Rightarrow>
             if halted then ((Idle, None), w)
             else if int (length items) \<ge> batchSize p then ((Busy, None), w)
             else ((Idle, None), w)))"

definition process :: "('w, 't) processor \<Rightarrow> ctx \<Rightarrow> 'w \<Rightarrow> err \<times> 'w" where
  "process p c w = (case drain p c w of ((pace, e), w) \<Rightarrow> (e, w))"

section \<open>What a drain does to its batch\<close>

text \<open>
  The same processor over a state that also logs the calls of its steps: the items
  handled, the marks with their arguments, and the items released.
\<close>

datatype 't event =
    Handled 't
  | Marked_done 't ctx
  | Marked_failed 't string bool ctx
  | Released "'t list" ctx

definition log_call :: "('w \<Rightarrow> 'a \<times> 'w) \<Rightarrow> 'e list \<Rightarrow> 'w \<times> 'e list \<Rightarrow> 'a \<times> 'w \<times> 'e list" where
  "log_call f ev = (\<lambda>(w, l). case f w of (r, w) \<Rightarrow> (r, w, l @ ev))"

definition logged :: "('w, 't) processor \<Rightarrow> ('w \<times> 't event list, 't) processor" where
  "logged p = \<lparr>claim = (\<lambda>c t n. log_call (claim p c t n) []),
     handler = (\<lambda>c x. log_call (handler p c x) [Handled x]),
     markDone = (\<lambda>c x t. log_call (markDone p c x t) [Marked_done x c]),
     markFailed = (\<lambda>c x m b t. log_call (markFailed p c x m b t) [Marked_failed x m b c]),
     releaser = map_option (\<lambda>rel c xs. log_call (rel c xs) [Released xs c]) (releaser p),
     batchSize = batchSize p, handleTimeout = handleTimeout p, batchTimeout = batchTimeout p,
     isTerminal = isTerminal p, isHalt = isHalt p,
     onPanic = (\<lambda>c x e. log_call (onPanic p c x e) []),
     now = log_call (now p) [],
     ctxErr = (\<lambda>c (w, l). ctxErr p c w)\<rparr>"

lemma log_call_apply [simp]: "log_call f ev (w, l) = (case f w of (r, w) \<Rightarrow> (r, w, l @ ev))"
  by (simp add: log_call_def)

lemma logged_simps [simp]:
  "claim (logged p) c t n = log_call (claim p c t n) []"
  "handler (logged p) c x = log_call (handler p c x) [Handled x]"
  "markDone (logged p) c x t = log_call (markDone p c x t) [Marked_done x c]"
  "markFailed (logged p) c x m b t = log_call (markFailed p c x m b t) [Marked_failed x m b c]"
  "releaser (logged p) = map_option (\<lambda>rel c xs. log_call (rel c xs) [Released xs c]) (releaser p)"
  "batchSize (logged p) = batchSize p" "handleTimeout (logged p) = handleTimeout p"
  "batchTimeout (logged p) = batchTimeout p" "isTerminal (logged p) = isTerminal p"
  "isHalt (logged p) = isHalt p" "onPanic (logged p) c x e = log_call (onPanic p c x e) []"
  "now (logged p) = log_call (now p) []" "ctxErr (logged p) c (w, l) = ctxErr p c w"
  by (simp_all add: logged_def)

definition settled :: "ctx \<Rightarrow> ctx" where
  "settled c = With_timeout (Without_cancel c) markTimeout"

text \<open>The events of an item with a given outcome, and of the release of a rest.\<close>

definition item_events :: "('w, 't) processor \<Rightarrow> ctx \<Rightarrow> 't \<Rightarrow> err \<Rightarrow> 't event list" where
  "item_events p c x e =
     [Handled x,
      case e of
        None \<Rightarrow> Marked_done x (settled c)
      | Some e \<Rightarrow> Marked_failed x (Sanitize (err_text e)) (isTerminal p e) (settled c)]"

definition release_events :: "('w, 't) processor \<Rightarrow> ctx \<Rightarrow> 't list \<Rightarrow> 't event list" where
  "release_events p c rest =
     (if releaser p = None \<or> rest = [] then [] else [Released rest (settled c)])"

lemma logged_handle:
  "handle (logged p) c x (w, l) = (case handle p c x w of (e, w) \<Rightarrow> (e, w, l @ [Handled x]))"
  by (auto simp: handle_def bounded_def Call_def
      split: prod.splits outcome.splits option.splits)

lemma logged_handleOne:
  "handleOne (logged p) c x (w, l) =
     (case handleOne p c x w of (e, w) \<Rightarrow> (e, w, l @ item_events p c x e))"
  by (auto simp: handleOne_def logged_handle settle_def item_events_def settled_def
      split: prod.splits option.splits)

lemma logged_release:
  "release (logged p) c xs (w, l) = (release p c xs w, l @ release_events p c xs)"
  by (auto simp: release_def release_events_def settle_def settled_def
      split: option.splits prod.splits)

lemma logged_expired:
  "expired (logged p) c t (w, l) = (case expired p c t w of (b, w) \<Rightarrow> (b, w, l))"
  by (auto simp: expired_def split: prod.splits)

lemma logged_stops [simp]: "stops (logged p) e = stops p e"
  by (cases e) (simp_all add: stops_def)

text \<open>
  A batch of which the first items were handled with the outcomes \<open>outs\<close> and the rest
  released; only the last outcome may stop the batch.
\<close>

definition batch_log ::
    "('w, 't) processor \<Rightarrow> ctx \<Rightarrow> 't list \<Rightarrow> err list \<Rightarrow> bool \<Rightarrow> 't event list \<Rightarrow> bool" where
  "batch_log p c items outs halted l =
     (length outs \<le> length items \<and>
      l = concat (map2 (item_events p c) (take (length outs) items) outs) @
          release_events p c (drop (length outs) items) \<and>
      list_all (\<lambda>e. \<not> stops p e) (butlast outs) \<and>
      halted = (outs \<noteq> [] \<and> stops p (last outs)))"

lemma batch_log_stop: "batch_log p c items [] False (release_events p c items)"
  by (simp add: batch_log_def)

lemma batch_log_halt:
  "stops p e \<Longrightarrow> batch_log p c (x # xs) [e] True (item_events p c x e @ release_events p c xs)"
  by (simp add: batch_log_def)

lemma batch_log_step:
  "\<not> stops p e \<Longrightarrow> batch_log p c xs outs h l \<Longrightarrow>
   batch_log p c (x # xs) (e # outs) h (item_events p c x e @ l)"
  by (auto simp: batch_log_def)

lemma drain_loop_log:
  "\<exists>outs l'. drain_loop (logged p) c start items (w, l) =
      (case drain_loop p c start items w of (h, w) \<Rightarrow> (h, w, l @ l')) \<and>
      batch_log p c items outs (fst (drain_loop p c start items w)) l'"
proof (induction items arbitrary: w l)
  case Nil
  show ?case
    using batch_log_stop [of p c "[]"]
    by (intro exI [of _ "[]"] exI [of _ "[]"]) (simp add: release_events_def)
next
  case (Cons x xs)
  obtain b w1 where ex: "expired p c start w = (b, w1)" by force
  obtain e w2 where h: "handleOne p c x w1 = (e, w2)" by force
  consider "b" | "\<not> b" "stops p e" | "\<not> b" "\<not> stops p e" by blast
  then show ?case
  proof cases
    case 1
    then show ?thesis using ex batch_log_stop [of p c "x # xs"]
      by (intro exI [of _ "[]"] exI [of _ "release_events p c (x # xs)"])
         (simp add: logged_expired logged_release)
  next
    case 2
    then show ?thesis using ex h batch_log_halt [of p e c x xs]
      by (intro exI [of _ "[e]"] exI [of _ "item_events p c x e @ release_events p c xs"])
         (simp add: logged_expired logged_release logged_handleOne)
  next
    case 3
    from Cons.IH [of w2 "l @ item_events p c x e"] obtain outs l' where
      "drain_loop (logged p) c start xs (w2, l @ item_events p c x e) =
         (case drain_loop p c start xs w2 of (h, w) \<Rightarrow> (h, w, (l @ item_events p c x e) @ l'))"
      "batch_log p c xs outs (fst (drain_loop p c start xs w2)) l'" by blast
    with 3 show ?thesis using ex h batch_log_step [of p e c xs outs _ l' x]
      by (intro exI [of _ "e # outs"] exI [of _ "item_events p c x e @ l'"])
         (simp add: logged_expired logged_handleOne split: prod.splits)
  qed
qed

section \<open>Properties\<close>

text \<open>
  C2: a drain accounts for every item it claims. Exactly a prefix of the batch is handled,
  each item of it once and in order, and each is then marked at once: done when its outcome
  is nil, failed with the sanitised message and the verdict of \<open>IsTerminal\<close> otherwise. The
  rest, if there is one, goes back in one release. Only the last outcome can be a halting
  one; then the tick is idle, and otherwise it is busy exactly if the batch was full. Marks
  and releases run on a context that does not follow the cancellation of the tick.
\<close>
theorem drain_accounts_for_batch:
  assumes "now p w = (start, w1)" and "claim p c start (batchSize p) w1 = ((items, None), w2)"
  shows "\<exists>outs halted l w3.
     drain (logged p) c (w, []) =
       ((if \<not> halted \<and> int (length items) \<ge> batchSize p then Busy else Idle, None), w3, l) \<and>
     snd (drain p c w) = w3 \<and>
     batch_log p c items outs halted l \<and>
     \<not> follows_caller (settled c)"
proof -
  from drain_loop_log [of p c start items w2 "[]"] obtain outs l where
    dl: "drain_loop (logged p) c start items (w2, []) =
        (case drain_loop p c start items w2 of (h, w) \<Rightarrow> (h, w, l))"
    and bl: "batch_log p c items outs (fst (drain_loop p c start items w2)) l" by auto
  obtain h w3 where loop: "drain_loop p c start items w2 = (h, w3)" by force
  have "drain (logged p) c (w, []) =
      ((if \<not> h \<and> int (length items) \<ge> batchSize p then Busy else Idle, None), w3, l)"
    using dl loop assms by (simp add: drain_def)
  moreover have "snd (drain p c w) = w3" using assms loop by (simp add: drain_def)
  ultimately show ?thesis using bl loop
    by (intro exI [of _ outs] exI [of _ h] exI [of _ l] exI [of _ w3]) (simp add: settled_def)
qed

text \<open>A source of two items that a witness drains: the second one panics.\<close>

definition two_items :: "(nat, nat) processor" where
  "two_items = \<lparr>claim = (\<lambda>c t n w. (([1, 2], None), w)),
     handler = (\<lambda>c x w. (if x = 2 then Panics ''boom'' else Ret None, w + 1)),
     markDone = (\<lambda>c x t w. (None, w)), markFailed = (\<lambda>c x m b t w. (None, w)), releaser = None,
     batchSize = 2, handleTimeout = 0, batchTimeout = 0, isTerminal = (\<lambda>_. False),
     isHalt = (\<lambda>_. False), onPanic = retryPanic, now = (\<lambda>w. (0, w)), ctxErr = (\<lambda>c w. None)\<rparr>"

theorem drain_accounts_for_batch_witness:
  "\<exists>outs halted l w3.
     drain (logged two_items) Caller (0, []) =
       ((if \<not> halted \<and> int (length [1 :: nat, 2]) \<ge> batchSize two_items then Busy else Idle, None), w3, l) \<and>
     snd (drain two_items Caller 0) = w3 \<and>
     batch_log two_items Caller [1, 2] outs halted l \<and> \<not> follows_caller (settled Caller)"
  by (rule drain_accounts_for_batch [of _ _ 0 0]) (simp_all add: two_items_def)

text \<open>
  C19: a panic in \<open>Handle\<close> ends neither the drain nor the process. With the default \<open>OnPanic\<close>, an item
  of the batch whose handler panics is marked failed, once, with the sanitised text of the panic, at
  the time its handling began, and on a context that does not follow the cancellation of the tick;
  the verdict on whether it may be retried is that of \<open>IsTerminal\<close> on the panic, which by default says
  that it may. Whatever the mark returns, the drain then goes on with the rest of the batch, unless
  \<open>IsHalt\<close> says of the panic that the batch must stop, in which case the rest is released; by default
  it never does.
\<close>
theorem handle_recovers_panic:
  assumes "NewProcessor clock ctxe s cfg = Ret p" and "OnPanic cfg = None"
    and "expired p c start w = (False, w1)" and "now p w1 = (t, w2)"
    and "handler p (if handleTimeout p \<le> 0 then Unsuppress c else With_timeout (Unsuppress c) (handleTimeout p)) item w2 =
      (Panics v, w3)"
    and "markFailed p (With_timeout (Without_cancel c) markTimeout) item (Sanitize (''panic: '' @ v))
      (isTerminal p (Panic_Error v)) t w3 = (markErr, w4)"
  shows "handleOne p c item w1 = (Some (Panic_Error v), w4) \<and>
    drain_loop p c start (item # rest) w =
      (if isHalt p (Panic_Error v) then (True, release p c rest w4) else drain_loop p c start rest w4) \<and>
    (pc_IsTerminal cfg = None \<longrightarrow> \<not> isTerminal p (Panic_Error v)) \<and>
    (IsHalt cfg = None \<longrightarrow> \<not> isHalt p (Panic_Error v))"
proof -
  have p: "onPanic p = retryPanic" "pc_IsTerminal cfg = None \<longrightarrow> isTerminal p = (\<lambda>_. False)"
      "IsHalt cfg = None \<longrightarrow> isHalt p = (\<lambda>_. False)"
    using assms(1,2) by (auto simp: NewProcessor_def withDefaults_def default_to_def Let_def split: if_splits)
  have "handle p c item w2 = (Some (Panic_Error v), w3)"
    using assms(5) p(1) by (auto simp: handle_def bounded_def Call_def retryPanic_def split: if_splits)
  then have one: "handleOne p c item w1 = (Some (Panic_Error v), w4)"
    using assms(4,6) by (simp add: handleOne_def settle_def)
  then show ?thesis using assms(3) p(2,3) by (simp add: stops_def)
qed

text \<open>The configuration of a witness, and the processor built from it.\<close>

definition panicking_steps :: "(string list, nat) steps" where
  "panicking_steps = \<lparr>Claim = Some (\<lambda>c t n w. (([1, 2], None), w)),
     Handle = Some (\<lambda>c x w. (if x = 1 then Panics ''boom'' else Ret None, w)),
     MarkDone = Some (\<lambda>c x t w. (None, w @ [''done''])),
     MarkFailed = Some (\<lambda>c x m b t w. (None, w @ [m])), Release = None\<rparr>"

definition plain_config :: "(string list, nat) processorConfig" where
  "plain_config = \<lparr>pc_Name = [], BatchSize = 0, HandleTimeout = 0, BatchTimeout = 0, pc_IsTerminal = None,
     IsHalt = None, OnPanic = None, Now = None\<rparr>"

definition panicking :: "(string list, nat) processor" where
  "panicking = \<lparr>claim = (\<lambda>c t n w. (([1, 2], None), w)),
     handler = (\<lambda>c x w. (if x = 1 then Panics ''boom'' else Ret None, w)),
     markDone = (\<lambda>c x t w. (None, w @ [''done''])), markFailed = (\<lambda>c x m b t w. (None, w @ [m])), releaser = None,
     batchSize = 100, handleTimeout = 0, batchTimeout = 0, isTerminal = (\<lambda>_. False), isHalt = (\<lambda>_. False),
     onPanic = retryPanic, now = (\<lambda>w. (0, w)), ctxErr = (\<lambda>c w. None)\<rparr>"

theorem handle_recovers_panic_witness:
  "handleOne panicking Caller 1 [] = (Some (Panic_Error ''boom''), [Sanitize ''panic: boom'']) \<and>
   drain_loop panicking Caller 0 [1, 2] [] = (False, [Sanitize ''panic: boom'', ''done''])"
proof -
  have built: "NewProcessor (\<lambda>w. (0, w)) (\<lambda>c w. None) panicking_steps plain_config = Ret panicking"
    by (simp add: NewProcessor_def panicking_steps_def plain_config_def missing_def withDefaults_def default_to_def
        Let_def panicking_def)
  show ?thesis
    using handle_recovers_panic [OF built, of Caller 0 "[]" "[]" 0 "[]" 1 "''boom''" "[]" None "[Sanitize ''panic: boom'']" "[2]"]
    by (simp add: plain_config_def) (simp add: panicking_def expired_def handleOne_def handle_def bounded_def Call_def settle_def stops_def)
qed

end
