(* ===== verification/Worker_Loop.thy ===== *)
theory Worker_Loop
  imports Worker_Processor
begin

text \<open>
  The interval loop of \<open>worker/loop.go\<close> and the poller of \<open>poller/poller.go\<close>. A tick may
  panic; the tick metrics are one function of the state. The select of a running loop is
  driven by a list of wake-ups, the choices of the scheduler: the context is done, or the
  timer fired. A loop that still runs when the list ends has no result.
\<close>

section \<open>Loop\<close>

record loopConfig =
  lc_Name :: string
  Interval :: duration
  ImmediateFirstTick :: bool
  TickTimeout :: duration
  Trace :: bool
  BusyInterval :: duration
  MaxIdleInterval :: duration

type_synonym 'w tick = "ctx \<Rightarrow> 'w \<Rightarrow> err outcome \<times> 'w"
type_synonym 'w paced_tick = "ctx \<Rightarrow> 'w \<Rightarrow> (pace \<times> err) outcome \<times> 'w"

text \<open>
  A loop: its configuration, one of the two ticks, the panic handler, what the metrics
  record of a tick (finished or not, its error), and \<open>ctx.Err()\<close> of the loop's context.
\<close>

record 'w loop =
  lp_cfg :: loopConfig
  lp_tick :: "'w tick"
  lp_paced :: "'w paced_tick option"
  lp_onPanic :: "(string \<Rightarrow> string \<Rightarrow> 'w \<Rightarrow> 'w) option"
  lp_record :: "bool \<Rightarrow> err \<Rightarrow> 'w \<Rightarrow> 'w"
  lp_ctxErr :: "'w \<Rightarrow> err"

definition loop_defaults :: "loopConfig \<Rightarrow> loopConfig" where
  "loop_defaults cfg =
     cfg\<lparr>lc_Name := if lc_Name cfg = [] then ''worker'' else lc_Name cfg,
         Interval := if Interval cfg \<le> 0 then second else Interval cfg\<rparr>"

definition startTick :: "loopConfig \<Rightarrow> ctx \<Rightarrow> ctx" where
  "startTick cfg c = (if \<not> Trace cfg then Suppress c else Unsuppress c)"

definition tickContext :: "loopConfig \<Rightarrow> ctx \<Rightarrow> ctx" where
  "tickContext cfg c = (if TickTimeout cfg > 0 then With_timeout c (TickTimeout cfg) else c)"

definition recoverTick :: "(string \<Rightarrow> string \<Rightarrow> 'w \<Rightarrow> 'w) option \<Rightarrow> string \<Rightarrow> 'w \<Rightarrow> 'w" where
  "recoverTick hook worker w = (case hook of None \<Rightarrow> w | Some h \<Rightarrow> h worker ''tick'' w)"

text \<open>\<open>run\<close>: the tick under recovery, then its record; the value a finished tick leaves.\<close>

definition run :: "'w loop \<Rightarrow> ctx \<Rightarrow> (ctx \<Rightarrow> 'w \<Rightarrow> ('a \<times> err) outcome \<times> 'w) \<Rightarrow> 'w \<Rightarrow> 'a option \<times> 'w" where
  "run l c tick w =
     (case tick (tickContext (lp_cfg l) (startTick (lp_cfg l) c)) w of
        (Ret (x, e), w) \<Rightarrow> (Some x, lp_record l True e w)
      | (Panics v, w) \<Rightarrow>
          (None, lp_record l False None (recoverTick (lp_onPanic l) (lc_Name (lp_cfg l)) w)))"

definition unit_tick :: "'w tick \<Rightarrow> ctx \<Rightarrow> 'w \<Rightarrow> (unit \<times> err) outcome \<times> 'w" where
  "unit_tick t c w = (case t c w of (Ret e, w) \<Rightarrow> (Ret ((), e), w) | (Panics v, w) \<Rightarrow> (Panics v, w))"

definition runTick :: "'w loop \<Rightarrow> ctx \<Rightarrow> 'w \<Rightarrow> 'w" where
  "runTick l c w = snd (run l c (unit_tick (lp_tick l)) w)"

definition runPacedTick :: "'w loop \<Rightarrow> ctx \<Rightarrow> 'w \<Rightarrow> pace \<times> 'w" where
  "runPacedTick l c w =
     (case run l c (case lp_paced l of Some t \<Rightarrow> t | None \<Rightarrow> (\<lambda>c w. (Panics ''nil'', w))) w of
        (p, w) \<Rightarrow> (case p of Some p \<Rightarrow> p | None \<Rightarrow> Idle, w))"

definition growIdle :: "loopConfig \<Rightarrow> duration \<Rightarrow> duration" where
  "growIdle cfg cur =
     (if MaxIdleInterval cfg \<le> Interval cfg then Interval cfg
      else min (wrap64 (cur * 2)) (MaxIdleInterval cfg))"

definition nextDelay :: "loopConfig \<Rightarrow> pace \<Rightarrow> duration \<Rightarrow> duration \<times> duration" where
  "nextDelay cfg pace idle =
     (if pace = Busy then (BusyInterval cfg, Interval cfg) else (idle, growIdle cfg idle))"

datatype wake = Ctx_done | Timer_fired

text \<open>The result (\<open>ctx.Err()\<close>), the delays the timer was reset to, and the state.\<close>

fun adaptive_loop :: "'w loop \<Rightarrow> ctx \<Rightarrow> duration \<Rightarrow> wake list \<Rightarrow> 'w \<Rightarrow> err option \<times> duration list \<times> 'w" where
  "adaptive_loop l c idle [] w = (None, [], w)"
| "adaptive_loop l c idle (Ctx_done # evs) w = (Some (lp_ctxErr l w), [], w)"
| "adaptive_loop l c idle (Timer_fired # evs) w =
     (case runPacedTick l c w of (pace, w) \<Rightarrow>
        (case nextDelay (lp_cfg l) pace idle of (next, carry) \<Rightarrow>
           (case adaptive_loop l c carry evs w of (r, ds, w) \<Rightarrow> (r, next # ds, w))))"

definition startAdaptive :: "'w loop \<Rightarrow> ctx \<Rightarrow> wake list \<Rightarrow> 'w \<Rightarrow> err option \<times> duration list \<times> 'w" where
  "startAdaptive l c evs w =
     (let cfg = lp_cfg l;
          first = (if ImmediateFirstTick cfg then 0 else Interval cfg)
      in case adaptive_loop l c (Interval cfg) evs w of (r, ds, w) \<Rightarrow> (r, first # ds, w))"

fun fixed_loop :: "'w loop \<Rightarrow> ctx \<Rightarrow> wake list \<Rightarrow> 'w \<Rightarrow> err option \<times> 'w" where
  "fixed_loop l c [] w = (None, w)"
| "fixed_loop l c (Ctx_done # evs) w = (Some (lp_ctxErr l w), w)"
| "fixed_loop l c (Timer_fired # evs) w = fixed_loop l c evs (runTick l c w)"

definition startFixed :: "'w loop \<Rightarrow> ctx \<Rightarrow> wake list \<Rightarrow> 'w \<Rightarrow> err option \<times> 'w" where
  "startFixed l c evs w =
     fixed_loop l c evs (if ImmediateFirstTick (lp_cfg l) then runTick l c w else w)"

definition loop_Start :: "'w loop \<Rightarrow> ctx \<Rightarrow> wake list \<Rightarrow> 'w \<Rightarrow> err option \<times> 'w" where
  "loop_Start l c evs w =
     (if lp_paced l \<noteq> None then (case startAdaptive l c evs w of (r, ds, w) \<Rightarrow> (r, w))
      else startFixed l c evs w)"

section \<open>The delays of an adaptive loop\<close>

text \<open>The paces that the ticks of a run return, in order; a panicking tick counts as idle.\<close>

fun paces :: "'w loop \<Rightarrow> ctx \<Rightarrow> wake list \<Rightarrow> 'w \<Rightarrow> pace list" where
  "paces l c (Timer_fired # evs) w =
     (case runPacedTick l c w of (p, w) \<Rightarrow> p # paces l c evs w)"
| "paces l c _ w = []"

text \<open>How many of the last paces of a list are idle.\<close>

definition idle_streak :: "pace list \<Rightarrow> nat" where
  "idle_streak ps = length (takeWhile (\<lambda>p. p = Idle) (rev ps))"

lemma idle_streak_simps [simp]:
  "idle_streak [] = 0" "idle_streak (ps @ [Busy]) = 0" "idle_streak (ps @ [Idle]) = Suc (idle_streak ps)"
  by (simp_all add: idle_streak_def)

text \<open>The wait after a number of idle ticks in a row.\<close>

definition idle_wait :: "loopConfig \<Rightarrow> nat \<Rightarrow> duration" where
  "idle_wait cfg k = min (Interval cfg * 2 ^ k) (max (Interval cfg) (MaxIdleInterval cfg))"

lemma growIdle_wait:
  assumes "0 < Interval cfg" and "MaxIdleInterval cfg < 2 ^ 62"
  shows "growIdle cfg (idle_wait cfg k) = idle_wait cfg (Suc k)"
proof (cases "MaxIdleInterval cfg \<le> Interval cfg")
  case True
  then have "Interval cfg \<le> Interval cfg * 2 ^ n" for n using assms(1) by simp
  from this [of "Suc k"] True show ?thesis by (simp add: growIdle_def idle_wait_def)
next
  case False
  let ?x = "idle_wait cfg k"
  have pos: "0 < Interval cfg * 2 ^ k" using assms(1) by simp
  have "0 < ?x" and "?x < 2 ^ 62" using assms pos False by (auto simp: idle_wait_def min_def)
  then have "wrap64 (?x * 2) = ?x * 2" by (intro wrap64_id) (simp add: in_int64_def)
  then show ?thesis using assms pos False by (auto simp: growIdle_def idle_wait_def min_def)
qed

lemma adaptive_loop_waits:
  assumes "0 < Interval (lp_cfg l)" and "MaxIdleInterval (lp_cfg l) < 2 ^ 62"
    and "adaptive_loop l c (idle_wait (lp_cfg l) (idle_streak before)) evs w = (r, ds, w')"
  shows "length ds = length (paces l c evs w) \<and>
    (\<forall>i < length ds. ds ! i =
       (case paces l c evs w ! i of
          Busy \<Rightarrow> BusyInterval (lp_cfg l)
        | Idle \<Rightarrow> idle_wait (lp_cfg l) (idle_streak (before @ take i (paces l c evs w)))))"
  using assms(3)
proof (induction evs arbitrary: before w r ds w')
  case (Cons ev evs)
  show ?case
  proof (cases ev)
    case Timer_fired
    obtain p w1 where p: "runPacedTick l c w = (p, w1)" by force
    define d where "d = (case p of Busy \<Rightarrow> BusyInterval (lp_cfg l) | Idle \<Rightarrow> idle_wait (lp_cfg l) (idle_streak before))"
    have next_: "nextDelay (lp_cfg l) p (idle_wait (lp_cfg l) (idle_streak before)) =
        (d, idle_wait (lp_cfg l) (idle_streak (before @ [p])))"
      using growIdle_wait [OF assms(1,2)] assms(1) by (cases p) (simp_all add: nextDelay_def d_def idle_wait_def)
    then obtain ds1 where ds1: "adaptive_loop l c (idle_wait (lp_cfg l) (idle_streak (before @ [p]))) evs w1 = (r, ds1, w')"
        "ds = d # ds1"
      using Cons.prems Timer_fired p by (auto split: prod.splits)
    show ?thesis
      using Cons.IH [OF ds1(1)] Timer_fired p ds1(2) by (auto simp: nth_Cons d_def split: nat.splits pace.splits)
  qed (use Cons.prems in simp)
qed simp

section \<open>Poller\<close>

text \<open>
  A poller by its functions and settings; its state is its current value and the state its
  functions share.
\<close>

record ('w, 'a) poller =
  fetch :: "ctx \<Rightarrow> 'w \<Rightarrow> ('a \<times> err) outcome \<times> 'w"
  po_timeout :: duration
  po_interval :: duration
  po_name :: string
  po_onError :: "(go_error \<Rightarrow> 'w \<Rightarrow> 'w) option"
  po_onPanic :: "(string \<Rightarrow> string \<Rightarrow> 'w \<Rightarrow> 'w) option"

definition poller_New :: "('w, 'a) poller \<Rightarrow> ('w, 'a) poller" where
  "poller_New p =
     p\<lparr>po_name := if po_name p = [] then ''poller'' else po_name p,
       po_interval := if po_interval p \<le> 0 then second else po_interval p\<rparr>"

definition Poll :: "('w, 'a) poller \<Rightarrow> ctx \<Rightarrow> 'a \<times> 'w \<Rightarrow> 'a \<times> 'w" where
  "Poll p c = (\<lambda>(current, w).
     case fetch p (if po_timeout p > 0 then With_timeout c (po_timeout p) else c) w of
       (Ret (next, Some e), w) \<Rightarrow> (current, case po_onError p of None \<Rightarrow> w | Some f \<Rightarrow> f e w)
     | (Ret (next, None), w) \<Rightarrow> (next, w)
     | (Panics v, w) \<Rightarrow> (current, recoverTick (po_onPanic p) (po_name p) w))"

definition Current :: "'a \<times> 'w \<Rightarrow> 'a" where
  "Current s = fst s"

fun poll_loop :: "('w, 'a) poller \<Rightarrow> ctx \<Rightarrow> wake list \<Rightarrow> 'a \<times> 'w \<Rightarrow> bool \<times> 'a \<times> 'w" where
  "poll_loop p c [] s = (False, s)"
| "poll_loop p c (Ctx_done # evs) s = (True, s)"
| "poll_loop p c (Timer_fired # evs) s = poll_loop p c evs (Poll p c s)"

definition poller_Start :: "('w, 'a) poller \<Rightarrow> ctx \<Rightarrow> wake list \<Rightarrow> 'a \<times> 'w \<Rightarrow> bool \<times> 'a \<times> 'w" where
  "poller_Start p c evs s = poll_loop p (Suppress c) evs (Poll p (Suppress c) s)"

text \<open>The values the successful fetches returned, in order.\<close>

fun fetched :: "('w, 'a) poller \<Rightarrow> ctx \<Rightarrow> wake list \<Rightarrow> 'a \<times> 'w \<Rightarrow> 'a list" where
  "fetched p c (Timer_fired # evs) s =
     (case fst (fetch p (if po_timeout p > 0 then With_timeout c (po_timeout p) else c) (snd s)) of
        Ret (v, None) \<Rightarrow> [v] | _ \<Rightarrow> []) @ fetched p c evs (Poll p c s)"
| "fetched p c _ s = []"

lemma poll_loop_current:
  "Current (snd (poll_loop p c evs s)) = last (Current s # fetched p c evs s)"
proof (induction p c evs s rule: poll_loop.induct)
  case (3 p c evs s)
  let ?c = "if po_timeout p > 0 then With_timeout c (po_timeout p) else c"
  obtain cur w where s: "s = (cur, w)" by force
  obtain r w1 where f: "fetch p ?c w = (r, w1)" by force
  have "Current (Poll p c s) =
      (case r of Ret (v, None) \<Rightarrow> v | _ \<Rightarrow> cur)"
    using f s by (auto simp: Poll_def Current_def split: outcome.splits prod.splits option.splits)
  with 3 f s show ?case
    by (auto simp: Current_def split: outcome.splits prod.splits option.splits)
qed simp_all

section \<open>Properties\<close>


text \<open>A loop whose ticks count down: idle when the count is even, busy when it is odd, and a panic at 5.\<close>

definition counting_loop :: "int loop" where
  "counting_loop = \<lparr>lp_cfg = loop_defaults \<lparr>lc_Name = [], Interval = 0, ImmediateFirstTick = True, TickTimeout = 0,
       Trace = False, BusyInterval = 7, MaxIdleInterval = 3 * second\<rparr>,
     lp_tick = \<lambda>c w. (Ret None, w),
     lp_paced = Some (\<lambda>c w. (if w = 5 then Panics ''boom'' else Ret (if even w then Idle else Busy, None), w - 1)),
     lp_onPanic = None, lp_record = \<lambda>b e w. w, lp_ctxErr = \<lambda>w. None\<rparr>"


text \<open>
  C23: the current value of a running poller is the one its latest successful fetch returned,
  and the initial value before the first; a failed or panicking fetch never changes it, and
  the poller goes on.
\<close>
theorem poller_current:
  "Current (snd (poller_Start p c evs (initial, w))) =
     last (initial # fetched p (Suppress c) (Timer_fired # evs) (initial, w))"
  using poll_loop_current [of p "Suppress c" "Timer_fired # evs" "(initial, w)"]
  by (simp add: poller_Start_def Current_def)

end
