(* ===== verification/Worker_Pool.thy ===== *)
theory Worker_Pool
  imports Go_Prelude
begin

text \<open>
  The bounded pool of \<open>worker/pool.go\<close> as a transition system: the threads are the calls of
  \<open>Submit\<close> and the goroutines they start, and a step is what one of them does between two
  points where another may run. What the code does under \<open>p.mu\<close> is one step.
\<close>

section \<open>State\<close>

text \<open>
  Where a call of \<open>Submit\<close> or its job stands: waiting for a slot; holding one before
  registration; backing out; running the job under its key; after \<open>untrack\<close>; after
  \<open>wg.Done\<close>; and the two ends.
\<close>

datatype phase =
    Waiting
  | Acquired
  | Backing_out
  | Job_running string
  | Job_untracked
  | Job_counted
  | Job_over
  | Rejected

text \<open>
  \<open>running\<close> maps a key to whether its context has been cancelled; \<open>sem\<close> is the number of
  slots taken of the channel, \<open>cap\<close> its capacity.
\<close>

record pool =
  cap :: nat
  sem :: nat
  wg :: nat
  running :: "string \<rightharpoonup> bool"
  isShutdown :: bool
  threads :: "phase list"

definition NewPool :: "int \<Rightarrow> pool" where
  "NewPool maxConcurrent = \<lparr>cap = nat (max maxConcurrent 1), sem = 0, wg = 0, running = Map.empty,
     isShutdown = False, threads = []\<rparr>"

definition Running :: "pool \<Rightarrow> nat" where
  "Running p = card (dom (running p))"

definition at :: "pool \<Rightarrow> nat \<Rightarrow> phase \<Rightarrow> bool" where
  "at p i ph = (i < length (threads p) \<and> threads p ! i = ph)"

definition goto :: "nat \<Rightarrow> phase \<Rightarrow> pool \<Rightarrow> pool" where
  "goto i ph p = p\<lparr>threads := (threads p)[i := ph]\<rparr>"

section \<open>Operations\<close>

text \<open>The first select of \<open>Submit\<close>: a pool that is shut down rejects at once.\<close>

definition Submit_enter :: "pool \<Rightarrow> pool" where
  "Submit_enter p = p\<lparr>threads := threads p @ [if isShutdown p then Rejected else Waiting]\<rparr>"

text \<open>The second select: a slot, the shutdown, or the caller's context.\<close>

definition Submit_acquire :: "nat \<Rightarrow> pool \<Rightarrow> pool" where
  "Submit_acquire i p = goto i Acquired (p\<lparr>sem := sem p + 1\<rparr>)"

text \<open>The registration under the lock, and the way back.\<close>

definition Submit_register :: "nat \<Rightarrow> string \<Rightarrow> pool \<Rightarrow> pool" where
  "Submit_register i key p =
     (if isShutdown p then goto i Backing_out p
      else goto i (Job_running key) (p\<lparr>running := (running p)(key \<mapsto> False), wg := wg p + 1\<rparr>))"

definition release_slot :: "nat \<Rightarrow> phase \<Rightarrow> pool \<Rightarrow> pool" where
  "release_slot i ph p = goto i ph (p\<lparr>sem := sem p - 1\<rparr>)"

definition untrack :: "nat \<Rightarrow> string \<Rightarrow> pool \<Rightarrow> pool" where
  "untrack i key p = goto i Job_untracked (p\<lparr>running := (running p)(key := None)\<rparr>)"

definition wg_Done :: "nat \<Rightarrow> pool \<Rightarrow> pool" where
  "wg_Done i p = goto i Job_counted (p\<lparr>wg := wg p - 1\<rparr>)"

definition Cancel :: "string \<Rightarrow> pool \<Rightarrow> pool" where
  "Cancel key p =
     (if running p key \<noteq> None then p\<lparr>running := (running p)(key \<mapsto> True)\<rparr> else p)"

text \<open>\<open>Shutdown\<close> up to its wait; it returns nil once \<open>wg\<close> is zero.\<close>

definition Shutdown :: "pool \<Rightarrow> pool" where
  "Shutdown p = p\<lparr>isShutdown := True, running := (\<lambda>k. map_option (\<lambda>_. True) (running p k))\<rparr>"

definition Shutdown_returns :: "pool \<Rightarrow> bool" where
  "Shutdown_returns p = (isShutdown p \<and> wg p = 0)"

text \<open>The steps. A fresh key is one no job has: \<open>uuid.New\<close> does not repeat.\<close>

inductive pool_step :: "pool \<Rightarrow> pool \<Rightarrow> bool" where
  enter: "pool_step p (Submit_enter p)"
| shut: "at p i Waiting \<Longrightarrow> isShutdown p \<Longrightarrow> pool_step p (goto i Rejected p)"
| ctx_done: "at p i Waiting \<Longrightarrow> pool_step p (goto i Rejected p)"
| acquire: "at p i Waiting \<Longrightarrow> sem p < cap p \<Longrightarrow> pool_step p (Submit_acquire i p)"
| register: "at p i Acquired \<Longrightarrow> running p key = None \<Longrightarrow> pool_step p (Submit_register i key p)"
| back_out: "at p i Backing_out \<Longrightarrow> pool_step p (release_slot i Rejected p)"
| job_ends: "at p i (Job_running key) \<Longrightarrow> pool_step p (untrack i key p)"
| counted: "at p i Job_untracked \<Longrightarrow> pool_step p (wg_Done i p)"
| free: "at p i Job_counted \<Longrightarrow> pool_step p (release_slot i Job_over p)"
| cancel: "pool_step p (Cancel key p)"
| shutdown: "pool_step p (Shutdown p)"

abbreviation pool_steps :: "pool \<Rightarrow> pool \<Rightarrow> bool" where
  "pool_steps \<equiv> rtranclp pool_step"

section \<open>Invariant\<close>

fun holds_slot :: "phase \<Rightarrow> bool" where
  "holds_slot Acquired = True"
| "holds_slot Backing_out = True"
| "holds_slot (Job_running k) = True"
| "holds_slot Job_untracked = True"
| "holds_slot Job_counted = True"
| "holds_slot _ = False"

fun in_group :: "phase \<Rightarrow> bool" where
  "in_group (Job_running k) = True"
| "in_group Job_untracked = True"
| "in_group _ = False"

fun runs_key :: "string \<Rightarrow> phase \<Rightarrow> bool" where
  "runs_key k (Job_running k') = (k = k')"
| "runs_key k _ = False"

text \<open>Slots, the wait group and the map of running jobs agree with where the threads are.\<close>

definition pool_inv :: "pool \<Rightarrow> bool" where
  "pool_inv p =
     (sem p = count_where holds_slot (threads p) \<and> sem p \<le> cap p \<and>
      wg p = count_where in_group (threads p) \<and>
      (\<forall>k. count_where (runs_key k) (threads p) = (if running p k = None then 0 else 1)) \<and>
      (isShutdown p \<longrightarrow> (\<forall>k. running p k \<noteq> Some False)))"

lemma pool_inv_NewPool: "pool_inv (NewPool n)"
  by (simp add: pool_inv_def NewPool_def)

lemma goto_simps [simp]:
  "sem (goto i ph p) = sem p" "cap (goto i ph p) = cap p" "wg (goto i ph p) = wg p"
  "running (goto i ph p) = running p" "isShutdown (goto i ph p) = isShutdown p"
  "threads (goto i ph p) = (threads p)[i := ph]"
  by (simp_all add: goto_def)

text \<open>A thread that moves from one phase to another changes each count by one at most.\<close>

lemma count_goto:
  assumes "at p i ph"
  shows "count_where P ((threads p)[i := ph']) + (if P ph then 1 else 0) =
         count_where P (threads p) + (if P ph' then 1 else 0)"
  using assms count_where_update [of i "threads p" P ph'] by (simp add: at_def)

text \<open>The three counts the invariant is about, when a thread moves.\<close>

lemma counts_goto:
  assumes "at p i ph"
  shows "count_where holds_slot ((threads p)[i := ph']) + of_bool (holds_slot ph) =
           count_where holds_slot (threads p) + of_bool (holds_slot ph')"
    and "count_where in_group ((threads p)[i := ph']) + of_bool (in_group ph) =
           count_where in_group (threads p) + of_bool (in_group ph')"
    and "count_where (runs_key k) ((threads p)[i := ph']) + of_bool (runs_key k ph) =
           count_where (runs_key k) (threads p) + of_bool (runs_key k ph')"
  using count_goto [OF assms, of holds_slot ph'] count_goto [OF assms, of in_group ph']
    count_goto [OF assms, of "runs_key k" ph'] by (simp_all only: of_bool_def)

lemma counts_same:
  assumes "at p i ph" and "holds_slot ph' = holds_slot ph" and "in_group ph' = in_group ph"
    and "\<And>k. runs_key k ph' = runs_key k ph"
  shows "count_where holds_slot ((threads p)[i := ph']) = count_where holds_slot (threads p)"
    and "count_where in_group ((threads p)[i := ph']) = count_where in_group (threads p)"
    and "count_where (runs_key k) ((threads p)[i := ph']) = count_where (runs_key k) (threads p)"
  using counts_goto(1,2) [OF assms(1), of ph'] counts_goto(3) [OF assms(1), of k ph'] assms(2-4)
  by simp_all

lemma pool_step_inv:
  assumes "pool_step p q" and "pool_inv p"
  shows "pool_inv q"
  using assms
proof (induction rule: pool_step.induct)
  case (enter p)
  then show ?case by (simp add: pool_inv_def Submit_enter_def)
next
  case (shut p i)
  then show ?case by (simp add: pool_inv_def counts_same [OF shut(1)])
next
  case (ctx_done p i)
  then show ?case by (simp add: pool_inv_def counts_same [OF ctx_done(1)])
next
  case (acquire p i)
  have "count_where (runs_key k) ((threads p)[i := Acquired]) = count_where (runs_key k) (threads p)" for k
    using counts_goto(3) [OF acquire(1), of k Acquired] by simp
  with acquire counts_goto(1,2) [OF acquire(1), of Acquired] show ?case
    by (simp add: pool_inv_def Submit_acquire_def)
next
  case (register p i key)
  show ?case
  proof (cases "isShutdown p")
    case True
    with register show ?thesis
      by (simp add: pool_inv_def Submit_register_def counts_same [OF register(1)])
  next
    case False
    have k: "count_where (runs_key k) ((threads p)[i := Job_running key]) =
        count_where (runs_key k) (threads p) + of_bool (k = key)" for k
      using counts_goto(3) [OF register(1), of k "Job_running key"] by simp
    from False register(2,3) counts_goto(1,2) [OF register(1), of "Job_running key"]
    show ?thesis by (simp add: pool_inv_def Submit_register_def k)
  qed
next
  case (back_out p i)
  have "count_where (runs_key k) ((threads p)[i := Rejected]) = count_where (runs_key k) (threads p)" for k
    using counts_goto(3) [OF back_out(1), of k Rejected] by simp
  with back_out(2) counts_goto(1,2) [OF back_out(1), of Rejected] show ?case
    by (auto simp: pool_inv_def release_slot_def)
next
  case (job_ends p i key)
  have k: "count_where (runs_key k) ((threads p)[i := Job_untracked]) =
      count_where (runs_key k) (threads p) - of_bool (k = key)" for k
    using counts_goto(3) [OF job_ends(1), of k Job_untracked] by simp
  from job_ends(2) counts_goto(1,2) [OF job_ends(1), of Job_untracked] show ?case
    by (auto simp: pool_inv_def untrack_def k)
next
  case (counted p i)
  have "count_where (runs_key k) ((threads p)[i := Job_counted]) = count_where (runs_key k) (threads p)" for k
    using counts_goto(3) [OF counted(1), of k Job_counted] by simp
  with counted(2) counts_goto(1,2) [OF counted(1), of Job_counted] show ?case
    by (auto simp: pool_inv_def wg_Done_def)
next
  case (free p i)
  have "count_where (runs_key k) ((threads p)[i := Job_over]) = count_where (runs_key k) (threads p)" for k
    using counts_goto(3) [OF free(1), of k Job_over] by simp
  with free(2) counts_goto(1,2) [OF free(1), of Job_over] show ?case
    by (auto simp: pool_inv_def release_slot_def)
next
  case (cancel p key)
  then show ?case by (auto simp: pool_inv_def Cancel_def)
next
  case (shutdown p)
  then show ?case by (auto simp: pool_inv_def Shutdown_def)
qed

lemma pool_steps_inv: "pool_steps p q \<Longrightarrow> pool_inv p \<Longrightarrow> pool_inv q"
  by (erule run_invariant) (auto intro: pool_step_inv)

lemma pool_step_keeps:
  "pool_step p q \<Longrightarrow> cap q = cap p \<and> (isShutdown p \<longrightarrow> isShutdown q)"
  by (induction rule: pool_step.induct)
     (auto simp: Submit_enter_def Submit_acquire_def Submit_register_def release_slot_def
       untrack_def wg_Done_def Cancel_def Shutdown_def)

lemma pool_steps_keeps:
  "pool_steps p q \<Longrightarrow> cap q = cap p \<and> (isShutdown p \<longrightarrow> isShutdown q)"
  by (erule run_invariant) (auto dest: pool_step_keeps)

text \<open>The running jobs are at most the slots taken.\<close>

lemma keys_le_threads:
  assumes "finite K" and "\<And>k. k \<in> K \<Longrightarrow> 0 < count_where (runs_key k) xs"
  shows "card K \<le> count_where holds_slot xs"
  using assms
proof (induction xs arbitrary: K)
  case Nil
  then have "K = {}" by auto
  then show ?case by simp
next
  case (Cons x xs)
  show ?case
  proof (cases x)
    case (Job_running key)
    have "0 < count_where (runs_key k) xs" if "k \<in> K - {key}" for k
      using Cons.prems(2) [of k] Job_running that by simp
    with Cons.prems(1) have "card (K - {key}) \<le> count_where holds_slot xs"
      by (intro Cons.IH) auto
    moreover have "card K \<le> Suc (card (K - {key}))"
      using Cons.prems(1) by (cases "key \<in> K") (simp_all add: card_Suc_Diff1 le_SucI)
    ultimately show ?thesis using Job_running by simp
  qed (use Cons in \<open>force intro: le_SucI\<close>)+
qed

lemma running_le_sem:
  assumes "pool_inv p"
  shows "Running p \<le> sem p \<and> finite (dom (running p))"
proof -
  have one: "0 < count_where (runs_key k) (threads p)" if "k \<in> dom (running p)" for k
    using that assms by (auto simp: pool_inv_def)
  have "dom (running p) \<subseteq> {k. Job_running k \<in> set (threads p)}"
  proof
    fix k assume "k \<in> dom (running p)"
    from one [OF this] have "\<exists>x \<in> set (threads p). runs_key k x"
      using count_where_zero [of "runs_key k" "threads p"] by auto
    then show "k \<in> {k. Job_running k \<in> set (threads p)}"
      by (auto elim!: runs_key.elims)
  qed
  also have "\<dots> \<subseteq> (\<lambda>x. case x of Job_running k \<Rightarrow> k | _ \<Rightarrow> []) ` set (threads p)" by force
  finally have fin: "finite (dom (running p))" by (rule finite_subset) simp
  from keys_le_threads [OF fin one] assms fin show ?thesis
    by (simp add: Running_def pool_inv_def)
qed

text \<open>After the wait of \<open>Shutdown\<close> is over, the wait group stays empty.\<close>

lemma quiet_step:
  assumes "pool_step p q" and "pool_inv p" and "Shutdown_returns p"
  shows "Shutdown_returns q"
proof -
  have idle: "\<not> at p i ph" if "in_group ph" for i ph
    using assms(2,3) that count_where_pos [of i "threads p" in_group]
    by (auto simp: pool_inv_def Shutdown_returns_def at_def)
  from assms(1,3) show ?thesis
    by (cases rule: pool_step.cases)
       (auto simp: Shutdown_returns_def Submit_enter_def Submit_acquire_def Submit_register_def
         release_slot_def untrack_def wg_Done_def Cancel_def Shutdown_def dest: idle)
qed

lemma quiet_steps:
  assumes "pool_steps p q" and "pool_inv p" and "Shutdown_returns p"
  shows "Shutdown_returns q"
proof -
  have "pool_inv q \<and> Shutdown_returns q"
    by (rule run_invariant [OF assms(1)]) (use assms(2,3) in \<open>auto intro: quiet_step pool_step_inv\<close>)
  then show ?thesis ..
qed

section \<open>Properties\<close>

text \<open>
  C13: in every reachable state of a pool, whatever the interleaving of \<open>Submit\<close>, \<open>Cancel\<close>,
  \<open>Shutdown\<close> and the jobs, at most \<open>max(MaxConcurrent, 1)\<close> jobs run, the slots taken are
  exactly the calls and jobs that hold one, and once the pool is shut down every job that
  still runs has been cancelled.
\<close>
theorem pool_bounded:
  assumes "pool_steps (NewPool n) p"
  shows "Running p \<le> nat (max n 1) \<and>
         sem p = count_where holds_slot (threads p) \<and>
         (isShutdown p \<longrightarrow> (\<forall>k. running p k \<noteq> Some False))"
proof -
  have inv: "pool_inv p" using assms pool_inv_NewPool by (rule pool_steps_inv)
  have "cap p = nat (max n 1)" using pool_steps_keeps [OF assms] by (simp add: NewPool_def)
  with running_le_sem [OF inv] inv show ?thesis by (auto simp: pool_inv_def)
qed

text \<open>A pool of one slot with a job in it, and the same pool shut down.\<close>

definition one_job :: pool where
  "one_job = Submit_register 0 ''k'' (Submit_acquire 0 (Submit_enter (NewPool 0)))"

lemma one_job_reachable: "pool_steps (NewPool 0) (Shutdown one_job)"
proof -
  have "pool_steps (NewPool 0) (Submit_enter (NewPool 0))"
    by (rule run_one, rule enter)
  then have "pool_steps (NewPool 0) (Submit_acquire 0 (Submit_enter (NewPool 0)))"
    by (rule run_step)
       (rule acquire, simp_all add: at_def Submit_enter_def NewPool_def)
  then have "pool_steps (NewPool 0) one_job"
    unfolding one_job_def
    by (rule run_step)
       (rule register, simp_all add: at_def Submit_enter_def Submit_acquire_def NewPool_def)
  then show ?thesis by (rule run_step) (rule shutdown)
qed

theorem pool_bounded_witness: "Running (Shutdown one_job) \<le> 1 \<and> sem (Shutdown one_job) = 1"
  using pool_bounded [OF one_job_reachable]
  by (simp add: one_job_def Shutdown_def Submit_register_def Submit_acquire_def Submit_enter_def
      NewPool_def)

text \<open>
  C5: once \<open>Shutdown\<close> has returned nil, no job of the pool runs, and none ever starts again,
  even if calls of \<open>Submit\<close> were waiting for a slot or held one at that moment.
\<close>
theorem shutdown_is_final:
  assumes "pool_steps (NewPool n) p" and "Shutdown_returns p" and "pool_steps p q"
  shows "Running q = 0 \<and> (\<forall>k. Job_running k \<notin> set (threads q)) \<and> Shutdown_returns q"
proof -
  have inv: "pool_inv p" using assms(1) pool_inv_NewPool by (rule pool_steps_inv)
  have q: "Shutdown_returns q" using assms(3) inv assms(2) by (rule quiet_steps)
  have invq: "pool_inv q" using assms(3) inv by (rule pool_steps_inv)
  then have "count_where in_group (threads q) = 0" using q
    by (simp add: pool_inv_def Shutdown_returns_def)
  then have none: "Job_running k \<notin> set (threads q)" for k by (auto simp: count_where_zero)
  then have "count_where (runs_key k) (threads q) = 0" for k
    by (auto simp: count_where_zero elim: runs_key.elims)
  with invq have "running q = Map.empty" by (auto simp: pool_inv_def split: if_splits)
  with none q show ?thesis by (simp add: Running_def)
qed

theorem shutdown_is_final_witness: "Running (Submit_enter (Shutdown (NewPool 3))) = 0"
proof -
  have "pool_steps (NewPool 3) (Shutdown (NewPool 3))"
    by (rule run_one, rule shutdown)
  moreover have "Shutdown_returns (Shutdown (NewPool 3))"
    by (simp add: Shutdown_returns_def Shutdown_def NewPool_def)
  moreover have "pool_steps (Shutdown (NewPool 3)) (Submit_enter (Shutdown (NewPool 3)))"
    by (rule run_one, rule enter)
  ultimately show ?thesis using shutdown_is_final by blast
qed

end
