(* ===== verification/Worker_Group.thy ===== *)
theory Worker_Group
  imports Go_Prelude
begin

text \<open>
  The supervisor of \<open>worker/group.go\<close> as a transition system: one goroutine per runnable,
  the call of \<open>Run\<close> that supervises them, and the caller's context. Runnables are known by
  their index in registration order.
\<close>

section \<open>Registration\<close>

definition Add :: "'r list \<Rightarrow> 'r option list \<Rightarrow> 'r list" where
  "Add runnables rs = runnables @ List.map_filter id rs"

section \<open>State\<close>

text \<open>
  A goroutine runs \<open>Start\<close>, or sends the error \<open>Start\<close> returned, or cancels the group, or
  is over. \<open>Run\<close> waits in its select, stops the runnables (how many are left), waits for
  the goroutines, or has returned its trigger and whether they all came back.
\<close>

datatype routine = Starting | Sending go_error | Cancelling | Over

datatype supervisor =
    Selecting
  | Stopping err nat
  | Draining err
  | Returned err bool

record group =
  routines :: "routine list"
  errCh :: "go_error list"
  ctxDone :: bool
  runCancelled :: bool
  supervisor_at :: supervisor
  stopped :: "nat list"
  failures :: "go_error list"

abbreviation size_of :: "group \<Rightarrow> nat" where
  "size_of g \<equiv> length (routines g)"

definition canceled :: string where "canceled = ''context canceled''"

text \<open>\<open>Run\<close> up to its select, over \<open>n\<close> runnables.\<close>

definition Run :: "nat \<Rightarrow> group" where
  "Run n = \<lparr>routines = replicate n Starting, errCh = [], ctxDone = False, runCancelled = False,
     supervisor_at = Selecting, stopped = [], failures = []\<rparr>"

section \<open>Steps\<close>

text \<open>\<open>Start\<close> of a runnable returns.\<close>

definition start_returns :: "nat \<Rightarrow> err \<Rightarrow> group \<Rightarrow> group" where
  "start_returns i e g =
     (case e of
        Some x \<Rightarrow>
          if \<not> err_is e canceled
          then g\<lparr>routines := (routines g)[i := Sending x], failures := failures g @ [x]\<rparr>
          else g\<lparr>routines := (routines g)[i := Over]\<rparr>
      | None \<Rightarrow> g\<lparr>routines := (routines g)[i := Over]\<rparr>)"

definition send :: "nat \<Rightarrow> go_error \<Rightarrow> group \<Rightarrow> group" where
  "send i e g = g\<lparr>errCh := errCh g @ [e], routines := (routines g)[i := Cancelling]\<rparr>"

definition cancel_group :: "nat \<Rightarrow> group \<Rightarrow> group" where
  "cancel_group i g = g\<lparr>runCancelled := True, routines := (routines g)[i := Over]\<rparr>"

text \<open>The two branches of the select, both followed by \<open>cancel()\<close>.\<close>

definition triggered :: "err \<Rightarrow> go_error list \<Rightarrow> group \<Rightarrow> group" where
  "triggered t ch g =
     g\<lparr>errCh := ch, runCancelled := True, supervisor_at := Stopping t (size_of g)\<rparr>"

text \<open>One iteration of \<open>stopAll\<close>: the last runnable not yet stopped.\<close>

definition stop_next :: "err \<Rightarrow> nat \<Rightarrow> group \<Rightarrow> group" where
  "stop_next t k g = g\<lparr>stopped := stopped g @ [k], supervisor_at := Stopping t k\<rparr>"

inductive group_step :: "duration \<Rightarrow> group \<Rightarrow> group \<Rightarrow> bool" for shutdownTimeout where
  ctx_done: "group_step shutdownTimeout g (g\<lparr>ctxDone := True, runCancelled := True\<rparr>)"
| returns: "i < size_of g \<Longrightarrow> routines g ! i = Starting \<Longrightarrow>
    group_step shutdownTimeout g (start_returns i e g)"
| sends: "i < size_of g \<Longrightarrow> routines g ! i = Sending e \<Longrightarrow> length (errCh g) < size_of g \<Longrightarrow>
    group_step shutdownTimeout g (send i e g)"
| cancels: "i < size_of g \<Longrightarrow> routines g ! i = Cancelling \<Longrightarrow>
    group_step shutdownTimeout g (cancel_group i g)"
| sees_ctx: "supervisor_at g = Selecting \<Longrightarrow> ctxDone g \<Longrightarrow>
    group_step shutdownTimeout g (triggered None (errCh g) g)"
| sees_error: "supervisor_at g = Selecting \<Longrightarrow> errCh g = e # rest \<Longrightarrow>
    group_step shutdownTimeout g (triggered (Some e) rest g)"
| stops: "supervisor_at g = Stopping t (Suc k) \<Longrightarrow> group_step shutdownTimeout g (stop_next t k g)"
| all_stopped: "supervisor_at g = Stopping t 0 \<Longrightarrow>
    group_step shutdownTimeout g (g\<lparr>supervisor_at := Draining t\<rparr>)"
| drained: "supervisor_at g = Draining t \<Longrightarrow> list_all (\<lambda>r. r = Over) (routines g) \<Longrightarrow>
    group_step shutdownTimeout g (g\<lparr>supervisor_at := Returned t True\<rparr>)"
| timed_out: "supervisor_at g = Draining t \<Longrightarrow> shutdownTimeout > 0 \<Longrightarrow>
    group_step shutdownTimeout g (g\<lparr>supervisor_at := Returned t False\<rparr>)"

abbreviation group_steps :: "duration \<Rightarrow> group \<Rightarrow> group \<Rightarrow> bool" where
  "group_steps shutdownTimeout \<equiv> rtranclp (group_step shutdownTimeout)"

section \<open>Invariant\<close>

fun may_send :: "routine \<Rightarrow> bool" where
  "may_send Starting = True"
| "may_send (Sending e) = True"
| "may_send _ = False"

fun sends_from :: "go_error set \<Rightarrow> routine \<Rightarrow> bool" where
  "sends_from es (Sending e) = (e \<in> es)"
| "sends_from es _ = True"

text \<open>How many runnables are still to be stopped, and the trigger, by where \<open>Run\<close> is.\<close>

fun left :: "nat \<Rightarrow> supervisor \<Rightarrow> nat" where
  "left n Selecting = n"
| "left n (Stopping t k) = k"
| "left n (Draining t) = 0"
| "left n (Returned t b) = 0"

fun trigger_ok :: "group \<Rightarrow> duration \<Rightarrow> supervisor \<Rightarrow> bool" where
  "trigger_ok g d Selecting = True"
| "trigger_ok g d (Stopping t k) = (case t of None \<Rightarrow> ctxDone g | Some e \<Rightarrow> e \<in> set (failures g))"
| "trigger_ok g d (Draining t) = (case t of None \<Rightarrow> ctxDone g | Some e \<Rightarrow> e \<in> set (failures g))"
| "trigger_ok g d (Returned t b) =
     ((case t of None \<Rightarrow> ctxDone g | Some e \<Rightarrow> e \<in> set (failures g)) \<and>
      (if b then list_all (\<lambda>r. r = Over) (routines g) else d > 0))"

definition group_inv :: "duration \<Rightarrow> nat \<Rightarrow> group \<Rightarrow> bool" where
  "group_inv d n g =
     (size_of g = n \<and>
      length (errCh g) + count_where may_send (routines g) \<le> n \<and>
      list_all (\<lambda>e. e \<in> set (failures g)) (errCh g) \<and>
      list_all (sends_from (set (failures g))) (routines g) \<and>
      list_all (\<lambda>e. \<not> err_is (Some e) canceled) (failures g) \<and>
      left n (supervisor_at g) \<le> n \<and>
      stopped g = rev [left n (supervisor_at g)..<n] \<and>
      (supervisor_at g \<noteq> Selecting \<longrightarrow> runCancelled g) \<and>
      trigger_ok g d (supervisor_at g))"

lemma group_inv_Run: "group_inv d n (Run n)"
  by (simp add: group_inv_def Run_def list_all_length count_where_def)

lemma list_all_update: "list_all P xs \<Longrightarrow> P x \<Longrightarrow> list_all P (xs[i := x])"
  by (auto simp: list_all_iff dest: subsetD [OF set_update_subset_insert])

lemma list_all_weaken: "list_all P xs \<Longrightarrow> (\<And>x. P x \<Longrightarrow> Q x) \<Longrightarrow> list_all Q xs"
  by (simp add: list_all_iff)

lemma not_all_over: "i < length xs \<Longrightarrow> xs ! i \<noteq> Over \<Longrightarrow> \<not> list_all (\<lambda>r. r = Over) xs"
  by (auto simp: list_all_length)

lemma trigger_ok_mono:
  assumes "trigger_ok g d s" and "ctxDone g \<Longrightarrow> ctxDone h" and "set (failures g) \<subseteq> set (failures h)"
    and "list_all (\<lambda>r. r = Over) (routines g) \<Longrightarrow> list_all (\<lambda>r. r = Over) (routines h)"
  shows "trigger_ok h d s"
  using assms by (cases s) (auto split: option.splits)

lemma start_returns_inv:
  assumes "group_inv d n g" and "i < size_of g" and "routines g ! i = Starting"
  shows "group_inv d n (start_returns i e g)"
proof -
  have live: "\<not> list_all (\<lambda>r. r = Over) (routines g)"
    by (rule not_all_over [OF assms(2)]) (simp add: assms(3))
  have le: "count_where may_send ((routines g)[i := r]) \<le> count_where may_send (routines g)" for r
    using count_where_update [OF assms(2), of may_send r] assms(3) by (simp split: if_splits)
  show ?thesis
  proof (cases "e = None \<or> err_is e canceled")
    case True
    then have s: "start_returns i e g = g\<lparr>routines := (routines g)[i := Over]\<rparr>"
      by (auto simp: start_returns_def split: option.splits)
    have "trigger_ok (start_returns i e g) d (supervisor_at g)"
      by (rule trigger_ok_mono [of g]) (use assms(1) live in \<open>auto simp: group_inv_def s\<close>)
    with assms(1) le [of Over] show ?thesis
      by (auto simp: group_inv_def s intro!: list_all_update)
  next
    case False
    then obtain x where e: "e = Some x" "\<not> err_is (Some x) canceled" by auto
    have "trigger_ok (start_returns i e g) d (supervisor_at g)"
      by (rule trigger_ok_mono [of g]) (use assms(1) live in \<open>auto simp: group_inv_def start_returns_def e\<close>)
    moreover have "list_all (sends_from (set (failures g @ [x])))
        ((routines g)[i := Sending x])"
    proof (rule list_all_update)
      have "list_all (sends_from (set (failures g))) (routines g)"
        using assms(1) by (simp add: group_inv_def)
      then show "list_all (sends_from (set (failures g @ [x]))) (routines g)"
        by (rule list_all_weaken) (auto elim: sends_from.elims)
    qed simp
    moreover have "list_all (\<lambda>e. e \<in> set (failures g @ [x])) (errCh g)"
      using assms(1) by (simp add: group_inv_def list_all_iff)
    ultimately show ?thesis using assms(1) le [of "Sending x"] e
      by (simp add: group_inv_def start_returns_def)
  qed
qed

lemma send_inv:
  assumes "group_inv d n g" and "i < size_of g" and "routines g ! i = Sending e"
  shows "group_inv d n (send i e g)"
proof -
  have live: "\<not> list_all (\<lambda>r. r = Over) (routines g)"
    by (rule not_all_over [OF assms(2)]) (simp add: assms(3))
  have c: "Suc (count_where may_send ((routines g)[i := Cancelling])) = count_where may_send (routines g)"
    using count_where_update [OF assms(2), of may_send Cancelling] assms(3) by simp
  have mem: "e \<in> set (failures g)"
    using assms by (force simp: group_inv_def list_all_length)
  have "trigger_ok (send i e g) d (supervisor_at g)"
    by (rule trigger_ok_mono [of g]) (use assms(1) live in \<open>auto simp: group_inv_def send_def\<close>)
  with assms(1) c mem show ?thesis
    by (auto simp: group_inv_def send_def intro!: list_all_update)
qed

lemma cancel_group_inv:
  assumes "group_inv d n g" and "i < size_of g" and "routines g ! i = Cancelling"
  shows "group_inv d n (cancel_group i g)"
proof -
  have live: "\<not> list_all (\<lambda>r. r = Over) (routines g)"
    by (rule not_all_over [OF assms(2)]) (simp add: assms(3))
  have c: "count_where may_send ((routines g)[i := Over]) = count_where may_send (routines g)"
    using count_where_update [OF assms(2), of may_send Over] assms(3) by simp
  have "trigger_ok (cancel_group i g) d (supervisor_at g)"
    by (rule trigger_ok_mono [of g]) (use assms(1) live in \<open>auto simp: group_inv_def cancel_group_def\<close>)
  with assms(1) c show ?thesis
    by (auto simp: group_inv_def cancel_group_def intro!: list_all_update)
qed

lemma group_step_inv:
  assumes "group_step d g h" and "group_inv d n g"
  shows "group_inv d n h"
  using assms
proof (induction rule: group_step.induct)
  case (ctx_done g)
  have "trigger_ok (g\<lparr>ctxDone := True, runCancelled := True\<rparr>) d (supervisor_at g)"
    by (rule trigger_ok_mono [of g]) (use ctx_done in \<open>auto simp: group_inv_def\<close>)
  with ctx_done show ?case by (auto simp: group_inv_def)
next
  case (returns i g e)
  then show ?case by (simp add: start_returns_inv)
next
  case (sends i g e)
  then show ?case by (simp add: send_inv)
next
  case (cancels i g)
  then show ?case by (simp add: cancel_group_inv)
next
  case (sees_ctx g)
  then show ?case by (auto simp: group_inv_def triggered_def)
next
  case (sees_error g e rest)
  then show ?case by (auto simp: group_inv_def triggered_def)
next
  case (stops g t k)
  then have "stopped g = rev [Suc k..<n]" and k: "Suc k \<le> n"
    by (auto simp: group_inv_def)
  then have "stopped g @ [k] = rev [k..<n]" by (simp add: upt_conv_Cons [of k n])
  with stops k show ?case by (auto simp: group_inv_def stop_next_def split: option.splits)
next
  case (all_stopped g t)
  then show ?case by (auto simp: group_inv_def split: option.splits)
next
  case (drained g t)
  then show ?case by (auto simp: group_inv_def split: option.splits)
next
  case (timed_out g t)
  then show ?case by (auto simp: group_inv_def split: option.splits)
qed

lemma group_steps_inv: "group_steps d g h \<Longrightarrow> group_inv d n g \<Longrightarrow> group_inv d n h"
  by (erule run_invariant) (auto intro: group_step_inv)

lemma trigger_not_canceled:
  "group_inv d n g \<Longrightarrow> supervisor_at g = Returned (Some e) b \<Longrightarrow>
   e \<in> set (failures g) \<and> \<not> err_is (Some e) canceled"
  by (auto simp: group_inv_def list_all_iff)

section \<open>Properties\<close>

text \<open>
  C6: when \<open>Run\<close> over \<open>n\<close> runnables returns, in whatever interleaving, it has cancelled the
  context of the runnables and called \<open>Stop\<close> exactly once on each of them, in reverse
  order of registration. It returns nil only if its context was cancelled, and an error
  only if a runnable returned it from \<open>Start\<close> and it is not a cancellation. Unless a
  positive shutdown timeout elapsed, every \<open>Start\<close> has returned.
\<close>
theorem Run_shutdown:
  assumes "group_steps d (Run n) g" and "supervisor_at g = Returned trigger all_back"
  shows "stopped g = rev [0..<n] \<and> runCancelled g \<and>
         (case trigger of
            None \<Rightarrow> ctxDone g
          | Some e \<Rightarrow> e \<in> set (failures g) \<and> \<not> err_is (Some e) canceled) \<and>
         (if all_back then list_all (\<lambda>r. r = Over) (routines g) else d > 0)"
proof -
  have inv: "group_inv d n g" using assms(1) group_inv_Run by (rule group_steps_inv)
  with assms(2) show ?thesis
    using trigger_not_canceled [OF inv] by (auto simp: group_inv_def split: option.splits)
qed

lemma group_trace_ctx:
  "group_steps 0 (Run 1)
     ((triggered None [] (start_returns 0 None ((Run 1)\<lparr>ctxDone := True, runCancelled := True\<rparr>)))
        \<lparr>stopped := [0], supervisor_at := Returned None True\<rparr>)"
proof -
  let ?a = "(Run 1)\<lparr>ctxDone := True, runCancelled := True\<rparr>"
  let ?b = "start_returns 0 None ?a"
  let ?c = "triggered None (errCh ?b) ?b"
  let ?d = "stop_next None 0 ?c"
  let ?e = "?d\<lparr>supervisor_at := Draining None\<rparr>"
  have "group_steps 0 (Run 1) ?a" by (rule run_one, rule ctx_done)
  then have "group_steps 0 (Run 1) ?b"
    by (rule run_step) (rule returns, simp_all add: Run_def)
  then have "group_steps 0 (Run 1) ?c"
    by (rule run_step) (rule sees_ctx, simp_all add: Run_def start_returns_def)
  then have "group_steps 0 (Run 1) ?d"
    by (rule run_step) (rule stops, simp add: Run_def start_returns_def triggered_def)
  then have "group_steps 0 (Run 1) ?e"
    by (rule run_step) (rule all_stopped, simp add: stop_next_def)
  then have "group_steps 0 (Run 1) (?e\<lparr>supervisor_at := Returned None True\<rparr>)"
    by (rule run_step)
       (rule drained, simp_all add: Run_def start_returns_def triggered_def stop_next_def)
  then show ?thesis by (simp add: Run_def start_returns_def triggered_def stop_next_def)
qed

theorem Run_shutdown_witness:
  "ctxDone (triggered None [] (start_returns 0 None ((Run 1)\<lparr>ctxDone := True, runCancelled := True\<rparr>)))"
  using Run_shutdown [OF group_trace_ctx] by simp

text \<open>
  C20: a failing runnable never blocks on reporting its error: while a goroutine has an error
  to send, the channel has room for it, also after \<open>Run\<close> has stopped reading.
\<close>
theorem send_never_blocks:
  assumes "group_steps d (Run n) g" and "i < size_of g" and "routines g ! i = Sending e"
  shows "group_step d g (send i e g)"
proof -
  have inv: "group_inv d n g" using assms(1) group_inv_Run by (rule group_steps_inv)
  have "0 < count_where may_send (routines g)"
    using assms(2,3) by (intro count_where_pos [of i]) simp_all
  with inv have "length (errCh g) < size_of g" by (simp add: group_inv_def)
  with assms(2,3) show ?thesis by (rule sends)
qed

theorem send_never_blocks_witness:
  "group_step 0 (start_returns 0 (Some (Plain ''boom'')) (Run 2))
     (send 0 (Plain ''boom'') (start_returns 0 (Some (Plain ''boom'')) (Run 2)))"
proof (rule send_never_blocks)
  show "group_steps 0 (Run 2) (start_returns 0 (Some (Plain ''boom'')) (Run 2))"
    by (rule run_one) (rule returns, simp_all add: Run_def)
qed (simp_all add: Run_def start_returns_def)

end
