(* ===== verification/Queue_Store.thy ===== *)
theory Queue_Store
  imports Go_Prelude "HOL-Library.Product_Lexorder"
begin

text \<open>
  The Postgres store of the queues: the table \<open>queue_tasks\<close>, the statements of
  \<open>queue/pgqueue.go\<close> as functions of the table, and the methods of \<open>PG\<close> that run them. A
  statement is atomic. What the methods meet outside is an environment: the fault of each
  round trip, the system clock, the clock of the database, fresh identifiers, and the rows
  another transaction holds locked. Instants are kept as they are, without the rounding of a
  \<open>TIMESTAMPTZ\<close> to microseconds, and the attempts of a task are taken to fit an \<open>INT\<close>.
\<close>

section \<open>Table\<close>

record row =
  r_id :: int
  r_queue :: string
  r_kind :: string
  r_key :: "string option"
  r_payload :: string
  r_created :: instant
  r_run_at :: instant
  r_attempts :: int
  r_leased_at :: "instant option"
  r_lease :: "string option"
  r_error :: "string option"
  r_done_at :: "instant option"

record table =
  rows :: "row list"
  next_id :: int

record task =
  ID :: int
  Queue :: string
  Kind :: string
  Key :: string
  Payload :: string
  CreatedAt :: instant
  RunAt :: instant
  Attempts :: int
  LastError :: string

record leased = task +
  leaseID :: string

record params =
  p_Queue :: string
  p_Kind :: string
  p_Key :: string
  p_Payload :: string
  p_Delay :: duration

definition null_string :: "string option \<Rightarrow> string" where
  "null_string x = (case x of None \<Rightarrow> [] | Some s \<Rightarrow> s)"

definition toLeased :: "row \<Rightarrow> leased" where
  "toLeased r = \<lparr>ID = r_id r, Queue = r_queue r, Kind = r_kind r, Key = null_string (r_key r),
     Payload = r_payload r, CreatedAt = r_created r, RunAt = r_run_at r, Attempts = r_attempts r,
     LastError = null_string (r_error r), leaseID = null_string (r_lease r)\<rparr>"

definition toLeasedAll :: "row list \<Rightarrow> leased list" where
  "toLeasedAll rs = map toLeased rs"

section \<open>Statements\<close>

text \<open>\<open>INSERT ... ON CONFLICT DO NOTHING\<close>: the rows inserted; the sequence advances anyway.\<close>

definition key_taken :: "string \<Rightarrow> string option \<Rightarrow> row list \<Rightarrow> bool" where
  "key_taken q key rs = (key \<noteq> None \<and> list_ex (\<lambda>r. r_queue r = q \<and> r_key r = key) rs)"

definition new_row :: "int \<Rightarrow> string \<Rightarrow> string \<Rightarrow> string option \<Rightarrow> string \<Rightarrow> instant \<Rightarrow> instant \<Rightarrow> row" where
  "new_row i q kind key payload created run_at =
     \<lparr>r_id = i, r_queue = q, r_kind = kind, r_key = key, r_payload = payload, r_created = created,
      r_run_at = run_at, r_attempts = 0, r_leased_at = None, r_lease = None, r_error = None,
      r_done_at = None\<rparr>"

definition sql_insert ::
    "string \<Rightarrow> string \<Rightarrow> string option \<Rightarrow> string \<Rightarrow> instant \<Rightarrow> instant \<Rightarrow> table \<Rightarrow> int \<times> table" where
  "sql_insert q kind key payload created run_at t =
     (if key_taken q key (rows t) then (0, t\<lparr>next_id := next_id t + 1\<rparr>)
      else (1, \<lparr>rows = rows t @ [new_row (next_id t) q kind key payload created run_at],
                next_id = next_id t + 1\<rparr>))"

text \<open>The condition of the claim; a comparison with NULL does not hold.\<close>

definition ready :: "string \<Rightarrow> instant \<Rightarrow> instant \<Rightarrow> row \<Rightarrow> bool" where
  "ready q now cutoff r =
     (r_queue r = q \<and> r_done_at r = None \<and> r_run_at r \<le> now \<and>
      (r_lease r = None \<or> (case r_leased_at r of None \<Rightarrow> False | Some a \<Rightarrow> a < cutoff)))"

definition order_key :: "row \<Rightarrow> instant \<times> int" where
  "order_key r = (r_run_at r, r_id r)"

text \<open>The common table expression \<open>next\<close>: the first \<open>limit\<close> ready rows no one holds locked.\<close>

definition next_rows :: "(int \<Rightarrow> bool) \<Rightarrow> string \<Rightarrow> instant \<Rightarrow> instant \<Rightarrow> nat \<Rightarrow> row list \<Rightarrow> row list" where
  "next_rows locked q now cutoff limit rs =
     take limit (sort_key order_key (filter (\<lambda>r. ready q now cutoff r \<and> \<not> locked (r_id r)) rs))"

definition set_lease :: "string \<Rightarrow> instant \<Rightarrow> row \<Rightarrow> row" where
  "set_lease l now r = r\<lparr>r_lease := Some l, r_leased_at := Some now\<rparr>"

definition clear_lease :: "row \<Rightarrow> row" where
  "clear_lease r = r\<lparr>r_lease := None, r_leased_at := None\<rparr>"

definition sql_claim ::
    "(int \<Rightarrow> bool) \<Rightarrow> string \<Rightarrow> instant \<Rightarrow> instant \<Rightarrow> string \<Rightarrow> nat \<Rightarrow> table \<Rightarrow> row list \<times> table" where
  "sql_claim locked q now cutoff l limit t =
     (let nxt = next_rows locked q now cutoff limit (rows t);
          ids = map r_id nxt
      in (map (set_lease l now) nxt,
          t\<lparr>rows := update_where (\<lambda>r. r_id r \<in> set ids) (set_lease l now) (rows t)\<rparr>))"

text \<open>The lease guard of the marks.\<close>

definition guarded :: "int \<Rightarrow> string \<Rightarrow> row \<Rightarrow> bool" where
  "guarded i l r = (r_id r = i \<and> r_lease r = Some l)"

definition sql_delete_done :: "int \<Rightarrow> string \<Rightarrow> table \<Rightarrow> nat \<times> table" where
  "sql_delete_done i l t =
     (count_where (guarded i l) (rows t), t\<lparr>rows := filter (\<lambda>r. \<not> guarded i l r) (rows t)\<rparr>)"

definition sql_retry :: "int \<Rightarrow> string \<Rightarrow> int \<Rightarrow> string \<Rightarrow> instant \<Rightarrow> table \<Rightarrow> nat \<times> table" where
  "sql_retry i l attempts msg run_at t =
     (count_where (guarded i l) (rows t),
      t\<lparr>rows := update_where (guarded i l)
          (\<lambda>r. (clear_lease r)\<lparr>r_attempts := attempts, r_error := Some msg, r_run_at := run_at\<rparr>)
          (rows t)\<rparr>)"

definition sql_dead :: "int \<Rightarrow> string \<Rightarrow> int \<Rightarrow> string \<Rightarrow> instant \<Rightarrow> table \<Rightarrow> nat \<times> table" where
  "sql_dead i l attempts msg now t =
     (count_where (guarded i l) (rows t),
      t\<lparr>rows := update_where (guarded i l)
          (\<lambda>r. (clear_lease r)\<lparr>r_attempts := attempts, r_error := Some msg, r_done_at := Some now\<rparr>)
          (rows t)\<rparr>)"

definition sql_release :: "int list \<Rightarrow> string \<Rightarrow> table \<Rightarrow> unit \<times> table" where
  "sql_release ids l t =
     ((), t\<lparr>rows := update_where (\<lambda>r. r_id r \<in> set ids \<and> r_lease r = Some l) clear_lease (rows t)\<rparr>)"

definition expired_dead :: "string \<Rightarrow> instant \<Rightarrow> row \<Rightarrow> bool" where
  "expired_dead q before r =
     (r_queue r = q \<and> (case r_done_at r of None \<Rightarrow> False | Some d \<Rightarrow> d < before))"

definition sql_cleanup :: "string \<Rightarrow> instant \<Rightarrow> table \<Rightarrow> nat \<times> table" where
  "sql_cleanup q before t =
     (count_where (expired_dead q before) (rows t),
      t\<lparr>rows := filter (\<lambda>r. \<not> expired_dead q before r) (rows t)\<rparr>)"

record stats =
  Pending :: nat
  Leased :: nat
  Dead :: nat

definition is_pending :: "string \<Rightarrow> instant \<Rightarrow> row \<Rightarrow> bool" where
  "is_pending q now r = (r_queue r = q \<and> r_done_at r = None \<and> r_run_at r \<le> now \<and> r_lease r = None)"

definition is_leased :: "string \<Rightarrow> row \<Rightarrow> bool" where
  "is_leased q r = (r_queue r = q \<and> r_done_at r = None \<and> r_lease r \<noteq> None)"

definition is_dead :: "string \<Rightarrow> row \<Rightarrow> bool" where
  "is_dead q r = (r_queue r = q \<and> r_done_at r \<noteq> None)"

definition sql_stats :: "string \<Rightarrow> instant \<Rightarrow> table \<Rightarrow> stats \<times> table" where
  "sql_stats q now t =
     (\<lparr>Pending = count_where (is_pending q now) (rows t), Leased = count_where (is_leased q) (rows t),
       Dead = count_where (is_dead q) (rows t)\<rparr>, t)"

section \<open>The methods of PG\<close>

text \<open>The environment of the store; the state of the world is the table and \<open>'e\<close>.\<close>

record 'e pg_env =
  next_fault :: "'e \<Rightarrow> fault \<times> 'e"
  sys_now :: "'e \<Rightarrow> instant \<times> 'e"
  db_now :: "'e \<Rightarrow> instant"
  new_uuid :: "'e \<Rightarrow> string \<times> 'e"
  row_locked :: "'e \<Rightarrow> int \<Rightarrow> bool"

definition run_stmt ::
    "'e pg_env \<Rightarrow> ('t \<Rightarrow> 'a \<times> 't) \<Rightarrow> 't \<times> 'e \<Rightarrow> (go_error + 'a) \<times> 't \<times> 'e" where
  "run_stmt env f = (\<lambda>(t, e).
     case next_fault env e of
       (Works, e) \<Rightarrow> (case f t of (r, t) \<Rightarrow> (Inr r, t, e))
     | (Fails_before x, e) \<Rightarrow> (Inl x, t, e)
     | (Fails_after x, e) \<Rightarrow> (case f t of (r, t) \<Rightarrow> (Inl x, t, e)))"

definition errLeaseLost :: go_error where
  "errLeaseLost = Sentinel ''queue: lease lost''"

text \<open>\<open>insert\<close>, and \<open>Schedule\<close>, which is \<open>insert\<close> on the pool.\<close>

definition pg_insert ::
    "'e pg_env \<Rightarrow> params \<Rightarrow> table \<times> 'e \<Rightarrow> (bool \<times> err) \<times> table \<times> 'e" where
  "pg_insert env p s =
     (if p_Queue p = [] then ((False, Some (Plain ''queue schedule: queue is required'')), s)
      else if p_Kind p = [] then ((False, Some (Plain ''queue schedule: kind is required'')), s)
      else case s of (t, e) \<Rightarrow>
        (case sys_now env e of (now, e) \<Rightarrow>
          (case run_stmt env (sql_insert (p_Queue p) (p_Kind p)
                  (if p_Key p \<noteq> [] then Some (p_Key p) else None) (p_Payload p)
                  (db_now env e) (now + p_Delay p)) (t, e) of
             (Inl x, s) \<Rightarrow> ((False, Some (wrap_err ''queue schedule'' x)), s)
           | (Inr n, s) \<Rightarrow> ((n = 1, None), s))))"

definition Schedule :: "'e pg_env \<Rightarrow> params \<Rightarrow> table \<times> 'e \<Rightarrow> (bool \<times> err) \<times> table \<times> 'e" where
  "Schedule env p s = pg_insert env p s"

definition pg_claim ::
    "'e pg_env \<Rightarrow> string \<Rightarrow> instant \<Rightarrow> duration \<Rightarrow> int \<Rightarrow> table \<times> 'e \<Rightarrow>
     (leased list \<times> err) \<times> table \<times> 'e" where
  "pg_claim env q now lease limit = (\<lambda>(t, e).
     case new_uuid env e of (l, e) \<Rightarrow>
       (case run_stmt env (sql_claim (row_locked env e) q now (now - lease) l (nat limit)) (t, e) of
          (Inl x, s) \<Rightarrow> (([], Some (wrap_err ''queue claim'' x)), s)
        | (Inr rs, s) \<Rightarrow> ((toLeasedAll rs, None), s)))"

definition mark_result :: "string \<Rightarrow> (go_error + nat) \<times> 's \<Rightarrow> err \<times> 's" where
  "mark_result what = (\<lambda>(r, s).
     (case r of
        Inl x \<Rightarrow> Some (wrap_err what x)
      | Inr n \<Rightarrow> if n = 0 then Some errLeaseLost else None, s))"

definition pg_markDone :: "'e pg_env \<Rightarrow> leased \<Rightarrow> table \<times> 'e \<Rightarrow> err \<times> table \<times> 'e" where
  "pg_markDone env t s =
     mark_result ''queue mark done'' (run_stmt env (sql_delete_done (ID t) (leaseID t)) s)"

definition pg_markFailed ::
    "'e pg_env \<Rightarrow> leased \<Rightarrow> string \<Rightarrow> bool \<Rightarrow> instant \<Rightarrow> instant \<Rightarrow> table \<times> 'e \<Rightarrow> err \<times> table \<times> 'e" where
  "pg_markFailed env t msg dead now runAt s =
     mark_result ''queue mark failed'' (run_stmt env
       (if dead then sql_dead (ID t) (leaseID t) (Attempts t + 1) msg now
        else sql_retry (ID t) (leaseID t) (Attempts t + 1) msg runAt) s)"

definition pg_release :: "'e pg_env \<Rightarrow> leased list \<Rightarrow> table \<times> 'e \<Rightarrow> err \<times> table \<times> 'e" where
  "pg_release env tasks s =
     (case tasks of
        [] \<Rightarrow> (None, s)
      | t # _ \<Rightarrow>
          (case run_stmt env (sql_release (map ID tasks) (leaseID t)) s of
             (Inl x, s) \<Rightarrow> (Some (wrap_err ''queue release'' x), s)
           | (Inr _, s) \<Rightarrow> (None, s)))"

definition pg_cleanup :: "'e pg_env \<Rightarrow> string \<Rightarrow> instant \<Rightarrow> table \<times> 'e \<Rightarrow> (nat \<times> err) \<times> table \<times> 'e" where
  "pg_cleanup env q before s =
     (case run_stmt env (sql_cleanup q before) s of
        (Inl x, s) \<Rightarrow> ((0, Some (wrap_err ''queue cleanup'' x)), s)
      | (Inr n, s) \<Rightarrow> ((n, None), s))"

definition pg_stats :: "'e pg_env \<Rightarrow> string \<Rightarrow> instant \<Rightarrow> table \<times> 'e \<Rightarrow> (stats \<times> err) \<times> table \<times> 'e" where
  "pg_stats env q now s =
     (case run_stmt env (sql_stats q now) s of
        (Inl x, s) \<Rightarrow> ((\<lparr>Pending = 0, Leased = 0, Dead = 0\<rparr>, Some (wrap_err ''queue stats'' x)), s)
      | (Inr st, s) \<Rightarrow> ((st, None), s))"

section \<open>Well-formed tables\<close>

text \<open>
  The constraints of the schema (primary key, unique key per queue), ids below the
  sequence, and what the statements maintain on every row: a lease and its time come and
  go together, and a dead task is not leased.
\<close>

fun key_list :: "string \<Rightarrow> string option \<Rightarrow> (string \<times> string) list" where
  "key_list q None = []"
| "key_list q (Some k) = [(q, k)]"

lemma set_key_list [simp]: "x \<in> set (key_list q k) \<longleftrightarrow> (\<exists>s. k = Some s \<and> x = (q, s))"
  by (cases k) auto

definition row_key :: "row \<Rightarrow> (string \<times> string) list" where
  "row_key r = key_list (r_queue r) (r_key r)"

definition row_ok :: "row \<Rightarrow> bool" where
  "row_ok r = (((r_lease r = None) = (r_leased_at r = None)) \<and> (r_done_at r \<noteq> None \<longrightarrow> r_lease r = None))"

definition table_wf :: "table \<Rightarrow> bool" where
  "table_wf t =
     (distinct (map r_id (rows t)) \<and> list_all (\<lambda>r. r_id r < next_id t) (rows t) \<and>
      distinct (concat (map row_key (rows t))) \<and> list_all row_ok (rows t))"

lemma set_lease_simps [simp]:
  "r_id (set_lease l n r) = r_id r" "row_key (set_lease l n r) = row_key r"
  "r_queue (set_lease l n r) = r_queue r" "r_run_at (set_lease l n r) = r_run_at r"
  "r_lease (set_lease l n r) = Some l" "r_leased_at (set_lease l n r) = Some n"
  "r_done_at (set_lease l n r) = r_done_at r" "r_attempts (set_lease l n r) = r_attempts r"
  "row_ok (set_lease l n r) = (r_done_at r = None)" "order_key (set_lease l n r) = order_key r"
  by (simp_all add: set_lease_def row_key_def row_ok_def order_key_def)

lemma clear_lease_simps [simp]:
  "r_id (clear_lease r) = r_id r" "row_key (clear_lease r) = row_key r"
  "r_lease (clear_lease r) = None" "row_ok (clear_lease r)"
  "r_done_at (clear_lease r) = r_done_at r"
  by (simp_all add: clear_lease_def row_key_def row_ok_def)

lemma distinct_concat_filter:
  "distinct (concat (map f xs)) \<Longrightarrow> distinct (concat (map f (filter P xs)))"
  by (induction xs) auto

lemma list_all_update_where:
  "list_all Q xs \<Longrightarrow> (\<And>x. Q x \<Longrightarrow> P x \<Longrightarrow> Q (f x)) \<Longrightarrow> list_all Q (update_where P f xs)"
  by (auto simp: list_all_iff set_update_where)

text \<open>One lemma for the statements that update rows in place and one for those that delete.\<close>

lemma table_wf_update:
  assumes "table_wf t" and "\<And>r. r_id (f r) = r_id r" and "\<And>r. row_key (f r) = row_key r"
    and "\<And>r. r \<in> set (rows t) \<Longrightarrow> P r \<Longrightarrow> row_ok (f r)"
  shows "table_wf (t\<lparr>rows := update_where P f (rows t)\<rparr>)"
proof -
  have "list_all row_ok (update_where P f (rows t))"
    using assms(1,4) by (auto simp: table_wf_def list_all_iff set_update_where)
  moreover have "list_all (\<lambda>r. r_id r < next_id t) (update_where P f (rows t))"
    using assms(1,2) by (auto simp: table_wf_def intro: list_all_update_where)
  ultimately show ?thesis
    using assms(1-3) by (simp add: table_wf_def)
qed

lemma table_wf_filter: "table_wf t \<Longrightarrow> table_wf (t\<lparr>rows := filter P (rows t)\<rparr>)"
  by (simp add: table_wf_def distinct_map_filter distinct_concat_filter list_all_iff)

lemma next_rows_set:
  "set (next_rows locked q now cutoff limit rs) \<subseteq>
     {r \<in> set rs. ready q now cutoff r \<and> \<not> locked (r_id r)}"
  using set_take_subset by (fastforce simp: next_rows_def)

lemma wf_same_row:
  "table_wf t \<Longrightarrow> r \<in> set (rows t) \<Longrightarrow> r' \<in> set (rows t) \<Longrightarrow> r_id r = r_id r' \<Longrightarrow> r = r'"
  by (auto simp: table_wf_def distinct_map dest: inj_onD)

text \<open>A row whose id the claim took is one of the rows it selected.\<close>

lemma claimed_is_next:
  assumes "table_wf t" and "r \<in> set (rows t)"
    and "r_id r \<in> set (map r_id (next_rows locked q now cutoff limit (rows t)))"
  shows "r \<in> set (next_rows locked q now cutoff limit (rows t))"
proof -
  from assms(3) obtain r' where r': "r' \<in> set (next_rows locked q now cutoff limit (rows t))"
    and i: "r_id r = r_id r'" by auto
  from r' have "r' \<in> set (rows t)" using next_rows_set by blast
  with assms(1,2) i have "r = r'" by (auto intro: wf_same_row)
  with r' show ?thesis by simp
qed

lemma claimed_is_ready:
  assumes "table_wf t" and "r \<in> set (rows t)"
    and "r_id r \<in> set (map r_id (next_rows locked q now cutoff limit (rows t)))"
  shows "ready q now cutoff r \<and> \<not> locked (r_id r)"
  using claimed_is_next [OF assms] next_rows_set by blast

text \<open>The statements that change the table, as steps.\<close>

inductive table_step :: "table \<Rightarrow> table \<Rightarrow> bool" where
  inserts: "table_step t (snd (sql_insert q kind key payload created run_at t))"
| claims: "table_step t (snd (sql_claim locked q now cutoff l limit t))"
| deletes: "table_step t (snd (sql_delete_done i l t))"
| retries: "table_step t (snd (sql_retry i l attempts msg run_at t))"
| kills: "table_step t (snd (sql_dead i l attempts msg now t))"
| releases: "table_step t (snd (sql_release ids l t))"
| cleans: "table_step t (snd (sql_cleanup q before t))"

abbreviation table_steps :: "table \<Rightarrow> table \<Rightarrow> bool" where
  "table_steps \<equiv> rtranclp table_step"

definition empty_table :: table where
  "empty_table = \<lparr>rows = [], next_id = 1\<rparr>"

lemma sql_insert_wf:
  assumes "table_wf t"
  shows "table_wf (snd (sql_insert q kind key payload created run_at t))"
proof -
  have fresh: "next_id t \<notin> r_id ` set (rows t)"
    using assms by (auto simp: table_wf_def list_all_iff)
  have keys: "\<not> key_taken q key (rows t) \<Longrightarrow>
      set (row_key (new_row (next_id t) q kind key payload created run_at)) \<inter>
      (\<Union>r \<in> set (rows t). set (row_key r)) = {}"
    by (cases key) (auto simp: key_taken_def row_key_def new_row_def list_ex_iff)
  have lt: "list_all (\<lambda>r. r_id r < next_id t + 1) (rows t)"
    using assms by (auto simp: table_wf_def list_all_iff)
  have new: "row_ok (new_row i q kind key payload created run_at)"
    "r_id (new_row i q kind key payload created run_at) = i"
    "distinct (row_key (new_row i q kind key payload created run_at))" for i
    by (cases key; simp add: new_row_def row_ok_def row_key_def)+
  show ?thesis
    using assms fresh keys lt new by (simp add: sql_insert_def table_wf_def Int_commute)
qed

lemma sql_claim_wf:
  assumes "table_wf t"
  shows "table_wf (snd (sql_claim locked q now cutoff l limit t))"
  unfolding sql_claim_def Let_def snd_conv
proof (rule table_wf_update [OF assms])
  fix r
  assume "r \<in> set (rows t)" and "r_id r \<in> set (map r_id (next_rows locked q now cutoff limit (rows t)))"
  from claimed_is_ready [OF assms this] show "row_ok (set_lease l now r)"
    by (simp add: ready_def)
qed simp_all

lemma guarded_ok: "row_ok r \<Longrightarrow> guarded i l r \<Longrightarrow> r_done_at r = None"
  by (auto simp: row_ok_def guarded_def)

lemma table_step_wf: "table_step t u \<Longrightarrow> table_wf t \<Longrightarrow> table_wf u"
proof (induction rule: table_step.induct)
  case (retries t i l attempts msg run_at)
  then show ?case unfolding sql_retry_def snd_conv
    by (intro table_wf_update) (auto simp: row_ok_def row_key_def clear_lease_def)
next
  case (kills t i l attempts msg now)
  then show ?case unfolding sql_dead_def snd_conv
    by (intro table_wf_update) (auto simp: row_ok_def row_key_def clear_lease_def)
next
  case (releases t ids l)
  then show ?case unfolding sql_release_def snd_conv by (intro table_wf_update) simp_all
qed (simp_all add: sql_insert_wf sql_claim_wf sql_delete_done_def sql_cleanup_def table_wf_filter)

lemma table_steps_wf: "table_steps t u \<Longrightarrow> table_wf t \<Longrightarrow> table_wf u"
  by (erule run_invariant) (auto intro: table_step_wf)

lemma empty_table_wf: "table_wf empty_table"
  by (simp add: table_wf_def empty_table_def)

section \<open>Claims\<close>

lemma sql_claim_result:
  "sql_claim locked q now cutoff l limit t = (rs, u) \<Longrightarrow>
   rs = map (set_lease l now) (next_rows locked q now cutoff limit (rows t))"
  by (auto simp: sql_claim_def Let_def)

text \<open>A row the claim did not take is as it was.\<close>

lemma claim_keeps_others:
  assumes "sql_claim locked q now cutoff l limit t = (rs, u)" and "r \<in> set (rows t)"
    and "r_id r \<notin> set (map r_id rs)"
  shows "r \<in> set (rows u)"
proof -
  have "set (map r_id rs) = set (map r_id (next_rows locked q now cutoff limit (rows t)))"
    using sql_claim_result [OF assms(1)] by (simp add: image_image)
  with assms show ?thesis
    by (force simp: sql_claim_def Let_def set_update_where)
qed

lemma next_rows_sorted: "sorted (map order_key (next_rows locked q now cutoff limit rs))"
  by (simp add: next_rows_def sorted_wrt_take take_map [symmetric])

lemma next_rows_length: "length (next_rows locked q now cutoff limit rs) \<le> limit"
  by (simp add: next_rows_def)

lemma next_rows_least:
  assumes "r \<in> set rs" and "ready q now cutoff r" and "\<not> locked (r_id r)"
    and "r \<notin> set (next_rows locked q now cutoff limit rs)"
    and "s \<in> set (next_rows locked q now cutoff limit rs)"
  shows "order_key s \<le> order_key r \<and> length (next_rows locked q now cutoff limit rs) = limit"
proof -
  define xs where "xs = sort_key order_key (filter (\<lambda>r. ready q now cutoff r \<and> \<not> locked (r_id r)) rs)"
  have n: "next_rows locked q now cutoff limit rs = take limit xs"
    by (simp add: next_rows_def xs_def)
  have "r \<in> set xs" using assms(1-3) by (simp add: xs_def)
  then have "r \<in> set (take limit xs) \<or> r \<in> set (drop limit xs)"
    by (metis append_take_drop_id set_append UnE)
  with assms(4) n have rd: "r \<in> set (drop limit xs)" by simp
  then have len: "limit < length xs" by (metis drop_all empty_iff not_le_imp_less list.set(1))
  have "sorted (map order_key (take limit xs) @ map order_key (drop limit xs))"
    by (simp add: xs_def flip: map_append)
  then have "\<forall>x \<in> set (map order_key (take limit xs)). \<forall>y \<in> set (map order_key (drop limit xs)). x \<le> y"
    unfolding sorted_append by blast
  then have "order_key s \<le> order_key r"
    using assms(5) rd unfolding n set_map by blast
  with n len show ?thesis by simp
qed

lemma distinct_next_rows: "table_wf t \<Longrightarrow> distinct (map r_id (next_rows locked q now cutoff limit (rows t)))"
proof -
  assume wf: "table_wf t"
  let ?f = "filter (\<lambda>r. ready q now cutoff r \<and> \<not> locked (r_id r)) (rows t)"
  have "distinct (map r_id ?f)" using wf by (simp add: table_wf_def distinct_map_filter)
  then have "distinct (map r_id (sort_key order_key ?f))"
    by (simp add: distinct_map)
  then show ?thesis by (simp add: next_rows_def take_map [symmetric] distinct_take)
qed

section \<open>Marks\<close>

lemma no_guard_idle:
  assumes "count_where (guarded i l) (rows t) = 0"
  shows "sql_delete_done i l t = (0, t)" and "sql_retry i l a m ra t = (0, t)"
    and "sql_dead i l a m n t = (0, t)"
proof -
  from assms have none: "r \<in> set (rows t) \<Longrightarrow> \<not> guarded i l r" for r
    by (simp add: count_where_zero)
  have "update_where (guarded i l) f (rows t) = rows t" for f
    by (rule update_where_idle) (rule none)
  moreover have "filter (\<lambda>r. \<not> guarded i l r) (rows t) = rows t"
    by (simp add: filter_id_conv none)
  ultimately show "sql_delete_done i l t = (0, t)" "sql_retry i l a m ra t = (0, t)"
    "sql_dead i l a m n t = (0, t)"
    using assms by (simp_all add: sql_delete_done_def sql_retry_def sql_dead_def)
qed

text \<open>Reading a row by its id.\<close>

definition row_of :: "table \<Rightarrow> int \<Rightarrow> row option" where
  "row_of t i = List.find (\<lambda>r. r_id r = i) (rows t)"

lemma row_of_Some: "table_wf t \<Longrightarrow> row_of t i = Some r \<longleftrightarrow> r \<in> set (rows t) \<and> r_id r = i"
proof -
  assume wf: "table_wf t"
  have "List.find (\<lambda>r. r_id r = i) xs = Some r \<longleftrightarrow> r \<in> set xs \<and> r_id r = i"
    if "distinct (map r_id xs)" for xs
    using that by (induction xs) auto
  with wf show ?thesis by (simp add: row_of_def table_wf_def)
qed

lemma row_of_None: "row_of t i = None \<longleftrightarrow> i \<notin> r_id ` set (rows t)"
  by (auto simp: row_of_def find_None_iff)

lemma row_of_update_where:
  assumes "\<And>r. r_id (f r) = r_id r"
  shows "row_of (t\<lparr>rows := update_where P f (rows t)\<rparr>) i =
         map_option (\<lambda>r. if P r then f r else r) (row_of t i)"
proof -
  have "List.find (\<lambda>r. r_id r = i) (update_where P f xs) =
      map_option (\<lambda>r. if P r then f r else r) (List.find (\<lambda>r. r_id r = i) xs)" for xs
    by (induction xs) (auto simp: update_where_def assms)
  then show ?thesis by (simp add: row_of_def)
qed

section \<open>Properties\<close>

text \<open>
  C12: in every table the statements of the store can produce, in any order and with any
  arguments, ids are distinct, at most one task of a queue has a given key, a lease and its
  time come and go together, and a dead task is never leased.
\<close>
theorem table_reachable_wf:
  assumes "table_steps empty_table t"
  shows "table_wf t"
  using assms empty_table_wf by (rule table_steps_wf)

theorem table_reachable_wf_witness:
  "table_wf (snd (sql_insert ''q'' ''k'' (Some ''key'') [] 0 0 empty_table))"
  by (rule table_reachable_wf, rule run_one, rule inserts)

text \<open>
  C3: a claim takes the tasks that are due first. It returns at most \<open>limit\<close> rows, ordered by
  \<open>run_at\<close> and id, each ready and not locked in the table and now under the new lease; a
  ready and unlocked row it leaves behind comes after all the rows it took, and only stays
  behind if the batch is full.
\<close>
theorem claim_takes_first_due:
  assumes "sql_claim locked q now cutoff l limit t = (rs, u)"
  shows "length rs \<le> limit \<and> sorted (map order_key rs) \<and>
         list_all (\<lambda>r. r_lease r = Some l \<and> r_leased_at r = Some now) rs \<and>
         (\<forall>s \<in> set rs. \<exists>r \<in> set (rows t). s = set_lease l now r \<and> ready q now cutoff r \<and> \<not> locked (r_id r)) \<and>
         (\<forall>r \<in> set (rows t). ready q now cutoff r \<and> \<not> locked (r_id r) \<and> set_lease l now r \<notin> set rs \<longrightarrow>
            length rs = limit \<and> (\<forall>s \<in> set rs. order_key s \<le> order_key r))"
proof -
  let ?n = "next_rows locked q now cutoff limit (rows t)"
  have rs: "rs = map (set_lease l now) ?n" using assms by (rule sql_claim_result)
  have len: "length rs \<le> limit" by (simp add: rs next_rows_length)
  have "sorted (map order_key rs)" using next_rows_sorted by (simp add: rs comp_def)
  moreover have "\<exists>r \<in> set (rows t). s = set_lease l now r \<and> ready q now cutoff r \<and> \<not> locked (r_id r)"
    if "s \<in> set rs" for s
    using that next_rows_set [of locked q now cutoff limit "rows t"] by (auto simp: rs)
  moreover have "length rs = limit \<and> (\<forall>s \<in> set rs. order_key s \<le> order_key r)"
    if r: "r \<in> set (rows t)" "ready q now cutoff r" "\<not> locked (r_id r)" "set_lease l now r \<notin> set rs" for r
  proof -
    have out: "r \<notin> set ?n" using r(4) by (auto simp: rs)
    show ?thesis
    proof (cases "?n = []")
      case True
      have "r \<in> set (sort_key order_key (filter (\<lambda>r. ready q now cutoff r \<and> \<not> locked (r_id r)) (rows t)))"
        using r(1-3) by simp
      with True have "limit = 0" by (cases limit) (auto simp: next_rows_def)
      with len show ?thesis by (simp add: rs True)
    next
      case False
      with next_rows_least [OF r(1-3) out hd_in_set] next_rows_least [OF r(1-3) out]
      show ?thesis by (auto simp: rs)
    qed
  qed
  ultimately show ?thesis using len by (auto simp: rs list_all_iff)
qed

theorem claim_takes_first_due_witness:
  "length (fst (sql_claim (\<lambda>_. False) ''q'' 5 0 ''l'' 1
     (snd (sql_insert ''q'' ''k'' None [] 0 3 empty_table)))) \<le> 1"
  by (rule claim_takes_first_due [OF surjective_pairing, THEN conjunct1])

text \<open>
  C9: a live lease is exclusive. While the lease of a task has not run out at the time of
  another claim, that claim neither returns the task nor changes its row.
\<close>
theorem claim_respects_lease:
  assumes "table_wf t" and "r \<in> set (rows t)"
    and "r_lease r = Some l0" and "r_leased_at r = Some a" and "now - lease \<le> a"
    and "sql_claim locked q now (now - lease) l limit t = (rs, u)"
  shows "r_id r \<notin> set (map r_id rs) \<and> r \<in> set (rows u)"
proof -
  have out: "r_id r \<notin> set (map r_id rs)"
  proof
    assume "r_id r \<in> set (map r_id rs)"
    then have "r_id r \<in> set (map r_id (next_rows locked q now (now - lease) limit (rows t)))"
      using sql_claim_result [OF assms(6)] by (simp add: image_image)
    from claimed_is_ready [OF assms(1,2) this] assms(3-5) show False by (simp add: ready_def)
  qed
  with claim_keeps_others [OF assms(6,2)] show ?thesis by simp
qed

text \<open>A table with one task leased at time 10.\<close>

definition leased_table :: table where
  "leased_table = snd (sql_claim (\<lambda>_. False) ''q'' 10 0 ''l'' 1
     (snd (sql_insert ''q'' ''k'' None [] 0 3 empty_table)))"

theorem claim_respects_lease_witness:
  "snd (sql_claim (\<lambda>_. False) ''q'' 15 (15 - 5) ''m'' 9 leased_table) = leased_table"
proof -
  obtain r where r: "rows leased_table = [r]" "r_lease r = Some ''l''" "r_leased_at r = Some 10"
    by (simp add: leased_table_def sql_claim_def sql_insert_def empty_table_def next_rows_def
        ready_def new_row_def key_taken_def update_where_def set_lease_def)
  have wf: "table_wf leased_table"
    unfolding leased_table_def by (intro sql_claim_wf sql_insert_wf empty_table_wf)
  obtain rs u where c: "sql_claim (\<lambda>_. False) ''q'' 15 (15 - 5) ''m'' 9 leased_table = (rs, u)" by force
  have "r_id r \<notin> set (map r_id rs) \<and> r \<in> set (rows u)"
    by (rule claim_respects_lease [OF wf _ r(2,3) _ c]) (simp_all add: r(1))
  then show ?thesis using c r(1)
    by (auto simp: sql_claim_def Let_def update_where_def image_image)
qed

text \<open>
  C8: the lease guard fences out a consumer that lost its lease. Once another claim has taken
  a task under a new lease id, a mark or a release with the old lease changes nothing, and
  the marks report \<open>errLeaseLost\<close>.
\<close>
theorem stale_lease_is_fenced:
  assumes "table_wf t" and "sql_claim locked q now cutoff l limit t = (rs, u)"
    and "ID x \<in> set (map r_id rs)" and "leaseID x \<noteq> l" and "next_fault env e = (Works, e')"
  shows "pg_markDone env x (u, e) = (Some errLeaseLost, u, e') \<and>
         pg_markFailed env x msg dead now' runAt (u, e) = (Some errLeaseLost, u, e') \<and>
         pg_release env [x] (u, e) = (None, u, e')"
proof -
  have wfu: "table_wf u" using sql_claim_wf [OF assms(1)] assms(2) by (metis snd_conv)
  have taken: "r_lease r = Some l" if "r \<in> set (rows u)" "r_id r = ID x" for r
    using that assms(2,3) by (auto simp: sql_claim_def Let_def set_update_where image_image split: if_splits)
  then have none: "count_where (guarded (ID x) (leaseID x)) (rows u) = 0"
    using assms(4) by (auto simp: count_where_zero guarded_def)
  have "update_where (\<lambda>r. r_id r \<in> set (map ID [x]) \<and> r_lease r = Some (leaseID x)) clear_lease (rows u) = rows u"
    by (rule update_where_idle) (use taken assms(4) in auto)
  then show ?thesis
    using assms(5) no_guard_idle [OF none]
    by (simp add: pg_markDone_def pg_markFailed_def pg_release_def run_stmt_def mark_result_def
        sql_release_def)
qed

theorem stale_lease_is_fenced_witness:
  "\<exists>x u. leaseID x = ''l'' \<and> snd (sql_claim (\<lambda>_. False) ''q'' 15 11 ''m'' 9 leased_table) = u \<and>
     pg_markDone \<lparr>next_fault = \<lambda>e. (Works, e), sys_now = \<lambda>e. (0, e), db_now = \<lambda>e. 0,
       new_uuid = \<lambda>e. ([], e), row_locked = \<lambda>e i. False\<rparr> x (u, ()) = (Some errLeaseLost, u, ())"
proof -
  let ?env = "\<lparr>next_fault = \<lambda>e. (Works, e), sys_now = \<lambda>e. (0, e), db_now = \<lambda>e. 0,
       new_uuid = \<lambda>e. ([], e), row_locked = \<lambda>e i. False\<rparr> :: unit pg_env"
  obtain r where r: "rows leased_table = [r]" "r_lease r = Some ''l''" "ready ''q'' 15 11 r"
    by (simp add: leased_table_def sql_claim_def sql_insert_def empty_table_def next_rows_def
        ready_def new_row_def key_taken_def update_where_def set_lease_def)
  have wf: "table_wf leased_table"
    unfolding leased_table_def by (intro sql_claim_wf sql_insert_wf empty_table_wf)
  obtain rs u where c: "sql_claim (\<lambda>_. False) ''q'' 15 11 ''m'' 9 leased_table = (rs, u)" by force
  have "r_id r \<in> set (map r_id rs)"
    using sql_claim_result [OF c] r by (simp add: next_rows_def)
  then have i: "ID (toLeased r) \<in> set (map r_id rs)" by (simp add: toLeased_def)
  have l: "leaseID (toLeased r) = ''l''" by (simp add: toLeased_def r(2) null_string_def)
  have "pg_markDone ?env (toLeased r) (u, ()) = (Some errLeaseLost, u, ())"
    by (rule stale_lease_is_fenced [OF wf c i, THEN conjunct1]) (simp_all add: l)
  then show ?thesis using l c by (intro exI conjI) simp_all
qed

end
