(* ===== verification/Queue_Routing.thy ===== *)
theory Queue_Routing
  imports Queue_Store Worker_Processor "HOL-Library.List_Lexorder" "HOL-Library.Char_ord"
begin

text \<open>
  How tasks find their handlers: the marks of \<open>queue/queue.go\<close>, the \<open>Mux\<close> of \<open>mux.go\<close> on
  the consuming side, and the \<open>Registry\<close> and \<open>Scheduler\<close> of \<open>registry.go\<close> and
  \<open>scheduler.go\<close> on the producing side. A Go type is known by its name or as a pointer; a
  scheduled value by its type and its content \<open>'v\<close>. Error texts keep the constant part of
  their format.
\<close>

section \<open>Outcomes of a handler\<close>

definition Permanent :: "err \<Rightarrow> err" where
  "Permanent e = map_option (Marked Queue_Permanent) e"

definition Halt :: "err \<Rightarrow> err" where
  "Halt e = map_option (Marked Queue_Halt) e"

definition isPermanent :: "err \<Rightarrow> bool" where
  "isPermanent e = marked_as Queue_Permanent e"

definition is_halt :: "err \<Rightarrow> bool" where
  "is_halt e = marked_as Queue_Halt e"

type_synonym 'w jobfunc = "ctx \<Rightarrow> task \<Rightarrow> 'w \<Rightarrow> err outcome \<times> 'w"

text \<open>\<open>Decode\<close>: the first argument is \<open>json.Unmarshal\<close>.\<close>

definition Decode :: "(string \<Rightarrow> go_error + 'v) \<Rightarrow> (ctx \<Rightarrow> task \<Rightarrow> 'v \<Rightarrow> 'w \<Rightarrow> err outcome \<times> 'w) \<Rightarrow> 'w jobfunc" where
  "Decode unmarshal fn c t w =
     (case unmarshal (Payload t) of
        Inl e \<Rightarrow> (Ret (Permanent (Some (Wrapf (''queue: decode '' @ Kind t @ '': '' @ err_text e) e))), w)
      | Inr v \<Rightarrow> fn c t v w)"

section \<open>Mux\<close>

definition ErrUnknownKind :: string where
  "ErrUnknownKind = ''queue: no handler registered for kind''"

definition unknownKind :: "'w jobfunc" where
  "unknownKind c t w =
     (Ret (Permanent (Some (Wrapf (ErrUnknownKind @ '': '' @ go_quote (Kind t)) (Sentinel ErrUnknownKind)))), w)"

record 'w mux =
  m_routes :: "string \<rightharpoonup> 'w jobfunc"
  fallback :: "'w jobfunc"

definition NewMux :: "'w jobfunc option \<Rightarrow> 'w mux" where
  "NewMux withFallback =
     \<lparr>m_routes = Map.empty, fallback = (case withFallback of None \<Rightarrow> unknownKind | Some fn \<Rightarrow> fn)\<rparr>"

definition Mux_Register :: "string \<Rightarrow> 'w jobfunc option \<Rightarrow> 'w mux \<Rightarrow> err \<times> 'w mux" where
  "Mux_Register kind fn m =
     (if kind = [] then (Some (Plain ''queue: register: kind is required''), m)
      else case fn of
        None \<Rightarrow> (Some (Plain ''queue: register: handler is nil''), m)
      | Some f \<Rightarrow>
          if m_routes m kind \<noteq> None then (Some (Plain (''queue: register: kind '' @ go_quote kind @ '' already registered'')), m)
          else (None, m\<lparr>m_routes := (m_routes m)(kind \<mapsto> f)\<rparr>))"

definition Mux_lookup :: "'w mux \<Rightarrow> string \<Rightarrow> 'w jobfunc" where
  "Mux_lookup m kind = (case m_routes m kind of Some fn \<Rightarrow> fn | None \<Rightarrow> fallback m)"

definition Mux_has :: "'w mux \<Rightarrow> string \<Rightarrow> bool" where
  "Mux_has m kind = (m_routes m kind \<noteq> None)"

definition Mux_Handle :: "'w mux \<Rightarrow> 'w jobfunc" where
  "Mux_Handle m c t w = Mux_lookup m (Kind t) c t w"

section \<open>Registry\<close>

datatype gotype = Named string | Pointer gotype

fun type_text :: "gotype \<Rightarrow> string" where
  "type_text (Named n) = n"
| "type_text (Pointer t) = CHR 0x2A # type_text t"

fun normalize :: "gotype \<Rightarrow> gotype" where
  "normalize (Pointer t) = normalize t"
| "normalize t = t"

type_synonym 'v encoder = "ctx \<Rightarrow> 'v \<Rightarrow> go_error + string"

record 'v route =
  rt_queue :: string
  rt_kind :: string
  rt_enc :: "'v encoder"
  rt_drop :: bool

type_synonym 'v registry = "(gotype \<times> 'v route) list"

definition WithEncoder :: "'v encoder option \<Rightarrow> 'v route \<Rightarrow> 'v route" where
  "WithEncoder e r = (case e of None \<Rightarrow> r | Some f \<Rightarrow> r\<lparr>rt_enc := f\<rparr>)"

definition Drop :: "'v route \<Rightarrow> 'v route" where
  "Drop r = r\<lparr>rt_drop := True\<rparr>"

text \<open>\<open>Register\<close>; the first argument is the JSON encoder.\<close>

definition Registry_Register ::
    "'v encoder \<Rightarrow> gotype \<Rightarrow> string \<Rightarrow> string \<Rightarrow> ('v route \<Rightarrow> 'v route) list \<Rightarrow> 'v registry \<Rightarrow>
     err \<times> 'v registry" where
  "Registry_Register json t queue kind opts r =
     (if queue = [] then (Some (Plain ''queue: register: queue is required''), r)
      else if kind = [] then (Some (Plain ''queue: register: kind is required''), r)
      else let rt = fold (\<lambda>opt rt. opt rt) opts
                      \<lparr>rt_queue = queue, rt_kind = kind, rt_enc = json, rt_drop = False\<rparr>;
               key = normalize t
           in if map_of r key \<noteq> None then (Some (Plain (''queue: register: type '' @ type_text key @ '' already registered'')), r)
              else (None, (key, rt) # r))"

definition kinds :: "'v registry \<Rightarrow> string \<Rightarrow> string list" where
  "kinds r queue =
     remdups_adj (sort (map (rt_kind \<circ> snd) (filter (\<lambda>(t, rt). rt_queue rt = queue \<and> \<not> rt_drop rt) r)))"

definition Check :: "'v registry \<Rightarrow> string \<Rightarrow> 'w mux option \<Rightarrow> err" where
  "Check r queue m =
     (case m of
        None \<Rightarrow> Some (Plain ''queue: check: mux is nil'')
      | Some m \<Rightarrow>
          let missing = filter (\<lambda>k. \<not> Mux_has m k) (kinds r queue)
          in if missing = [] then None
             else Some (Wrapf (''queue: check '' @ queue @ '': '' @ ErrUnknownKind @ '': '' @ go_quotes missing)
                          (Sentinel ErrUnknownKind)))"

definition Registry_lookup :: "'v registry \<Rightarrow> (gotype \<times> 'v) option \<Rightarrow> go_error + 'v route" where
  "Registry_lookup r v =
     (case v of
        None \<Rightarrow> Inl (Plain ''queue schedule: value is nil'')
      | Some (t, x) \<Rightarrow>
          (case map_of r (normalize t) of
             None \<Rightarrow> Inl (Plain (''queue schedule: type '' @ type_text (normalize t) @ '' is not registered''))
           | Some rt \<Rightarrow> Inr rt))"

section \<open>Scheduler\<close>

definition Scheduler_Schedule ::
    "'e pg_env \<Rightarrow> 'v registry \<Rightarrow> ctx \<Rightarrow> (gotype \<times> 'v) option \<Rightarrow> table \<times> 'e \<Rightarrow> err \<times> table \<times> 'e" where
  "Scheduler_Schedule env reg c v s =
     (case Registry_lookup reg v of
        Inl e \<Rightarrow> (Some e, s)
      | Inr rt \<Rightarrow>
          if rt_drop rt then (None, s)
          else case rt_enc rt c (snd (the v)) of
            Inl e \<Rightarrow> (Some (Wrapf (''queue schedule '' @ rt_kind rt @ '': encode: '' @ err_text e) e), s)
          | Inr payload \<Rightarrow>
              (case pg_insert env \<lparr>p_Queue = rt_queue rt, p_Kind = rt_kind rt, p_Key = [],
                      p_Payload = payload, p_Delay = 0\<rparr> s of
                 ((inserted, e), s) \<Rightarrow> (e, s)))"

section \<open>Lemmas\<close>

lemma Permanent_simps [simp]:
  "Permanent None = None" "isPermanent (Permanent (Some e))" "isPermanent None = False"
  "Halt None = None" "is_halt (Halt (Some e))" "is_halt None = False"
  "is_halt (Permanent x) = is_halt x" "isPermanent (Halt x) = isPermanent x"
  by (cases x; simp add: Permanent_def Halt_def isPermanent_def is_halt_def)+

lemma Mux_Register_cases:
  assumes "Mux_Register kind fn m = (None, m')"
  obtains f where "kind \<noteq> []" and "fn = Some f" and "m_routes m kind = None"
    and "m' = m\<lparr>m_routes := (m_routes m)(kind \<mapsto> f)\<rparr>"
  using assms by (auto simp: Mux_Register_def split: if_splits option.splits)

lemma kinds_iff:
  "k \<in> set (kinds r queue) \<longleftrightarrow> (\<exists>t rt. (t, rt) \<in> set r \<and> rt_queue rt = queue \<and> \<not> rt_drop rt \<and> rt_kind rt = k)"
  by (force simp: kinds_def)

lemma Check_None:
  "Check r queue (Some m) = None \<longleftrightarrow> (\<forall>k \<in> set (kinds r queue). Mux_has m k)"
  by (auto simp: Check_def Let_def filter_empty_conv)

lemma normalize_Pointer [simp]: "normalize (normalize t) = normalize t"
  by (induction t) simp_all

section \<open>Properties\<close>

text \<open>
  C14: when \<open>Check\<close> of a registry against the mux of a queue is nil, no task that the
  scheduler writes for that queue is dead-lettered as unknown: whatever registered value is
  scheduled, by value or behind any number of pointers, the row that appears carries a kind
  the mux has a handler of its own for, and \<open>Handle\<close> runs that handler.
\<close>
theorem checked_tasks_have_handlers:
  assumes "Check reg queue (Some m) = None"
    and "Scheduler_Schedule env reg c (Some (t, v)) (tbl, e) = (None, tbl', e')"
    and "r \<in> set (rows tbl')" and "r \<notin> set (rows tbl)" and "r_queue r = queue"
  shows "\<exists>f. m_routes m (r_kind r) = Some f \<and>
           Mux_Handle m c' (task.truncate (toLeased r)) w = f c' (task.truncate (toLeased r)) w"
proof -
  obtain rt where rt: "map_of reg (normalize t) = Some rt"
    using assms(2) by (auto simp: Scheduler_Schedule_def Registry_lookup_def split: option.splits)
  have row: "r_queue r = rt_queue rt \<and> r_kind r = rt_kind rt \<and> \<not> rt_drop rt"
    using assms(2-4) rt
    by (auto simp: Scheduler_Schedule_def Registry_lookup_def pg_insert_def run_stmt_def
        sql_insert_def new_row_def split: if_splits sum.splits prod.splits fault.splits)
  have "(normalize t, rt) \<in> set reg" using rt by (rule map_of_SomeD)
  with row assms(5) have "r_kind r \<in> set (kinds reg queue)" by (auto simp: kinds_iff)
  with assms(1) obtain f where "m_routes m (r_kind r) = Some f"
    by (auto simp: Check_None Mux_has_def)
  then show ?thesis
    by (simp add: Mux_Handle_def Mux_lookup_def toLeased_def task.truncate_def)
qed

text \<open>A registry, a mux that serves it, and an environment in which every statement works.\<close>

definition calm_env :: "unit pg_env" where
  "calm_env = \<lparr>next_fault = \<lambda>e. (Works, e), sys_now = \<lambda>e. (0, e), db_now = \<lambda>e. 0,
     new_uuid = \<lambda>e. (''id'', e), row_locked = \<lambda>e i. False\<rparr>"

definition mail_reg :: "string registry" where
  "mail_reg = snd (Registry_Register (\<lambda>c v. Inr v) (Pointer (Named ''Mail'')) ''q'' ''mail'' [] [])"

definition mail_mux :: "unit mux" where
  "mail_mux = snd (Mux_Register ''mail'' (Some (\<lambda>c t w. (Ret None, w))) (NewMux None))"

theorem checked_tasks_have_handlers_witness:
  "\<exists>f. m_routes mail_mux ''mail'' = Some f"
proof -
  let ?r = "new_row 1 ''q'' ''mail'' None ''hi'' 0 0"
  have "Check mail_reg ''q'' (Some mail_mux) = None"
    by (simp add: Check_None kinds_iff mail_reg_def mail_mux_def Registry_Register_def
        Mux_Register_def Mux_has_def NewMux_def)
  moreover have "Scheduler_Schedule calm_env mail_reg Caller (Some (Named ''Mail'', ''hi'')) (empty_table, ()) =
      (None, \<lparr>rows = [?r], next_id = 2\<rparr>, ())"
    by (simp add: Scheduler_Schedule_def Registry_lookup_def mail_reg_def Registry_Register_def
        pg_insert_def run_stmt_def calm_env_def sql_insert_def empty_table_def key_taken_def)
  ultimately show ?thesis
    using checked_tasks_have_handlers [of mail_reg "''q''" mail_mux calm_env Caller "Named ''Mail''"
      "''hi''" empty_table "()" "\<lparr>rows = [?r], next_id = 2\<rparr>" "()" ?r Caller "()"]
    by (simp add: empty_table_def new_row_def) blast
qed

end
