(* ===== verification/Queue_Workers.thy ===== *)
theory Queue_Workers
  imports Queue_Routing Worker_Loop Retry
begin

text \<open>
  The workers of a queue (\<open>queue/workers.go\<close>, \<open>queue/backlog.go\<close>): the consumer that is
  the source, handler and sink of a processor, the runnables built around it, and the
  contract between a processor and a source of leased items, as a locale. The state is the
  table and the environment of the store; metrics are not modelled.
\<close>

section \<open>Configuration\<close>

record queue_config =
  q_Queue :: string
  Concurrency :: int
  Batch :: int
  Timeout :: duration
  q_Poll :: duration

definition cmp_Or :: "int \<Rightarrow> int \<Rightarrow> int" where
  "cmp_Or x d = (if x \<noteq> 0 then x else d)"

definition queue_withDefaults :: "queue_config \<Rightarrow> queue_config" where
  "queue_withDefaults c =
     c\<lparr>Concurrency := cmp_Or (Concurrency c) 1, Batch := cmp_Or (Batch c) 1,
       Timeout := cmp_Or (Timeout c) (30 * second), q_Poll := cmp_Or (q_Poll c) second\<rparr>"

definition lease :: "queue_config \<Rightarrow> duration" where
  "lease c = wrap64 (wrap64 (3 * Timeout c) + 10 * second)"

definition deadRetention :: duration where "deadRetention = 7 * 24 * hour"
definition cleanInterval :: duration where "cleanInterval = hour"
definition backlogInterval :: duration where "backlogInterval = 30 * second"

text \<open>The options of \<open>Workers\<close>; a zero field of the backoff gets its default.\<close>

record 'w queue_options =
  o_backoff :: backoff
  o_onPanic :: "(ctx \<Rightarrow> task \<Rightarrow> go_error \<Rightarrow> 'w \<Rightarrow> err \<times> 'w) option"
  o_metrics :: bool

definition newOptions :: "'w queue_options \<Rightarrow> 'w queue_options" where
  "newOptions o' =
     o'\<lparr>o_backoff := (o_backoff o')
       \<lparr>Base := cmp_Or (Base (o_backoff o')) (2 * second),
        Factor := (if Factor (o_backoff o') \<noteq> Fin 0 then Factor (o_backoff o') else Fin 2),
        Max_delay := cmp_Or (Max_delay (o_backoff o')) (5 * minute)\<rparr>\<rparr>"

definition processorOnPanic ::
    "'w queue_options \<Rightarrow> (ctx \<Rightarrow> leased \<Rightarrow> go_error \<Rightarrow> 'w \<Rightarrow> err \<times> 'w) option" where
  "processorOnPanic o' = map_option (\<lambda>f c t p w. f c (task.truncate t) p w) (o_onPanic o')"

section \<open>Consumer\<close>

record 'e consumer =
  c_env :: "'e pg_env"
  c_cfg :: queue_config
  c_h :: "(table \<times> 'e) jobfunc"
  c_backoff :: backoff
  c_convert :: "f64 \<Rightarrow> int"

definition consumer_Claim ::
    "'e consumer \<Rightarrow> ctx \<Rightarrow> instant \<Rightarrow> int \<Rightarrow> table \<times> 'e \<Rightarrow> (leased list \<times> err) \<times> table \<times> 'e" where
  "consumer_Claim c x tm limit s = pg_claim (c_env c) (q_Queue (c_cfg c)) tm (lease (c_cfg c)) limit s"

definition consumer_Handle ::
    "'e consumer \<Rightarrow> ctx \<Rightarrow> leased \<Rightarrow> table \<times> 'e \<Rightarrow> err outcome \<times> table \<times> 'e" where
  "consumer_Handle c x t s = (case Call (c_h c x (task.truncate t)) s of (e, s) \<Rightarrow> (Ret e, s))"

definition consumer_MarkDone ::
    "'e consumer \<Rightarrow> ctx \<Rightarrow> leased \<Rightarrow> instant \<Rightarrow> table \<times> 'e \<Rightarrow> err \<times> table \<times> 'e" where
  "consumer_MarkDone c x t tm s = pg_markDone (c_env c) t s"

definition consumer_MarkFailed ::
    "'e consumer \<Rightarrow> ctx \<Rightarrow> leased \<Rightarrow> string \<Rightarrow> bool \<Rightarrow> instant \<Rightarrow> table \<times> 'e \<Rightarrow> err \<times> table \<times> 'e" where
  "consumer_MarkFailed c x t msg perm tm s =
     (let att = Attempts t + 1;
          dead = (perm \<or> Exhausted (c_backoff c) att)
      in pg_markFailed (c_env c) t msg dead tm (tm + Next (c_convert c) (c_backoff c) att) s)"

definition consumer_Release ::
    "'e consumer \<Rightarrow> ctx \<Rightarrow> leased list \<Rightarrow> table \<times> 'e \<Rightarrow> err \<times> table \<times> 'e" where
  "consumer_Release c x rest s = pg_release (c_env c) rest s"

definition consumer_steps :: "'e consumer \<Rightarrow> (table \<times> 'e, leased) steps" where
  "consumer_steps c = \<lparr>Claim = Some (consumer_Claim c), Handle = Some (consumer_Handle c),
     MarkDone = Some (consumer_MarkDone c), MarkFailed = Some (consumer_MarkFailed c),
     Release = Some (consumer_Release c)\<rparr>"

text \<open>The system clock, read from the environment of the store.\<close>

definition table_clock :: "'e pg_env \<Rightarrow> table \<times> 'e \<Rightarrow> instant \<times> table \<times> 'e" where
  "table_clock env = (\<lambda>(t, e). case sys_now env e of (n, e) \<Rightarrow> (n, t, e))"

definition newProcessor ::
    "(ctx \<Rightarrow> table \<times> 'e \<Rightarrow> err) \<Rightarrow> 'e consumer \<Rightarrow> (table \<times> 'e) queue_options \<Rightarrow>
     (table \<times> 'e, leased) processor outcome" where
  "newProcessor ctxe c o' =
     NewProcessor (table_clock (c_env c)) ctxe (consumer_steps c)
       \<lparr>pc_Name = ''queue-'' @ q_Queue (c_cfg c), BatchSize = Batch (c_cfg c),
        HandleTimeout = Timeout (c_cfg c), BatchTimeout = Timeout (c_cfg c),
        pc_IsTerminal = Some (\<lambda>e. isPermanent (Some e)), IsHalt = Some (\<lambda>e. is_halt (Some e)),
        OnPanic = processorOnPanic o', Now = None\<rparr>"

section \<open>Workers\<close>

text \<open>The runnables of a queue: claim loops, the cleaner, the backlog reader.\<close>

datatype queue_runnable =
    Claim_loop loopConfig
  | Cleaner_loop loopConfig
  | Backlog_loop loopConfig

definition plain_loop :: "string \<Rightarrow> duration \<Rightarrow> bool \<Rightarrow> duration \<Rightarrow> loopConfig" where
  "plain_loop name interval first timeout =
     loop_defaults \<lparr>lc_Name = name, Interval = interval, ImmediateFirstTick = first,
       TickTimeout = timeout, Trace = False, BusyInterval = 0, MaxIdleInterval = 0\<rparr>"

definition newCleaner :: "string \<Rightarrow> queue_runnable" where
  "newCleaner queue = Cleaner_loop (plain_loop (''queue-'' @ queue @ ''-cleaner'') cleanInterval False 0)"

definition newBacklogLoop :: "string \<Rightarrow> queue_runnable" where
  "newBacklogLoop queue =
     Backlog_loop (plain_loop (''queue-'' @ queue @ ''-backlog'') backlogInterval True backlogInterval)"

text \<open>The tick of the cleaner.\<close>

definition clean_tick :: "'e pg_env \<Rightarrow> string \<Rightarrow> table \<times> 'e \<Rightarrow> err \<times> table \<times> 'e" where
  "clean_tick env queue s =
     (case table_clock env s of (tm, s) \<Rightarrow>
        (case pg_cleanup env queue (tm - deadRetention) s of ((n, e), s) \<Rightarrow> (e, s)))"

text \<open>The gauges of the backlog and the tick that reads them.\<close>

definition backlog_read ::
    "'e pg_env \<Rightarrow> string \<Rightarrow> stats \<Rightarrow> table \<times> 'e \<Rightarrow> (err \<times> stats) \<times> table \<times> 'e" where
  "backlog_read env queue gauges s =
     (case table_clock env s of (tm, s) \<Rightarrow>
        (case pg_stats env queue tm s of ((st, e), s) \<Rightarrow>
           if e \<noteq> None then ((e, gauges), s) else ((None, st), s)))"

text \<open>\<open>Workers\<close>; a capacity below zero makes \<open>make\<close> panic.\<close>

definition Workers :: "queue_config \<Rightarrow> bool \<Rightarrow> 'w queue_options \<Rightarrow> (go_error + queue_runnable list) outcome" where
  "Workers cfg has_handler o' =
     (if q_Queue cfg = [] then Ret (Inl (Plain ''queue workers: queue is required''))
      else if \<not> has_handler then Ret (Inl (Plain ''queue workers: handler is nil''))
      else let c = queue_withDefaults cfg in
        if Concurrency c + 2 < 0 then Panics ''runtime error: makeslice: cap out of range''
        else Ret (Inr (replicate (nat (Concurrency c))
                    (Claim_loop (plain_loop (''queue-'' @ q_Queue c) (q_Poll c) True 0)) @
                  [newCleaner (q_Queue c)] @
                  (if o_metrics o' then [newBacklogLoop (q_Queue c)] else []))))"

section \<open>The contract of a leased source\<close>

text \<open>
  What a processor relies on: its source holds leases, named by a key of the item; handling
  leaves them alone; a mark gives back the lease of its item, a release those of its items.
  Then a drain gives back every lease of its batch.
\<close>

locale lease_source =
  fixes p :: "('w, 't) processor"
    and rel :: "ctx \<Rightarrow> 't list \<Rightarrow> 'w \<Rightarrow> err \<times> 'w"
    and lease_key :: "'t \<Rightarrow> 'k"
    and held :: "'w \<Rightarrow> 'k set"
    and one_batch :: "'t list \<Rightarrow> bool"
  assumes has_release: "releaser p = Some rel"
    and now_keeps: "now p w = (t, w') \<Longrightarrow> held w' = held w"
    and handler_keeps: "handler p c x w = (r, w') \<Longrightarrow> held w' = held w"
    and panic_keeps: "onPanic p c x e w = (r', w') \<Longrightarrow> held w' = held w"
    and done_frees: "markDone p c x t w = (r', w') \<Longrightarrow> held w' = held w - {lease_key x}"
    and failed_frees: "markFailed p c x m b t w = (r', w') \<Longrightarrow> held w' = held w - {lease_key x}"
    and release_frees: "one_batch xs \<Longrightarrow> rel c xs w = (r', w') \<Longrightarrow> held w' = held w - lease_key ` set xs"
    and batch_tail: "one_batch (x # xs) \<Longrightarrow> one_batch xs"
begin

lemma expired_keeps: "expired p c start w = (b, w') \<Longrightarrow> held w' = held w"
  by (auto simp: expired_def split: if_splits prod.splits dest: now_keeps)

lemma handle_keeps: "handle p c x w = (e, w') \<Longrightarrow> held w' = held w"
  by (auto simp: handle_def bounded_def Call_def split: prod.splits outcome.splits option.splits if_splits
      dest: handler_keeps panic_keeps)

lemma handleOne_frees: "handleOne p c x w = (e, w') \<Longrightarrow> held w' = held w - {lease_key x}"
  by (auto simp: handleOne_def settle_def split: prod.splits option.splits
      dest!: now_keeps handle_keeps done_frees failed_frees)

lemma release_rest_frees: "one_batch xs \<Longrightarrow> held (release p c xs w) = held w - lease_key ` set xs"
  using release_frees [OF _ surjective_pairing, of xs]
  by (cases xs) (simp_all add: release_def has_release settle_def)

lemma drain_loop_frees:
  "one_batch items \<Longrightarrow> drain_loop p c start items w = (h, w') \<Longrightarrow>
   held w' = held w - lease_key ` set items"
proof (induction items arbitrary: w)
  case (Cons x xs)
  obtain b w1 where ex: "expired p c start w = (b, w1)" by force
  obtain e w2 where ho: "handleOne p c x w1 = (e, w2)" by force
  have w1: "held w1 = held w" using expired_keeps [OF ex] .
  have w2: "held w2 = held w - {lease_key x}" using handleOne_frees [OF ho] w1 by simp
  have xs: "one_batch xs" using batch_tail Cons.prems(1) by blast
  consider "b" | "\<not> b" "stops p e" | "\<not> b" "\<not> stops p e" by blast
  then show ?case
  proof cases
    case 1
    then show ?thesis using Cons.prems ex w1 release_rest_frees by auto
  next
    case 2
    then show ?thesis using Cons.prems(2) ex ho w2 release_rest_frees [OF xs] by auto
  next
    case 3
    then show ?thesis using Cons.prems(2) ex ho w2 Cons.IH [OF xs] by auto
  qed
qed simp

lemma drain_frees:
  assumes "now p w = (start, w1)" and "claim p c start (batchSize p) w1 = ((items, None), w2)"
    and "one_batch items"
  shows "held (snd (drain p c w)) = held w2 - lease_key ` set items"
proof -
  obtain h w3 where d: "drain_loop p c start items w2 = (h, w3)" by force
  with assms have "snd (drain p c w) = w3" by (simp add: drain_def)
  with drain_loop_frees [OF assms(3) d] show ?thesis by simp
qed

end

section \<open>The consumer is a leased source\<close>

definition held_leases :: "table \<times> 'e \<Rightarrow> (int \<times> string) set" where
  "held_leases s = {(r_id r, l) | r l. r \<in> set (rows (fst s)) \<and> r_lease r = Some l}"

definition lease_of :: "leased \<Rightarrow> int \<times> string" where
  "lease_of t = (ID t, leaseID t)"

definition one_lease :: "leased list \<Rightarrow> bool" where
  "one_lease ts = list_all (\<lambda>t. leaseID t = leaseID (hd ts)) ts"

lemma held_leases_env: "held_leases (t, e) = held_leases (t, e')"
  by (simp add: held_leases_def)

lemma held_filter:
  "held_leases (t\<lparr>rows := filter (\<lambda>r. \<not> guarded i l r) (rows t)\<rparr>, e) = held_leases (t, e) - {(i, l)}"
  by (fastforce simp: held_leases_def guarded_def)

lemma held_clear:
  assumes "\<And>r. r_id (f r) = r_id r" and "\<And>r. r_lease (f r) = None"
  shows "held_leases (t\<lparr>rows := update_where P f (rows t)\<rparr>, e) =
         {(r_id r, l) | r l. r \<in> set (rows t) \<and> \<not> P r \<and> r_lease r = Some l}"
  by (force simp: held_leases_def set_update_where assms split: if_splits)

lemma held_mark:
  assumes "\<And>r. r_id (f r) = r_id r" and "\<And>r. r_lease (f r) = None"
  shows "held_leases (t\<lparr>rows := update_where (guarded i l) f (rows t)\<rparr>, e) = held_leases (t, e) - {(i, l)}"
  unfolding held_clear [OF assms] by (fastforce simp: held_leases_def guarded_def)

lemma held_release:
  "held_leases (t\<lparr>rows := update_where (\<lambda>r. r_id r \<in> I \<and> r_lease r = Some l) clear_lease (rows t)\<rparr>, e) =
   held_leases (t, e) - I \<times> {l}"
  by (subst held_clear) (simp, simp, fastforce simp: held_leases_def)

lemma run_stmt_works:
  assumes "fst (next_fault env e) = Works"
  shows "run_stmt env f (t, e) = (Inr (fst (f t)), snd (f t), snd (next_fault env e))"
  using assms by (cases "next_fault env e") (auto simp: run_stmt_def split: prod.splits)

lemma markDone_held:
  assumes "\<And>e. fst (next_fault env e) = Works" and "pg_markDone env x s = (r, s')"
  shows "held_leases s' = held_leases s - {lease_of x}"
proof (cases s)
  case (Pair t e)
  have "s' = (snd (sql_delete_done (ID x) (leaseID x) t), snd (next_fault env e))"
    using assms Pair by (auto simp: pg_markDone_def mark_result_def run_stmt_works)
  then show ?thesis
    using Pair by (simp add: sql_delete_done_def held_filter lease_of_def
        held_leases_env [of t e "snd (next_fault env e)"])
qed

lemma markFailed_held:
  assumes "\<And>e. fst (next_fault env e) = Works" and "pg_markFailed env x m d n ra s = (r, s')"
  shows "held_leases s' = held_leases s - {lease_of x}"
proof (cases s)
  case (Pair t e)
  define e' where "e' = snd (next_fault env e)"
  have s': "s' = (snd ((if d then sql_dead (ID x) (leaseID x) (Attempts x + 1) m n
        else sql_retry (ID x) (leaseID x) (Attempts x + 1) m ra) t), e')"
    using assms Pair by (auto simp: pg_markFailed_def mark_result_def run_stmt_works e'_def)
  have "held_leases s' = held_leases (t, e') - {(ID x, leaseID x)}"
    unfolding s' by (cases d) (simp_all add: sql_dead_def sql_retry_def held_mark)
  then show ?thesis using Pair by (simp add: lease_of_def held_leases_env [of t e' e])
qed

lemma release_held:
  assumes "\<And>e. fst (next_fault env e) = Works" and "one_lease xs" and "pg_release env xs s = (r, s')"
  shows "held_leases s' = held_leases s - lease_of ` set xs"
proof (cases xs)
  case Nil
  with assms(3) show ?thesis by (simp add: pg_release_def)
next
  case (Cons y ys)
  obtain t e where s: "s = (t, e)" by force
  define e' where "e' = snd (next_fault env e)"
  have s': "s' = (snd (sql_release (map ID xs) (leaseID y) t), e')"
    using assms(1,3) s Cons by (auto simp: pg_release_def run_stmt_works e'_def)
  have "lease_of ` set xs = set (map ID xs) \<times> {leaseID y}"
    using assms(2) Cons by (force simp: one_lease_def lease_of_def list_all_iff)
  then show ?thesis
    unfolding s' s by (simp add: sql_release_def held_release held_leases_env [of t e' e])
qed

lemma one_lease_tail: "one_lease (x # xs) \<Longrightarrow> one_lease xs"
  by (cases xs) (auto simp: one_lease_def list_all_iff)

text \<open>A consumer whose statements all work and whose handler leaves the leases alone.\<close>

locale queue_consumer =
  fixes cons :: "'e consumer"
    and opts :: "(table \<times> 'e) queue_options"
    and ctxe :: "ctx \<Rightarrow> table \<times> 'e \<Rightarrow> err"
    and p :: "(table \<times> 'e, leased) processor"
  assumes built: "newProcessor ctxe cons opts = Ret p"
    and statements_work: "fst (next_fault (c_env cons) e) = Works"
    and handler_leaves: "c_h cons c t s = (r, s') \<Longrightarrow> held_leases s' = held_leases s"
    and panic_leaves: "o_onPanic opts = Some f \<Longrightarrow> f c t x s = (r', s') \<Longrightarrow> held_leases s' = held_leases s"
begin

lemma processor_is:
  "claim p = consumer_Claim cons" "handler p = consumer_Handle cons"
  "markDone p = consumer_MarkDone cons" "markFailed p = consumer_MarkFailed cons"
  "releaser p = Some (consumer_Release cons)" "now p = table_clock (c_env cons)"
  "onPanic p = the (default_to retryPanic (processorOnPanic opts))"
  using built
  by (auto simp: newProcessor_def NewProcessor_def consumer_steps_def missing_def Let_def
      withDefaults_def default_to_def)

end

sublocale queue_consumer \<subseteq> lease_source p "consumer_Release cons" lease_of held_leases one_lease
proof unfold_locales
  fix c x w r w' t m b xs and e :: go_error and e' :: err
  show "releaser p = Some (consumer_Release cons)" by (rule processor_is)
  show "now p w = (t, w') \<Longrightarrow> held_leases w' = held_leases w"
    by (auto simp: processor_is table_clock_def held_leases_def split: prod.splits)
  show "handler p c x w = (r, w') \<Longrightarrow> held_leases w' = held_leases w"
    by (auto simp: processor_is consumer_Handle_def Call_def split: prod.splits outcome.splits
        dest: handler_leaves)
  show "onPanic p c x e w = (e', w') \<Longrightarrow> held_leases w' = held_leases w"
    by (auto simp: processor_is processorOnPanic_def default_to_def retryPanic_def
        split: option.splits dest: panic_leaves)
  show "markDone p c x t w = (e', w') \<Longrightarrow> held_leases w' = held_leases w - {lease_of x}"
    by (simp add: processor_is consumer_MarkDone_def markDone_held [OF statements_work])
  show "markFailed p c x m b t w = (e', w') \<Longrightarrow> held_leases w' = held_leases w - {lease_of x}"
    by (simp add: processor_is consumer_MarkFailed_def Let_def markFailed_held [OF statements_work])
  show "one_lease xs \<Longrightarrow> consumer_Release cons c xs w = (e', w') \<Longrightarrow>
      held_leases w' = held_leases w - lease_of ` set xs"
    by (simp add: consumer_Release_def release_held [OF statements_work])
  show "one_lease (x # xs) \<Longrightarrow> one_lease xs" by (rule one_lease_tail)
qed

text \<open>The backoff of a queue without options.\<close>

definition zero_backoff :: backoff where
  "zero_backoff = \<lparr>Base = 0, Max_delay = 0, Factor = Fin 0, MaxAttempts = 0, Jitter = Fin 0\<rparr>"

text \<open>The processor of a queue, written out; building it never panics.\<close>

definition queue_processor ::
    "(ctx \<Rightarrow> table \<times> 'e \<Rightarrow> err) \<Rightarrow> 'e consumer \<Rightarrow> (table \<times> 'e) queue_options \<Rightarrow>
     (table \<times> 'e, leased) processor" where
  "queue_processor ctxe c o' =
     \<lparr>claim = consumer_Claim c, handler = consumer_Handle c, markDone = consumer_MarkDone c,
      markFailed = consumer_MarkFailed c, releaser = Some (consumer_Release c),
      batchSize = (if Batch (c_cfg c) \<le> 0 then 100 else Batch (c_cfg c)),
      handleTimeout = Timeout (c_cfg c), batchTimeout = Timeout (c_cfg c),
      isTerminal = (\<lambda>e. isPermanent (Some e)), isHalt = (\<lambda>e. is_halt (Some e)),
      onPanic = the (default_to retryPanic (processorOnPanic o')),
      now = table_clock (c_env c), ctxErr = ctxe\<rparr>"

lemma newProcessor_Ret: "newProcessor ctxe c o' = Ret (queue_processor ctxe c o')"
  by (simp add: newProcessor_def NewProcessor_def consumer_steps_def missing_def Let_def
      withDefaults_def default_to_def queue_processor_def)

text \<open>
  The consumer of a queue whose mux has no handlers: every task is dead-lettered as
  unknown, and the table is not touched while it is handled.
\<close>

definition unrouted_consumer :: "queue_config \<Rightarrow> backoff \<Rightarrow> unit consumer" where
  "unrouted_consumer cfg b = \<lparr>c_env = calm_env, c_cfg = cfg, c_h = Mux_Handle (NewMux None),
     c_backoff = b, c_convert = (\<lambda>_. 0)\<rparr>"

definition no_options :: "backoff \<Rightarrow> 'w queue_options" where
  "no_options b = newOptions \<lparr>o_backoff = b, o_onPanic = None, o_metrics = False\<rparr>"

interpretation unrouted: queue_consumer "unrouted_consumer cfg b" "no_options b" "\<lambda>c s. None"
  "queue_processor (\<lambda>c s. None) (unrouted_consumer cfg b) (no_options b)"
  by unfold_locales
     (auto simp: newProcessor_Ret unrouted_consumer_def calm_env_def no_options_def newOptions_def
       Mux_Handle_def Mux_lookup_def NewMux_def unknownKind_def)

section \<open>A claim under a fresh lease\<close>

lemma row_of_filter:
  assumes "table_wf t" and "r \<in> set (rows t)" and "guarded i l r" and "r_id r = i"
  shows "row_of (t\<lparr>rows := filter (\<lambda>r. \<not> guarded i l r) (rows t)\<rparr>) j = (if j = i then None else row_of t j)"
proof (cases "j = i")
  case True
  have "\<not> (\<exists>r' \<in> set (rows t). r_id r' = i \<and> \<not> guarded i l r')"
    using assms wf_same_row [OF assms(1,2)] by metis
  then show ?thesis using True by (auto simp: row_of_None)
next
  case False
  have "List.find (\<lambda>r. r_id r = j) (filter (\<lambda>r. \<not> guarded i l r) xs) = List.find (\<lambda>r. r_id r = j) xs" for xs
    using False by (induction xs) (auto simp: guarded_def)
  with False show ?thesis by (simp add: row_of_def)
qed

lemma claimed_leases:
  assumes "sql_claim locked q n cutoff l limit t = (rs, u)"
    and "\<And>r. r \<in> set (rows t) \<Longrightarrow> r_lease r \<noteq> Some l"
  shows "{k \<in> held_leases (u, e). snd k = l} \<subseteq> lease_of ` set (toLeasedAll rs)"
proof
  fix k assume "k \<in> {k \<in> held_leases (u, e). snd k = l}"
  then obtain r where r: "r \<in> set (rows u)" "r_lease r = Some l" "k = (r_id r, l)"
    by (auto simp: held_leases_def)
  have "r_id r \<in> set (map r_id (next_rows locked q n cutoff limit (rows t)))"
    using r(1,2) assms by (auto simp: sql_claim_def Let_def set_update_where split: if_splits)
  then have "r_id r \<in> r_id ` set rs" using sql_claim_result [OF assms(1)] by (simp add: image_image)
  then obtain s where s: "s \<in> set rs" "r_id s = r_id r" by auto
  have "r_lease s = Some l" using s(1) sql_claim_result [OF assms(1)] by auto
  with s r(3) have "k = lease_of (toLeased s)"
    by (simp add: lease_of_def toLeased_def null_string_def)
  with s(1) show "k \<in> lease_of ` set (toLeasedAll rs)" by (simp add: toLeasedAll_def image_image)
qed

lemma claim_one_lease:
  "sql_claim locked q n cutoff l limit t = (rs, u) \<Longrightarrow> one_lease (toLeasedAll rs)"
proof -
  assume c: "sql_claim locked q n cutoff l limit t = (rs, u)"
  have "list_all (\<lambda>t. leaseID t = l) (toLeasedAll rs)"
    using sql_claim_result [OF c]
    by (auto simp: toLeasedAll_def toLeased_def null_string_def list_all_iff)
  then show ?thesis by (cases "toLeasedAll rs") (auto simp: one_lease_def list_all_iff)
qed

context queue_consumer
begin

lemma drain_returns_leases:
  assumes "sys_now (c_env cons) e = (n, e1)" and "new_uuid (c_env cons) e1 = (l, e2)"
    and "\<And>r. r \<in> set (rows tbl) \<Longrightarrow> r_lease r \<noteq> Some l"
  shows "(i, l) \<notin> held_leases (snd (drain p c (tbl, e)))"
proof -
  have n: "now p (tbl, e) = (n, tbl, e1)" by (simp add: processor_is table_clock_def assms(1))
  obtain rs u where c: "sql_claim (row_locked (c_env cons) e2) (q_Queue (c_cfg cons)) n
      (n - lease (c_cfg cons)) l (nat (batchSize p)) tbl = (rs, u)" by force
  obtain e3 where e3: "next_fault (c_env cons) e2 = (Works, e3)"
    using statements_work [of e2] by (cases "next_fault (c_env cons) e2") auto
  have cl: "claim p c n (batchSize p) (tbl, e1) = ((toLeasedAll rs, None), u, e3)"
    by (simp add: processor_is consumer_Claim_def pg_claim_def assms(2) run_stmt_def e3 c)
  from drain_frees [OF n cl claim_one_lease [OF c]]
  have "held_leases (snd (drain p c (tbl, e))) = held_leases (u, e3) - lease_of ` set (toLeasedAll rs)" .
  with claimed_leases [OF c assms(3), of e3] show ?thesis by auto
qed

end

section \<open>Properties\<close>

text \<open>
  C1: a tick of a queue worker gives back every lease it takes. As long as the statements
  work and the handler does not meddle with leases, no task is left under the lease of the
  claim when the drain ends, whether its handler succeeded, failed, panicked or halted the
  batch, or the batch ran out of time or was cancelled.
\<close>
theorem queue_drain_returns_leases:
  assumes "\<And>e. fst (next_fault (c_env cons) e) = Works"
    and "\<And>c t s r s'. c_h cons c t s = (r, s') \<Longrightarrow> held_leases s' = held_leases s"
    and "\<And>f c t x s r s'. o_onPanic opts = Some f \<Longrightarrow> f c t x s = (r, s') \<Longrightarrow> held_leases s' = held_leases s"
    and "newProcessor ctxe cons opts = Ret p"
    and "sys_now (c_env cons) e = (n, e1)" and "new_uuid (c_env cons) e1 = (l, e2)"
    and "\<And>r. r \<in> set (rows tbl) \<Longrightarrow> r_lease r \<noteq> Some l"
  shows "(i, l) \<notin> held_leases (snd (drain p c (tbl, e)))"
proof -
  have "queue_consumer cons opts ctxe p" by (unfold_locales) (use assms(1-4) in blast)+
  then show ?thesis by (rule queue_consumer.drain_returns_leases) (use assms(5-7) in auto)
qed

theorem queue_drain_returns_leases_witness:
  "(1, ''id'') \<notin> held_leases (snd (drain
     (queue_processor (\<lambda>c s. None) (unrouted_consumer
        \<lparr>q_Queue = ''q'', Concurrency = 1, Batch = 5, Timeout = second, q_Poll = second\<rparr> zero_backoff) (no_options zero_backoff))
     Caller (snd (sql_insert ''q'' ''k'' None [] 0 0 empty_table), ())))"
  by (rule queue_drain_returns_leases
        [where cons = "unrouted_consumer \<lparr>q_Queue = ''q'', Concurrency = 1, Batch = 5,
           Timeout = second, q_Poll = second\<rparr> zero_backoff" and opts = "no_options zero_backoff" and ctxe = "\<lambda>c s. None"
         and n = 0 and ?e1.0 = "()" and ?e2.0 = "()"])
     (auto simp: newProcessor_Ret unrouted_consumer_def calm_env_def no_options_def newOptions_def
       Mux_Handle_def Mux_lookup_def NewMux_def unknownKind_def sql_insert_def empty_table_def
       key_taken_def new_row_def)

text \<open>
  C10: a mark settles exactly its task. While the consumer holds the lease of a task,
  \<open>MarkDone\<close> removes it; \<open>MarkFailed\<close> counts the attempt, records the message and gives the
  lease back, and the task either runs again after the backoff of its attempts or, when the
  error is permanent or the attempts are spent, is dead from now on. No other row changes.
\<close>
theorem marks_settle_their_task:
  assumes "table_wf tbl" and "row_of tbl (ID x) = Some r" and "r_lease r = Some (leaseID x)"
    and "next_fault (c_env cons) e = (Works, e')"
  shows "\<exists>done_tbl fail_tbl.
     consumer_MarkDone cons c x n (tbl, e) = (None, done_tbl, e') \<and>
     row_of done_tbl (ID x) = None \<and> (\<forall>j. j \<noteq> ID x \<longrightarrow> row_of done_tbl j = row_of tbl j) \<and>
     consumer_MarkFailed cons c x msg perm n (tbl, e) = (None, fail_tbl, e') \<and>
     row_of fail_tbl (ID x) = Some
       (if perm \<or> Exhausted (c_backoff cons) (Attempts x + 1)
        then (clear_lease r)\<lparr>r_attempts := Attempts x + 1, r_error := Some msg, r_done_at := Some n\<rparr>
        else (clear_lease r)\<lparr>r_attempts := Attempts x + 1, r_error := Some msg,
               r_run_at := n + Next (c_convert cons) (c_backoff cons) (Attempts x + 1)\<rparr>) \<and>
     (\<forall>j. j \<noteq> ID x \<longrightarrow> row_of fail_tbl j = row_of tbl j)"
proof -
  have rin: "r \<in> set (rows tbl)" "r_id r = ID x"
    using assms(2) row_of_Some [OF assms(1)] by auto
  then have g: "guarded (ID x) (leaseID x) r" using assms(3) by (simp add: guarded_def)
  with rin(1) have cnt: "count_where (guarded (ID x) (leaseID x)) (rows tbl) \<noteq> 0"
    by (auto simp: count_where_zero)
  have keep: "map_option (\<lambda>r. if guarded (ID x) (leaseID x) r then f r else r) (row_of tbl j) = row_of tbl j"
    if "j \<noteq> ID x" for f j
  proof (cases "row_of tbl j")
    case (Some a)
    then have "r_id a = j" using row_of_Some [OF assms(1)] by blast
    with that Some show ?thesis by (simp add: guarded_def)
  qed simp
  have del: "row_of (tbl\<lparr>rows := filter (\<lambda>r. \<not> guarded (ID x) (leaseID x) r) (rows tbl)\<rparr>) j =
      (if j = ID x then None else row_of tbl j)" for j
    by (rule row_of_filter [OF assms(1) rin(1) g rin(2)])
  show ?thesis
    using cnt g assms(2,4)
    by (auto simp: consumer_MarkDone_def consumer_MarkFailed_def pg_markDone_def pg_markFailed_def
        run_stmt_def mark_result_def sql_delete_done_def sql_dead_def sql_retry_def del
        row_of_update_where keep Let_def)
qed

theorem marks_settle_their_task_witness:
  "\<exists>done_tbl. consumer_MarkDone (unrouted_consumer \<lparr>q_Queue = ''q'', Concurrency = 1, Batch = 5,
       Timeout = second, q_Poll = second\<rparr> zero_backoff) Caller (toLeased (hd (rows leased_table))) 20
       (leased_table, ()) = (None, done_tbl, ()) \<and> row_of done_tbl 1 = None"
proof -
  let ?cons = "unrouted_consumer \<lparr>q_Queue = ''q'', Concurrency = 1, Batch = 5, Timeout = second,
    q_Poll = second\<rparr> zero_backoff"
  obtain r where r: "rows leased_table = [r]" "r_lease r = Some ''l''" "r_id r = 1"
    by (simp add: leased_table_def sql_claim_def sql_insert_def empty_table_def next_rows_def
        ready_def new_row_def key_taken_def update_where_def set_lease_def)
  have wf: "table_wf leased_table"
    unfolding leased_table_def by (intro sql_claim_wf sql_insert_wf empty_table_wf)
  have x: "ID (toLeased r) = 1" "leaseID (toLeased r) = ''l''"
    by (simp_all add: toLeased_def r null_string_def)
  have "row_of leased_table (ID (toLeased r)) = Some r" by (simp add: row_of_def r x)
  moreover have "r_lease r = Some (leaseID (toLeased r))" by (simp add: r x)
  moreover have "next_fault (c_env ?cons) () = (Works, ())"
    by (simp add: unrouted_consumer_def calm_env_def)
  ultimately show ?thesis
    using marks_settle_their_task [OF wf, of "toLeased r" r ?cons "()" "()"] r(1) x(1) by force
qed

end
