(* ===== verification/Dedup.thy ===== *)
theory Dedup
  imports Go_Prelude
begin

text \<open>
  The package \<open>dedup\<close>: the two stores of key records, in memory (\<open>memory.go\<close>) and in Redis
  (\<open>redis.go\<close>), the interface they share as a locale, and \<open>Keeper.Do\<close> over it
  (\<open>dedup.go\<close>). Redis is its keyspace with expiry; a script runs atomically. The time of an
  operation, the fault of a round trip and fresh tokens come from an environment. An operation
  of the store in memory reads the clock in the same step in which it holds the mutex.
\<close>

section \<open>Interface\<close>

datatype dstate = Acquired | Running | Done

record 's store =
  acquire :: "fault \<Rightarrow> instant \<Rightarrow> string \<Rightarrow> string \<Rightarrow> duration \<Rightarrow> 's \<Rightarrow> (go_error + dstate \<times> string) \<times> 's"
  complete :: "fault \<Rightarrow> instant \<Rightarrow> string \<Rightarrow> string \<Rightarrow> string \<Rightarrow> duration \<Rightarrow> 's \<Rightarrow> (go_error + bool) \<times> 's"
  release :: "fault \<Rightarrow> instant \<Rightarrow> string \<Rightarrow> string \<Rightarrow> 's \<Rightarrow> err \<times> 's"

text \<open>What a store says of a key at a time.\<close>

datatype status = Free | Held string | Stored string

section \<open>Memory\<close>

record entry =
  e_token :: string
  e_value :: string
  e_expires :: instant

record memory =
  entries :: "string \<rightharpoonup> entry"
  swept :: instant

definition newMemory :: memory where
  "newMemory = \<lparr>entries = Map.empty, swept = 0\<rparr>"

definition sweepEvery :: duration where "sweepEvery = minute"

definition sweep :: "instant \<Rightarrow> memory \<Rightarrow> memory" where
  "sweep now m =
     (if clamp64 (now - swept m) < sweepEvery then m
      else m\<lparr>swept := now,
             entries := (\<lambda>k. case entries m k of
                None \<Rightarrow> None | Some e \<Rightarrow> if \<not> now < e_expires e then None else Some e)\<rparr>)"

definition memory_acquire ::
    "fault \<Rightarrow> instant \<Rightarrow> string \<Rightarrow> string \<Rightarrow> duration \<Rightarrow> memory \<Rightarrow> (go_error + dstate \<times> string) \<times> memory" where
  "memory_acquire f now key token lease m =
     (let m = sweep now m;
          fresh = (Inr (Acquired, []), m\<lparr>entries := (entries m)(key \<mapsto>
             \<lparr>e_token = token, e_value = [], e_expires = now + lease\<rparr>)\<rparr>)
      in case entries m key of
           Some e \<Rightarrow>
             if now < e_expires e
             then if e_token e \<noteq> [] then (Inr (Running, []), m) else (Inr (Done, e_value e), m)
             else fresh
         | None \<Rightarrow> fresh)"

definition memory_complete ::
    "fault \<Rightarrow> instant \<Rightarrow> string \<Rightarrow> string \<Rightarrow> string \<Rightarrow> duration \<Rightarrow> memory \<Rightarrow> (go_error + bool) \<times> memory" where
  "memory_complete f now key token v ttl m =
     (case entries m key of
        None \<Rightarrow> (Inr False, m)
      | Some e \<Rightarrow>
          if e_token e \<noteq> token \<or> \<not> now < e_expires e then (Inr False, m)
          else (Inr True, m\<lparr>entries := (entries m)(key \<mapsto>
                  \<lparr>e_token = [], e_value = v, e_expires = now + ttl\<rparr>)\<rparr>))"

text \<open>A missing entry reads as the zero entry, whose token is empty.\<close>

definition memory_release :: "fault \<Rightarrow> instant \<Rightarrow> string \<Rightarrow> string \<Rightarrow> memory \<Rightarrow> err \<times> memory" where
  "memory_release f now key token m =
     (None, if (case entries m key of None \<Rightarrow> [] | Some e \<Rightarrow> e_token e) = token
            then m\<lparr>entries := (entries m)(key := None)\<rparr> else m)"

definition memory_store :: "memory store" where
  "memory_store = \<lparr>acquire = memory_acquire, complete = memory_complete, release = memory_release\<rparr>"

definition memory_status :: "memory \<Rightarrow> instant \<Rightarrow> string \<Rightarrow> status" where
  "memory_status m now key =
     (case entries m key of
        None \<Rightarrow> Free
      | Some e \<Rightarrow> if now < e_expires e
                  then if e_token e \<noteq> [] then Held (e_token e) else Stored (e_value e)
                  else Free)"

section \<open>Redis\<close>

text \<open>The keyspace: the value of a key and the instant it expires at.\<close>

type_synonym redis = "string \<rightharpoonup> string \<times> instant"

definition redis_get :: "redis \<Rightarrow> instant \<Rightarrow> string \<Rightarrow> string option" where
  "redis_get db now k = (case db k of None \<Rightarrow> None | Some (v, x) \<Rightarrow> if now < x then Some v else None)"

definition redis_set_px :: "instant \<Rightarrow> string \<Rightarrow> string \<Rightarrow> int \<Rightarrow> redis \<Rightarrow> redis" where
  "redis_set_px now k v ms db = db(k \<mapsto> (v, now + ms * millisecond))"

definition redisPrefix :: string where "redisPrefix = ''dedup:''"
definition runningMark :: string where "runningMark = ''p:''"
definition doneMark :: string where "doneMark = ''d:''"

definition acquireScript :: "instant \<Rightarrow> string \<Rightarrow> string \<Rightarrow> int \<Rightarrow> redis \<Rightarrow> string option \<times> redis" where
  "acquireScript now key arg1 arg2 db =
     (case redis_get db now key of
        Some v \<Rightarrow> (Some v, db)
      | None \<Rightarrow> (None, redis_set_px now key arg1 arg2 db))"

definition completeScript ::
    "instant \<Rightarrow> string \<Rightarrow> string \<Rightarrow> string \<Rightarrow> int \<Rightarrow> redis \<Rightarrow> int \<times> redis" where
  "completeScript now key arg1 arg2 arg3 db =
     (if redis_get db now key = Some arg1 then (1, redis_set_px now key arg2 arg3 db) else (0, db))"

definition releaseScript :: "instant \<Rightarrow> string \<Rightarrow> string \<Rightarrow> redis \<Rightarrow> int \<times> redis" where
  "releaseScript now key arg1 db =
     (if redis_get db now key = Some arg1 then (1, db(key := None)) else (0, db))"

text \<open>One round trip that runs a script.\<close>

definition run_script :: "fault \<Rightarrow> (redis \<Rightarrow> 'a \<times> redis) \<Rightarrow> redis \<Rightarrow> (go_error + 'a) \<times> redis" where
  "run_script f script db =
     (case f of
        Works \<Rightarrow> (case script db of (r, db) \<Rightarrow> (Inr r, db))
      | Fails_before e \<Rightarrow> (Inl e, db)
      | Fails_after e \<Rightarrow> (Inl e, snd (script db)))"

definition millis :: "duration \<Rightarrow> int" where
  "millis d = max (if 0 \<le> d then d div millisecond else - ((- d) div millisecond)) 1"

definition redis_acquire ::
    "fault \<Rightarrow> instant \<Rightarrow> string \<Rightarrow> string \<Rightarrow> duration \<Rightarrow> redis \<Rightarrow> (go_error + dstate \<times> string) \<times> redis" where
  "redis_acquire f now key token lease db =
     (case run_script f (acquireScript now (redisPrefix @ key) (runningMark @ token) (millis lease)) db of
        (Inl e, db) \<Rightarrow> (Inl (Wrapf (''redis acquire: '' @ err_text e) e), db)
      | (Inr None, db) \<Rightarrow> (Inr (Acquired, []), db)
      | (Inr (Some v), db) \<Rightarrow>
          if has_prefix runningMark v then (Inr (Running, []), db)
          else case cut_prefix doneMark v of
            Some x \<Rightarrow> (Inr (Done, x), db)
          | None \<Rightarrow> (Inl (Plain (''redis acquire: key '' @ go_quote key @ '' is not a dedup record'')), db))"

definition redis_complete ::
    "fault \<Rightarrow> instant \<Rightarrow> string \<Rightarrow> string \<Rightarrow> string \<Rightarrow> duration \<Rightarrow> redis \<Rightarrow> (go_error + bool) \<times> redis" where
  "redis_complete f now key token v ttl db =
     (case run_script f (completeScript now (redisPrefix @ key) (runningMark @ token) (doneMark @ v) (millis ttl)) db of
        (Inl e, db) \<Rightarrow> (Inl (Wrapf (''redis complete: '' @ err_text e) e), db)
      | (Inr n, db) \<Rightarrow> (Inr (n = 1), db))"

definition redis_release :: "fault \<Rightarrow> instant \<Rightarrow> string \<Rightarrow> string \<Rightarrow> redis \<Rightarrow> err \<times> redis" where
  "redis_release f now key token db =
     (case run_script f (releaseScript now (redisPrefix @ key) (runningMark @ token)) db of
        (Inl e, db) \<Rightarrow> (Some (Wrapf (''redis release: '' @ err_text e) e), db)
      | (Inr _, db) \<Rightarrow> (None, db))"

definition redis_store :: "redis store" where
  "redis_store = \<lparr>acquire = redis_acquire, complete = redis_complete, release = redis_release\<rparr>"

definition redis_status :: "redis \<Rightarrow> instant \<Rightarrow> string \<Rightarrow> status" where
  "redis_status db now key =
     (case redis_get db now (redisPrefix @ key) of
        None \<Rightarrow> Free
      | Some v \<Rightarrow> (case cut_prefix runningMark v of
          Some t \<Rightarrow> Held t
        | None \<Rightarrow> (case cut_prefix doneMark v of Some x \<Rightarrow> Stored x | None \<Rightarrow> Free)))"

text \<open>Every key under the prefix is a dedup record.\<close>

definition redis_ok :: "redis \<Rightarrow> bool" where
  "redis_ok db = (\<forall>k v x. db (redisPrefix @ k) = Some (v, x) \<longrightarrow> has_prefix runningMark v \<or> has_prefix doneMark v)"

section \<open>The contract of a store\<close>

text \<open>
  \<open>status\<close> reads the state of a key at a time, \<open>life\<close> is how long a record asked to live for
  a duration lives. An operation that works changes the status of its key as its comment
  says and of no other key, now and at any later time.
\<close>

definition status_set ::
    "('s \<Rightarrow> instant \<Rightarrow> string \<Rightarrow> status) \<Rightarrow> 's \<Rightarrow> 's \<Rightarrow> instant \<Rightarrow> string \<Rightarrow> status \<Rightarrow> duration \<Rightarrow> bool" where
  "status_set status s s' now key st d =
     (\<forall>t \<ge> now. \<forall>k. status s' t k =
        (if k = key then (if t < now + d then st else Free) else status s t k))"

definition status_same :: "('s \<Rightarrow> instant \<Rightarrow> string \<Rightarrow> status) \<Rightarrow> 's \<Rightarrow> 's \<Rightarrow> instant \<Rightarrow> bool" where
  "status_same status s s' now = (\<forall>t \<ge> now. \<forall>k. status s' t k = status s t k)"

locale dedup_store =
  fixes st :: "'s store"
    and status :: "'s \<Rightarrow> instant \<Rightarrow> string \<Rightarrow> status"
    and life :: "duration \<Rightarrow> duration"
    and ok :: "'s \<Rightarrow> bool"
  assumes acquire_free: "ok s \<Longrightarrow> status s now key = Free \<Longrightarrow> token \<noteq> [] \<Longrightarrow>
      \<exists>s'. acquire st Works now key token d s = (Inr (Acquired, []), s') \<and> ok s' \<and>
           status_set status s s' now key (Held token) (life d)"
    and acquire_held: "ok s \<Longrightarrow> status s now key = Held token' \<Longrightarrow>
      \<exists>s'. acquire st Works now key token d s = (Inr (Running, []), s') \<and> ok s' \<and>
           status_same status s s' now"
    and acquire_stored: "ok s \<Longrightarrow> status s now key = Stored v \<Longrightarrow>
      \<exists>s'. acquire st Works now key token d s = (Inr (Done, v), s') \<and> ok s' \<and>
           status_same status s s' now"
    and complete_held: "ok s \<Longrightarrow> token \<noteq> [] \<Longrightarrow> status s now key = Held token \<Longrightarrow>
      \<exists>s'. complete st Works now key token v d s = (Inr True, s') \<and> ok s' \<and>
           status_set status s s' now key (Stored v) (life d)"
    and complete_lost: "ok s \<Longrightarrow> token \<noteq> [] \<Longrightarrow> status s now key \<noteq> Held token \<Longrightarrow>
      \<exists>s'. complete st Works now key token v d s = (Inr False, s') \<and> ok s' \<and>
           status_same status s s' now"
    and release_held: "ok s \<Longrightarrow> token \<noteq> [] \<Longrightarrow> status s now key = Held token \<Longrightarrow>
      \<exists>s'. release st Works now key token s = (None, s') \<and> ok s' \<and>
           status_set status s s' now key Free 0"
    and release_lost: "ok s \<Longrightarrow> token \<noteq> [] \<Longrightarrow> status s now key \<noteq> Held token \<Longrightarrow>
      \<exists>s'. release st Works now key token s = (None, s') \<and> ok s' \<and>
           status_same status s s' now"

section \<open>Both stores keep the contract\<close>

lemma sweep_status: "status_same memory_status m (sweep now m) now"
  by (auto simp: status_same_def sweep_def memory_status_def split: option.splits)

lemma sweep_status_now: "memory_status (sweep now m) now k = memory_status m now k"
  using sweep_status by (simp add: status_same_def)

lemma status_set_after_same:
  "status_same status s s1 now \<Longrightarrow> status_set status s1 s2 now key x d \<Longrightarrow> status_set status s s2 now key x d"
  by (simp add: status_same_def status_set_def)

lemma memory_set_entry:
  assumes "(\<forall>t. memory_status \<lparr>entries = [key \<mapsto> e], swept = 0\<rparr> t key = (if t < now + d then x else Free))"
  shows "status_set memory_status m (m\<lparr>entries := (entries m)(key \<mapsto> e)\<rparr>) now key x d"
  using assms by (auto simp: status_set_def memory_status_def split: option.splits)

lemma memory_acquire_free:
  assumes "memory_status m now key = Free" and "token \<noteq> []"
  shows "\<exists>m'. memory_acquire Works now key token d m = (Inr (Acquired, []), m') \<and>
           status_set memory_status m m' now key (Held token) d"
proof -
  let ?e = "\<lparr>e_token = token, e_value = [], e_expires = now + d\<rparr>"
  have set: "status_set memory_status m ((sweep now m)\<lparr>entries := (entries (sweep now m))(key \<mapsto> ?e)\<rparr>)
      now key (Held token) d"
    by (rule status_set_after_same [OF sweep_status memory_set_entry])
       (simp add: memory_status_def assms(2))
  have "memory_status (sweep now m) now key = Free" using assms(1) by (simp add: sweep_status_now)
  with set show ?thesis
    by (auto simp: memory_acquire_def Let_def memory_status_def split: option.splits if_splits)
qed

interpretation memory: dedup_store memory_store memory_status "\<lambda>d. d" "\<lambda>m. True"
proof unfold_locales
  fix m :: memory and now key token token' v d
  show "memory_status m now key = Free \<Longrightarrow> token \<noteq> [] \<Longrightarrow>
      \<exists>s'. acquire memory_store Works now key token d m = (Inr (Acquired, []), s') \<and> True \<and>
        status_set memory_status m s' now key (Held token) d"
    using memory_acquire_free by (simp add: memory_store_def)
  show "memory_status m now key = Held token' \<Longrightarrow>
      \<exists>s'. acquire memory_store Works now key token d m = (Inr (Running, []), s') \<and> True \<and>
        status_same memory_status m s' now"
    using sweep_status [of m now] sweep_status_now [of now m key]
    by (auto simp: memory_store_def memory_acquire_def Let_def memory_status_def
        split: option.splits if_splits)
  show "memory_status m now key = Stored v \<Longrightarrow>
      \<exists>s'. acquire memory_store Works now key token d m = (Inr (Done, v), s') \<and> True \<and>
        status_same memory_status m s' now"
    using sweep_status [of m now] sweep_status_now [of now m key]
    by (auto simp: memory_store_def memory_acquire_def Let_def memory_status_def
        split: option.splits if_splits)
  show "token \<noteq> [] \<Longrightarrow> memory_status m now key = Held token \<Longrightarrow>
      \<exists>s'. complete memory_store Works now key token v d m = (Inr True, s') \<and> True \<and>
        status_set memory_status m s' now key (Stored v) d"
    by (auto simp: memory_store_def memory_complete_def memory_status_def
        split: option.splits if_splits intro!: memory_set_entry)
  show "token \<noteq> [] \<Longrightarrow> memory_status m now key \<noteq> Held token \<Longrightarrow>
      \<exists>s'. complete memory_store Works now key token v d m = (Inr False, s') \<and> True \<and>
        status_same memory_status m s' now"
    by (auto simp: memory_store_def memory_complete_def memory_status_def status_same_def
        split: option.splits if_splits)
  show "token \<noteq> [] \<Longrightarrow> memory_status m now key = Held token \<Longrightarrow>
      \<exists>s'. release memory_store Works now key token m = (None, s') \<and> True \<and>
        status_set memory_status m s' now key Free 0"
    by (auto simp: memory_store_def memory_release_def memory_status_def status_set_def
        split: option.splits if_splits)
  show "token \<noteq> [] \<Longrightarrow> memory_status m now key \<noteq> Held token \<Longrightarrow>
      \<exists>s'. release memory_store Works now key token m = (None, s') \<and> True \<and>
        status_same memory_status m s' now"
    by (auto simp: memory_store_def memory_release_def memory_status_def status_same_def
        split: option.splits if_splits)
qed

lemma marks_differ [simp]:
  "cut_prefix runningMark (runningMark @ t) = Some t" "cut_prefix doneMark (doneMark @ v) = Some v"
  "cut_prefix runningMark (doneMark @ v) = None" "has_prefix runningMark (runningMark @ t)"
  "has_prefix doneMark (doneMark @ v)" "doneMark @ v \<noteq> runningMark @ t"
  by (simp_all add: has_prefix_def) (simp_all add: runningMark_def doneMark_def)

lemma redis_get_set:
  "redis_get (redis_set_px now k v ms db) t k' =
     (if k' = k then (if t < now + ms * millisecond then Some v else None) else redis_get db t k')"
  by (simp add: redis_get_def redis_set_px_def)

lemma redis_ok_set: "redis_ok db \<Longrightarrow> has_prefix runningMark v \<or> has_prefix doneMark v \<Longrightarrow>
    redis_ok (redis_set_px now k v ms db)"
  by (auto simp: redis_ok_def redis_set_px_def)

lemma redis_ok_del: "redis_ok db \<Longrightarrow> redis_ok (db(k := None))"
  by (simp add: redis_ok_def)

lemma redis_ok_get:
  assumes "redis_ok db" and "redis_get db now (redisPrefix @ key) = Some v"
  shows "has_prefix runningMark v \<or> has_prefix doneMark v"
proof -
  obtain x where "db (redisPrefix @ key) = Some (v, x)"
    using assms(2) by (auto simp: redis_get_def split: option.splits if_splits)
  with assms(1) show ?thesis unfolding redis_ok_def by blast
qed

lemma redis_status_Held:
  "redis_status db now key = Held t \<longleftrightarrow> redis_get db now (redisPrefix @ key) = Some (runningMark @ t)"
  by (auto simp: redis_status_def cut_prefix_Some split: option.splits)

lemma redis_status_Free:
  "redis_ok db \<Longrightarrow> redis_status db now key = Free \<longleftrightarrow> redis_get db now (redisPrefix @ key) = None"
  using redis_ok_get [of db now key]
  by (auto simp: redis_status_def has_prefix_def split: option.splits)

definition redis_life :: "duration \<Rightarrow> duration" where
  "redis_life d = millis d * millisecond"

lemma redis_set_status:
  assumes "\<And>t. redis_status [redisPrefix @ key \<mapsto> (v, t + 1)] t key = x"
  shows "status_set redis_status db (redis_set_px now (redisPrefix @ key) v (millis d) db) now key x (redis_life d)"
  using assms [of 0]
  by (auto simp: status_set_def redis_status_def redis_get_set redis_life_def)
     (auto simp: redis_get_def)

interpretation redis: dedup_store redis_store redis_status redis_life redis_ok
proof unfold_locales
  fix db :: redis and now key token token' v d
  assume ok: "redis_ok db"
  show "redis_status db now key = Free \<Longrightarrow> token \<noteq> [] \<Longrightarrow>
      \<exists>s'. acquire redis_store Works now key token d db = (Inr (Acquired, []), s') \<and> redis_ok s' \<and>
        status_set redis_status db s' now key (Held token) (redis_life d)"
    using redis_set_status [of key "runningMark @ token" "Held token" db now d] ok
    by (auto simp: redis_store_def redis_acquire_def run_script_def acquireScript_def
        redis_status_Free redis_status_Held redis_get_def redis_ok_set)
  show "redis_status db now key = Held token' \<Longrightarrow>
      \<exists>s'. acquire redis_store Works now key token d db = (Inr (Running, []), s') \<and> redis_ok s' \<and>
        status_same redis_status db s' now"
    using ok by (auto simp: redis_store_def redis_acquire_def run_script_def acquireScript_def
        redis_status_Held status_same_def)
  show "redis_status db now key = Stored v \<Longrightarrow>
      \<exists>s'. acquire redis_store Works now key token d db = (Inr (Done, v), s') \<and> redis_ok s' \<and>
        status_same redis_status db s' now"
    using ok by (auto simp: redis_store_def redis_acquire_def run_script_def acquireScript_def
        redis_status_def status_same_def has_prefix_def split: option.splits)
  assume tok: "token \<noteq> []"
  show "redis_status db now key = Held token \<Longrightarrow>
      \<exists>s'. complete redis_store Works now key token v d db = (Inr True, s') \<and> redis_ok s' \<and>
        status_set redis_status db s' now key (Stored v) (redis_life d)"
    using redis_set_status [of key "doneMark @ v" "Stored v" db now d] ok
    by (auto simp: redis_store_def redis_complete_def run_script_def completeScript_def
        redis_status_Held redis_ok_set) (auto simp: redis_status_def redis_get_def)
  show "redis_status db now key \<noteq> Held token \<Longrightarrow>
      \<exists>s'. complete redis_store Works now key token v d db = (Inr False, s') \<and> redis_ok s' \<and>
        status_same redis_status db s' now"
    using ok by (auto simp: redis_store_def redis_complete_def run_script_def completeScript_def
        redis_status_Held status_same_def)
  show "redis_status db now key = Held token \<Longrightarrow>
      \<exists>s'. release redis_store Works now key token db = (None, s') \<and> redis_ok s' \<and>
        status_set redis_status db s' now key Free 0"
    using ok by (auto simp: redis_store_def redis_release_def run_script_def releaseScript_def
        redis_status_Held redis_ok_del) (auto simp: status_set_def redis_status_def redis_get_def)
  show "redis_status db now key \<noteq> Held token \<Longrightarrow>
      \<exists>s'. release redis_store Works now key token db = (None, s') \<and> redis_ok s' \<and>
        status_same redis_status db s' now"
    using ok by (auto simp: redis_store_def redis_release_def run_script_def releaseScript_def
        redis_status_Held status_same_def)
qed

section \<open>Keeper\<close>

record 's keeper =
  k_st :: "'s store"
  k_ttl :: duration
  k_lease :: duration

definition defaultTTL :: duration where "defaultTTL = 24 * hour"
definition defaultLease :: duration where "defaultLease = minute"
definition settleTimeout :: duration where "settleTimeout = 5 * second"

definition newKeeper :: "'s store \<Rightarrow> duration \<Rightarrow> duration \<Rightarrow> 's keeper" where
  "newKeeper st ttl lease =
     \<lparr>k_st = st, k_ttl = (if max ttl 0 \<noteq> 0 then max ttl 0 else defaultTTL),
      k_lease = (if max lease 0 \<noteq> 0 then max lease 0 else defaultLease)\<rparr>"

definition NewMemory :: "duration \<Rightarrow> duration \<Rightarrow> memory keeper" where
  "NewMemory ttl lease = newKeeper memory_store ttl lease"

definition NewRedis :: "duration \<Rightarrow> duration \<Rightarrow> redis keeper" where
  "NewRedis ttl lease = newKeeper redis_store ttl lease"

text \<open>
  \<open>New\<close>: the keeper a URI names. \<open>parseURL\<close> is that of the Redis client, \<open>url_Err\<close> the cause
  of the URL error in a chain.
\<close>

datatype 'o opened = In_memory "memory keeper" | Over_client 'o "redis keeper"

definition New ::
    "(string \<Rightarrow> go_error + 'o) \<Rightarrow> (go_error \<Rightarrow> go_error option) \<Rightarrow> string \<Rightarrow> duration \<Rightarrow> duration \<Rightarrow>
     go_error + 'o opened" where
  "New parseURL url_Err uri ttl lease =
     (case cut ''://'' uri of (scheme, rest, found) \<Rightarrow>
        if \<not> found then Inl (Plain ''dedup: the store uri has no scheme: want mem:// or redis://'')
        else if scheme = ''mem'' then
          (if rest \<noteq> [] then Inl (Plain (''dedup: the store mem:// takes nothing after the scheme, got '' @ go_quote rest))
           else Inr (In_memory (newKeeper memory_store ttl lease)))
        else if scheme = ''redis'' \<or> scheme = ''rediss'' \<or> scheme = ''unix'' then
          (case parseURL uri of
             Inl e \<Rightarrow> (let e = (case url_Err e of Some x \<Rightarrow> x | None \<Rightarrow> e) in Inl (Wrapf (''dedup: '' @ err_text e) e))
           | Inr o1 \<Rightarrow> Inr (Over_client o1 (newKeeper redis_store ttl lease)))
        else Inl (Plain (''dedup: unknown store '' @ go_quote scheme @ '': want mem:// or redis://'')))"

text \<open>What a call draws from outside: the time, the fault of the next round trip, a token.\<close>

record 'e keeper_env =
  k_now :: "'e \<Rightarrow> instant \<times> 'e"
  k_fault :: "'e \<Rightarrow> fault \<times> 'e"
  k_token :: "'e \<Rightarrow> string \<times> 'e"

definition ErrInProgress :: string where "ErrInProgress = ''dedup: in progress''"
definition ErrUnavailable :: string where "ErrUnavailable = ''dedup: store unavailable''"
definition errEmptyKey :: string where "errEmptyKey = ''dedup: empty key''"

definition decode :: "(string \<Rightarrow> go_error + 'v) \<Rightarrow> 'v \<Rightarrow> string \<Rightarrow> string \<Rightarrow> 'v \<times> err" where
  "decode unmarshal zero key stored =
     (case unmarshal stored of
        Inl e \<Rightarrow> (zero, Some (Wrapf (''dedup: decode '' @ go_quote key @ '': '' @ err_text e) e))
      | Inr v \<Rightarrow> (v, None))"

definition keeper_complete ::
    "'e keeper_env \<Rightarrow> 's keeper \<Rightarrow> string \<Rightarrow> string \<Rightarrow> string \<Rightarrow> 's \<times> 'e \<Rightarrow> 's \<times> 'e" where
  "keeper_complete env k key token b = (\<lambda>(s, e).
     case k_now env e of (now, e) \<Rightarrow>
       (case k_fault env e of (f, e) \<Rightarrow> (snd (complete (k_st k) f now key token b (k_ttl k) s), e)))"

definition keeper_release ::
    "'e keeper_env \<Rightarrow> 's keeper \<Rightarrow> string \<Rightarrow> string \<Rightarrow> 's \<times> 'e \<Rightarrow> 's \<times> 'e" where
  "keeper_release env k key token = (\<lambda>(s, e).
     case k_now env e of (now, e) \<Rightarrow>
       (case k_fault env e of (f, e) \<Rightarrow> (snd (release (k_st k) f now key token s), e)))"

text \<open>The end of \<open>Do\<close>: what becomes of the key once \<open>fn\<close> has returned or panicked.\<close>

definition finish ::
    "'e keeper_env \<Rightarrow> 's keeper \<Rightarrow> ('v \<Rightarrow> go_error + string) \<Rightarrow> 'v \<Rightarrow> string \<Rightarrow> string \<Rightarrow>
     ('v \<times> err) outcome \<Rightarrow> 's \<times> 'e \<Rightarrow> ('v \<times> err) outcome \<times> 's \<times> 'e" where
  "finish env k marshal zero key token r w =
     (case r of
        Panics v \<Rightarrow> (Panics v, keeper_release env k key token w)
      | Ret (v, Some x) \<Rightarrow> (Ret (v, Some x), keeper_release env k key token w)
      | Ret (v, None) \<Rightarrow>
          (case marshal v of
             Inl x \<Rightarrow> (Ret (zero, Some (Wrapf (''dedup: encode '' @ go_quote key @ '': '' @ err_text x) x)),
                       keeper_release env k key token w)
           | Inr b \<Rightarrow> (Ret (v, None), keeper_complete env k key token b w)))"

text \<open>\<open>Do\<close>; \<open>marshal\<close> and \<open>unmarshal\<close> are those of JSON for the type of the result.\<close>

definition Keeper_Do ::
    "'e keeper_env \<Rightarrow> 's keeper \<Rightarrow> ('v \<Rightarrow> go_error + string) \<Rightarrow> (string \<Rightarrow> go_error + 'v) \<Rightarrow> 'v \<Rightarrow> string \<Rightarrow>
     (ctx \<Rightarrow> 's \<times> 'e \<Rightarrow> ('v \<times> err) outcome \<times> 's \<times> 'e) \<Rightarrow> 's \<times> 'e \<Rightarrow> ('v \<times> err) outcome \<times> 's \<times> 'e" where
  "Keeper_Do env k marshal unmarshal zero key fn = (\<lambda>(s, e).
     if key = [] then (Ret (zero, Some (Sentinel errEmptyKey)), s, e)
     else case k_token env e of (token, e) \<Rightarrow>
       (case k_now env e of (now, e) \<Rightarrow>
         (case k_fault env e of (f, e) \<Rightarrow>
           (case acquire (k_st k) f now key token (k_lease k) s of
              (Inl x, s) \<Rightarrow>
                (Ret (zero, Some (Wrap_Many (ErrUnavailable @ '': '' @ err_text x) [Sentinel ErrUnavailable, x])), s, e)
            | (Inr (Running, _), s) \<Rightarrow> (Ret (zero, Some (Sentinel ErrInProgress)), s, e)
            | (Inr (Done, stored), s) \<Rightarrow> (Ret (decode unmarshal zero key stored), s, e)
            | (Inr (Acquired, _), s) \<Rightarrow>
                (case fn (With_timeout Caller (k_lease k)) (s, e) of
                   (r, w) \<Rightarrow> finish env k marshal zero key token r w)))))"

section \<open>Calls over any store\<close>

text \<open>A calm environment: round trips work and tokens are not empty.\<close>

definition calm :: "'e keeper_env \<Rightarrow> bool" where
  "calm env = ((\<forall>e. fst (k_fault env e) = Works) \<and> (\<forall>e. fst (k_token env e) \<noteq> []))"

context dedup_store
begin

lemma Do_stored:
  assumes "calm env" and "k_st k = st" and "key \<noteq> []" and "ok s"
    and "k_token env e = (token, e1)" and "k_now env e1 = (now, e2)" and "status s now key = Stored b"
  shows "\<exists>s'. Keeper_Do env k marshal unmarshal zero key fn (s, e) =
           (Ret (decode unmarshal zero key b), s', snd (k_fault env e2)) \<and> ok s' \<and> status_same status s s' now"
proof -
  obtain e3 where f: "k_fault env e2 = (Works, e3)"
    using assms(1) by (metis calm_def prod.collapse)
  from acquire_stored [OF assms(4,7), of token "k_lease k"] show ?thesis
    using assms(2,3,5,6) f by (auto simp: Keeper_Do_def)
qed

lemma Do_held:
  assumes "calm env" and "k_st k = st" and "key \<noteq> []" and "ok s"
    and "k_token env e = (token, e1)" and "k_now env e1 = (now, e2)" and "status s now key = Held t"
  shows "\<exists>s'. Keeper_Do env k marshal unmarshal zero key fn (s, e) =
           (Ret (zero, Some (Sentinel ErrInProgress)), s', snd (k_fault env e2)) \<and> ok s' \<and>
           status_same status s s' now"
proof -
  obtain e3 where f: "k_fault env e2 = (Works, e3)"
    using assms(1) by (metis calm_def prod.collapse)
  from acquire_held [OF assms(4,7), of token "k_lease k"] show ?thesis
    using assms(2,3,5,6) f by (auto simp: Keeper_Do_def)
qed

lemma Do_runs:
  assumes "calm env" and "k_st k = st" and "key \<noteq> []" and "ok s"
    and "k_token env e = (token, e1)" and "k_now env e1 = (now, e2)" and "k_fault env e2 = (f, e3)"
    and "status s now key = Free"
  obtains s1 where "ok s1" and "status_set status s s1 now key (Held token) (life (k_lease k))"
    and "Keeper_Do env k marshal unmarshal zero key fn (s, e) =
      (case fn (With_timeout Caller (k_lease k)) (s1, e3) of
         (r, w) \<Rightarrow> finish env k marshal zero key token r w)"
proof -
  have "token \<noteq> []" using assms(1,5) by (metis calm_def fst_conv)
  from acquire_free [OF assms(4,8) this, of "k_lease k"] obtain s1 where
    a: "acquire st Works now key token (k_lease k) s = (Inr (Acquired, []), s1)" and "ok s1"
    and "status_set status s s1 now key (Held token) (life (k_lease k))" by blast
  moreover have "f = Works" using assms(1,7) by (metis calm_def fst_conv)
  with a assms(2,3,5-7) have "Keeper_Do env k marshal unmarshal zero key fn (s, e) =
      (case fn (With_timeout Caller (k_lease k)) (s1, e3) of
         (r, w) \<Rightarrow> finish env k marshal zero key token r w)"
    by (simp add: Keeper_Do_def)
  ultimately show ?thesis using that by blast
qed

end

text \<open>
  What \<open>Do\<close> hands on when \<open>fn\<close> fails: the error or the panic of \<open>fn\<close>, or the error of encoding its
  result. A call that fails: it got the key with its token, \<open>fn\<close> ended so in the state \<open>s2\<close> of the
  store, which other calls may have changed meanwhile, and the round trip of the release, at the
  time \<open>tc\<close>, works.
\<close>

definition failure_of :: "('v \<Rightarrow> go_error + string) \<Rightarrow> 'v \<Rightarrow> string \<Rightarrow> ('v \<times> err) outcome \<Rightarrow> ('v \<times> err) outcome option" where
  "failure_of marshal zero key r =
     (case r of
        Panics v \<Rightarrow> Some (Panics v)
      | Ret (v, Some x) \<Rightarrow> Some (Ret (v, Some x))
      | Ret (v, None) \<Rightarrow>
          (case marshal v of
             Inl x \<Rightarrow> Some (Ret (zero, Some (Wrapf (''dedup: encode '' @ go_quote key @ '': '' @ err_text x) x)))
           | Inr b \<Rightarrow> None))"

definition failed_call ::
    "'s store \<Rightarrow> 'e keeper_env \<Rightarrow> 's keeper \<Rightarrow> ('v \<Rightarrow> go_error + string) \<Rightarrow> 'v \<Rightarrow> string \<Rightarrow>
     (ctx \<Rightarrow> 's \<times> 'e \<Rightarrow> ('v \<times> err) outcome \<times> 's \<times> 'e) \<Rightarrow> 's \<times> 'e \<Rightarrow> string \<Rightarrow> instant \<Rightarrow> 's \<Rightarrow> ('v \<times> err) outcome \<Rightarrow> bool" where
  "failed_call st env k marshal zero key fn se token tc s2 r =
     (k_st k = st \<and> key \<noteq> [] \<and> token \<noteq> [] \<and>
      (\<exists>e1 now e2 f e3 y s1 r1 e4 e5 e6. k_token env (snd se) = (token, e1) \<and> k_now env e1 = (now, e2) \<and>
         k_fault env e2 = (f, e3) \<and> acquire st f now key token (k_lease k) (fst se) = (Inr (Acquired, y), s1) \<and>
         fn (With_timeout Caller (k_lease k)) (s1, e3) = (r1, s2, e4) \<and> failure_of marshal zero key r1 = Some r \<and>
         k_now env e4 = (tc, e5) \<and> k_fault env e5 = (Works, e6)))"

text \<open>
  What becomes of the keys: the key of the call is free from then on if the record is still its
  own, and nothing else changes; a later call on a free key gets it.
\<close>

definition key_freed ::
    "'s store \<Rightarrow> ('s \<Rightarrow> instant \<Rightarrow> string \<Rightarrow> status) \<Rightarrow> string \<Rightarrow> string \<Rightarrow> instant \<Rightarrow> 's \<Rightarrow> 's \<Rightarrow> bool" where
  "key_freed st status key token tc s2 s3 =
     (\<forall>t \<ge> tc.
        (\<forall>k. status s3 t k = (if k = key \<and> status s2 tc key = Held token then Free else status s2 t k)) \<and>
        (status s2 tc key = Held token \<or> status s2 t key = Free \<longrightarrow>
           (\<forall>token' d. token' \<noteq> [] \<longrightarrow> fst (acquire st Works t key token' d s3) = Inr (Acquired, []))))"

context dedup_store
begin

lemma Do_success:
  assumes "calm env" and "k_st k = st" and "key \<noteq> []" and "ok s"
    and "k_token env e = (token, e1)" and "k_now env e1 = (now, e2)" and "k_fault env e2 = (f, e3)"
    and "status s now key = Free"
    and fn: "\<And>s1. fn (With_timeout Caller (k_lease k)) (s1, e3) = (Ret (v, None), s1, e4)"
    and "marshal v = Inr b" and "k_now env e4 = (tc, e5)" and "now \<le> tc" and "tc < now + life (k_lease k)"
  shows "\<exists>s3. Keeper_Do env k marshal unmarshal zero key fn (s, e) = (Ret (v, None), s3, snd (k_fault env e5)) \<and>
           ok s3 \<and> (\<forall>t \<ge> tc. status s3 t key = (if t < tc + life (k_ttl k) then Stored b else Free))"
proof -
  obtain s1 where s1: "ok s1" "status_set status s s1 now key (Held token) (life (k_lease k))"
    and d: "Keeper_Do env k marshal unmarshal zero key fn (s, e) =
      (Ret (v, None), keeper_complete env k key token b (s1, e4))"
    by (rule Do_runs [OF assms(1-8), of marshal unmarshal zero fn])
       (simp add: fn finish_def assms(10))
  have tok: "token \<noteq> []" using assms(1,5) by (metis calm_def fst_conv)
  have held: "status s1 tc key = Held token"
    using s1(2) assms(12,13) by (simp add: status_set_def)
  obtain f' e6 where f': "k_fault env e5 = (f', e6)" by force
  then have w: "f' = Works" using assms(1) by (metis calm_def fst_conv)
  from complete_held [OF s1(1) tok held, of b "k_ttl k"] obtain s3 where
    "complete st Works tc key token b (k_ttl k) s1 = (Inr True, s3)" "ok s3"
    "status_set status s1 s3 tc key (Stored b) (life (k_ttl k))" by blast
  then show ?thesis
    using d assms(2,11) f' w by (auto simp: keeper_complete_def status_set_def)
qed

lemma Do_failure:
  assumes "failed_call st env k marshal zero key fn (s, e) token tc s2 r" and "ok s2"
  shows "\<exists>s3 e6. Keeper_Do env k marshal unmarshal zero key fn (s, e) = (r, s3, e6) \<and> key_freed st status key token tc s2 s3"
proof -
  obtain e1 now e2 f e3 y s1 r1 e4 e5 e6 where call: "k_st k = st" "key \<noteq> []" "token \<noteq> []"
      "k_token env e = (token, e1)" "k_now env e1 = (now, e2)" "k_fault env e2 = (f, e3)"
      "acquire st f now key token (k_lease k) s = (Inr (Acquired, y), s1)"
      "fn (With_timeout Caller (k_lease k)) (s1, e3) = (r1, s2, e4)" "failure_of marshal zero key r1 = Some r"
      "k_now env e4 = (tc, e5)" "k_fault env e5 = (Works, e6)"
    using assms(1) by (auto simp: failed_call_def)
  have "finish env k marshal zero key token r1 (s2, e4) = (r, keeper_release env k key token (s2, e4))"
    using call(9) by (auto simp: failure_of_def finish_def split: outcome.splits prod.splits option.splits sum.splits)
  then have run: "Keeper_Do env k marshal unmarshal zero key fn (s, e) = (r, snd (release st Works tc key token s2), e6)"
    using call by (simp add: Keeper_Do_def keeper_release_def)
  obtain s3 where s3: "release st Works tc key token s2 = (None, s3)" "ok s3"
      "\<forall>t \<ge> tc. \<forall>k'. status s3 t k' = (if k' = key \<and> status s2 tc key = Held token then Free else status s2 t k')"
    using release_held [OF assms(2) call(3), of tc key] release_lost [OF assms(2) call(3), of tc key]
    by (cases "status s2 tc key = Held token") (auto simp: status_set_def status_same_def)
  have "fst (acquire st Works t key token' d s3) = Inr (Acquired, [])"
    if "tc \<le> t" "status s2 tc key = Held token \<or> status s2 t key = Free" "token' \<noteq> []" for t token' d
  proof -
    have "status s3 t key = Free" using s3(3) that(1,2) by auto
    from acquire_free [OF s3(2) this that(3), of d] show ?thesis by auto
  qed
  then have "key_freed st status key token tc s2 s3" using s3(3) by (simp add: key_freed_def)
  then show ?thesis using run s3(1) by simp
qed

end

section \<open>Concurrent calls\<close>

text \<open>
  Many calls of \<open>Do\<close> on one store. A holder is a call whose \<open>fn\<close> runs: its key, its token
  and the end of its record. Time passes; a call acquires a key with a token never used
  before, or finds it taken; a holder completes or releases; a holder may crash. These are the
  steps of \<open>Do\<close> on the store, one by one, with round trips that work; a lost reply is a crash of its
  holder.
\<close>

record 's calls =
  c_store :: 's
  c_clock :: instant
  c_holders :: "(string \<times> string \<times> instant) list"
  c_used :: "string set"

inductive calls_step :: "'s store \<Rightarrow> duration \<Rightarrow> duration \<Rightarrow> duration \<Rightarrow> 's calls \<Rightarrow> 's calls \<Rightarrow> bool"
  for st lease life ttl where
  time: "c_clock c \<le> t \<Longrightarrow> calls_step st lease life ttl c (c\<lparr>c_clock := t\<rparr>)"
| acquires: "token \<notin> c_used c \<Longrightarrow> token \<noteq> [] \<Longrightarrow>
    acquire st Works (c_clock c) key token lease (c_store c) = (Inr (Acquired, v), s') \<Longrightarrow>
    calls_step st lease life ttl c (c\<lparr>c_store := s', c_used := insert token (c_used c),
      c_holders := (key, token, c_clock c + life) # c_holders c\<rparr>)"
| finds_taken: "token \<notin> c_used c \<Longrightarrow> token \<noteq> [] \<Longrightarrow>
    acquire st Works (c_clock c) key token lease (c_store c) = (r, s') \<Longrightarrow> \<forall>v. r \<noteq> Inr (Acquired, v) \<Longrightarrow>
    calls_step st lease life ttl c (c\<lparr>c_store := s', c_used := insert token (c_used c)\<rparr>)"
| completes: "(key, token, x) \<in> set (c_holders c) \<Longrightarrow>
    complete st Works (c_clock c) key token v ttl (c_store c) = (r', s') \<Longrightarrow>
    calls_step st lease life ttl c
      (c\<lparr>c_store := s', c_holders := filter (\<lambda>h. h \<noteq> (key, token, x)) (c_holders c)\<rparr>)"
| releases: "(key, token, x) \<in> set (c_holders c) \<Longrightarrow>
    release st Works (c_clock c) key token (c_store c) = (r', s') \<Longrightarrow>
    calls_step st lease life ttl c
      (c\<lparr>c_store := s', c_holders := filter (\<lambda>h. h \<noteq> (key, token, x)) (c_holders c)\<rparr>)"
| crashes: "calls_step st lease life ttl c (c\<lparr>c_holders := filter (\<lambda>h. h \<noteq> d) (c_holders c)\<rparr>)"

abbreviation calls_steps :: "'s store \<Rightarrow> duration \<Rightarrow> duration \<Rightarrow> duration \<Rightarrow> 's calls \<Rightarrow> 's calls \<Rightarrow> bool" where
  "calls_steps st lease life ttl \<equiv> rtranclp (calls_step st lease life ttl)"

text \<open>Two holders of one key whose records both live.\<close>

definition exclusive :: "'s calls \<Rightarrow> bool" where
  "exclusive c = (\<forall>h \<in> set (c_holders c). \<forall>h' \<in> set (c_holders c).
     fst h = fst h' \<and> c_clock c < snd (snd h) \<and> c_clock c < snd (snd h') \<longrightarrow> h = h')"

text \<open>Every holder whose record lives is the one its key is held by.\<close>

definition holders_ok ::
    "('s \<Rightarrow> bool) \<Rightarrow> ('s \<Rightarrow> instant \<Rightarrow> string \<Rightarrow> status) \<Rightarrow> 's calls \<Rightarrow> bool" where
  "holders_ok ok status c = (ok (c_store c) \<and>
     (\<forall>h \<in> set (c_holders c). fst (snd h) \<in> c_used c \<and> fst (snd h) \<noteq> [] \<and>
        (\<forall>t. c_clock c \<le> t \<and> t < snd (snd h) \<longrightarrow> status (c_store c) t (fst h) = Held (fst (snd h)))) \<and>
     (\<forall>h \<in> set (c_holders c). \<forall>h' \<in> set (c_holders c). fst (snd h) = fst (snd h') \<longrightarrow> h = h'))"

lemma holders_ok_exclusive: "holders_ok ok status c \<Longrightarrow> exclusive c"
  unfolding holders_ok_def exclusive_def by (metis order_refl status.inject(1))

context dedup_store
begin

lemma acquired_was_free:
  assumes "ok s" and "acquire st Works now key token d s = (Inr (Acquired, v), s')" and "token \<noteq> []"
  shows "status s now key = Free \<and> ok s' \<and> status_set status s s' now key (Held token) (life d)"
proof (cases "status s now key")
  case Free
  with acquire_free [OF assms(1) Free assms(3), of d] assms(2) show ?thesis by auto
next
  case (Held t)
  with acquire_held [OF assms(1) Held, of token d] assms(2) show ?thesis by auto
next
  case (Stored x)
  with acquire_stored [OF assms(1) Stored, of token d] assms(2) show ?thesis by auto
qed

lemma taken_is_same:
  assumes "ok s" and "acquire st Works now key token d s = (r, s')" and "token \<noteq> []"
    and "\<forall>v. r \<noteq> Inr (Acquired, v)"
  shows "ok s' \<and> status_same status s s' now"
proof (cases "status s now key")
  case Free
  with acquire_free [OF assms(1) Free assms(3), of d] assms(2,4) show ?thesis by auto
next
  case (Held t)
  with acquire_held [OF assms(1) Held, of token d] assms(2) show ?thesis by auto
next
  case (Stored x)
  with acquire_stored [OF assms(1) Stored, of token d] assms(2) show ?thesis by auto
qed

text \<open>A store change that only touches a key no other holder lives on keeps the holders.\<close>

lemma settle_holders:
  assumes inv: "holders_ok ok status c" and h: "(key, token, x) \<in> set (c_holders c)" and "ok s'"
    and change: "status_same status (c_store c) s' (c_clock c) \<or>
      (status (c_store c) (c_clock c) key = Held token \<and>
       (\<forall>t \<ge> c_clock c. \<forall>k. k \<noteq> key \<longrightarrow> status s' t k = status (c_store c) t k))"
  shows "holders_ok ok status
           (c\<lparr>c_store := s', c_holders := filter (\<lambda>h. h \<noteq> (key, token, x)) (c_holders c)\<rparr>)"
proof -
  have own: "status s' t (fst g) = Held (fst (snd g))"
    if g: "g \<in> set (c_holders c)" "g \<noteq> (key, token, x)" and t: "c_clock c \<le> t" "t < snd (snd g)" for g t
  proof -
    have old: "status (c_store c) u (fst g) = Held (fst (snd g))" if "c_clock c \<le> u" "u < snd (snd g)" for u
      using inv g(1) that unfolding holders_ok_def by blast
    from change show ?thesis
    proof
      assume "status_same status (c_store c) s' (c_clock c)"
      then show ?thesis using old t by (simp add: status_same_def)
    next
      assume r: "status (c_store c) (c_clock c) key = Held token \<and>
        (\<forall>t \<ge> c_clock c. \<forall>k. k \<noteq> key \<longrightarrow> status s' t k = status (c_store c) t k)"
      have "fst g \<noteq> key"
      proof
        assume "fst g = key"
        with old [of "c_clock c"] t r have "fst (snd g) = token" by simp
        with inv g h show False unfolding holders_ok_def by (metis fst_conv snd_conv)
      qed
      with r old t show ?thesis by simp
    qed
  qed
  with inv \<open>ok s'\<close> show ?thesis unfolding holders_ok_def by auto
qed

lemma calls_step_ok:
  assumes "calls_step st lease (life lease) ttl c d" and "holders_ok ok status c"
  shows "holders_ok ok status d"
  using assms
proof (induction rule: calls_step.induct)
  case (time c t)
  then show ?case unfolding holders_ok_def by auto
next
  case (acquires token c key v s')
  have okc: "ok (c_store c)" using acquires(4) by (simp add: holders_ok_def)
  from acquired_was_free [OF okc acquires(3,2)]
  have free: "status (c_store c) (c_clock c) key = Free" and ok': "ok s'"
    and set: "status_set status (c_store c) s' (c_clock c) key (Held token) (life lease)" by auto
  have other: "status s' t (fst h) = Held (fst (snd h))"
    if h: "h \<in> set (c_holders c)" and t: "c_clock c \<le> t" "t < snd (snd h)" for h t
  proof -
    have old: "status (c_store c) u (fst h) = Held (fst (snd h))" if "c_clock c \<le> u" "u < snd (snd h)" for u
      using acquires(4) h that unfolding holders_ok_def by blast
    have "fst h \<noteq> key" using old [of "c_clock c"] t free by auto
    with set old t show ?thesis by (simp add: status_set_def)
  qed
  have new: "status s' t key = Held token" if "c_clock c \<le> t" "t < c_clock c + life lease" for t
    using set that by (simp add: status_set_def)
  show ?case using acquires(1,2,4) ok' other new unfolding holders_ok_def by auto
next
  case (finds_taken token c key r s')
  have okc: "ok (c_store c)" using finds_taken(5) by (simp add: holders_ok_def)
  from taken_is_same [OF okc finds_taken(3,2,4)] finds_taken(5)
  show ?case unfolding holders_ok_def status_same_def by auto
next
  case (completes key token x c v r' s')
  have okc: "ok (c_store c)" and tok: "token \<noteq> []"
    using completes(1,3) unfolding holders_ok_def by (blast, force)
  show ?case
  proof (cases "status (c_store c) (c_clock c) key = Held token")
    case True
    from complete_held [OF okc tok True, of v ttl] completes(2)
    have "ok s'" "status_set status (c_store c) s' (c_clock c) key (Stored v) (life ttl)" by auto
    then show ?thesis using True completes(1,3)
      by (intro settle_holders) (auto simp: status_set_def)
  next
    case False
    from complete_lost [OF okc tok False, of v ttl] completes(2)
    have "ok s'" "status_same status (c_store c) s' (c_clock c)" by auto
    then show ?thesis using completes(1,3) by (intro settle_holders) auto
  qed
next
  case (releases key token x c r' s')
  have okc: "ok (c_store c)" and tok: "token \<noteq> []"
    using releases(1,3) unfolding holders_ok_def by (blast, force)
  show ?case
  proof (cases "status (c_store c) (c_clock c) key = Held token")
    case True
    from release_held [OF okc tok True] releases(2)
    have "ok s'" "status_set status (c_store c) s' (c_clock c) key Free 0" by auto
    then show ?thesis using True releases(1,3)
      by (intro settle_holders) (auto simp: status_set_def)
  next
    case False
    from release_lost [OF okc tok False] releases(2)
    have "ok s'" "status_same status (c_store c) s' (c_clock c)" by auto
    then show ?thesis using releases(1,3) by (intro settle_holders) auto
  qed
next
  case (crashes c d)
  then show ?case unfolding holders_ok_def by auto
qed

lemma calls_exclusive:
  assumes "calls_steps st lease (life lease) ttl c d" and "ok (c_store c)" and "c_holders c = []"
  shows "exclusive d"
proof -
  have "holders_ok ok status c" using assms(2,3) by (simp add: holders_ok_def)
  with assms(1) have "holders_ok ok status d"
    by (rule run_invariant) (rule calls_step_ok)
  then show ?thesis by (rule holders_ok_exclusive)
qed

end

section \<open>Properties\<close>


text \<open>An environment that counts its draws: time is the count, tokens are not empty.\<close>

definition counting_env :: "int keeper_env" where
  "counting_env = \<lparr>k_now = \<lambda>e. (e, e + 1), k_fault = \<lambda>e. (Works, e), k_token = \<lambda>e. (''tok'', e)\<rparr>"


text \<open>
  C18: a failure is never stored, on the store in memory and on the one in Redis. When \<open>fn\<close> returns
  an error or panics, \<open>Do\<close> hands on exactly that, and when its result cannot be encoded, that error.
  From then on the key is free, unless the lease ran out and another call holds it meanwhile, whose
  record stays; no other key changes; and the next call on the key, if it is free, runs its \<open>fn\<close>.
  \<open>fn\<close> may itself, and other calls meanwhile, change the store in any way. It is assumed that the
  release reaches the store; the keys of Redis under the prefix are records of the package.
\<close>
theorem Do_failure_frees_key:
  assumes "failed_call memory_store env k marshal zero key fn (s, e) token tc s2 r"
    and "failed_call redis_store env' k' marshal' zero' key' fn' (db, e') token' tc' db2 r'" and "redis_ok db2"
  shows "(\<exists>s3 e6. Keeper_Do env k marshal unmarshal zero key fn (s, e) = (r, s3, e6) \<and>
       key_freed memory_store memory_status key token tc s2 s3) \<and>
    (\<exists>db3 e6. Keeper_Do env' k' marshal' unmarshal' zero' key' fn' (db, e') = (r', db3, e6) \<and>
       key_freed redis_store redis_status key' token' tc' db2 db3)"
  using memory.Do_failure [OF assms(1) TrueI] redis.Do_failure [OF assms(2,3)] by blast

theorem Do_failure_frees_key_witness:
  "(\<exists>s3 e6. Keeper_Do counting_env (newKeeper memory_store 0 0) Inr Inr [] ''order-1''
       (\<lambda>c (s, e). (Panics ''boom'', s, e)) (newMemory, 0) = (Panics ''boom'', s3, e6) \<and>
      key_freed memory_store memory_status ''order-1'' ''tok'' 1 (snd (memory_acquire Works 0 ''order-1'' ''tok'' minute newMemory)) s3) \<and>
   (\<exists>db3 e6. Keeper_Do counting_env (newKeeper redis_store 0 0) Inr Inr [] ''order-1''
       (\<lambda>c (s, e). (Ret ([], Some (Plain ''no stock'')), Map.empty, e)) (Map.empty, 0) = (Ret ([], Some (Plain ''no stock'')), db3, e6) \<and>
      key_freed redis_store redis_status ''order-1'' ''tok'' 1 Map.empty db3)"
proof (rule Do_failure_frees_key)
  show "failed_call memory_store counting_env (newKeeper memory_store 0 0) Inr [] ''order-1''
      (\<lambda>c (s, e). (Panics ''boom'', s, e)) (newMemory, 0) ''tok'' 1
      (snd (memory_acquire Works 0 ''order-1'' ''tok'' minute newMemory)) (Panics ''boom'')"
    by (simp add: failed_call_def counting_env_def newKeeper_def failure_of_def memory_store_def memory_acquire_def
        newMemory_def sweep_def sweepEvery_def defaultLease_def Let_def)
  show "failed_call redis_store counting_env (newKeeper redis_store 0 0) Inr [] ''order-1''
      (\<lambda>c (s, e). (Ret ([], Some (Plain ''no stock'')), Map.empty, e)) (Map.empty, 0) ''tok'' 1
      Map.empty (Ret ([], Some (Plain ''no stock'')))"
    by (simp add: failed_call_def counting_env_def newKeeper_def failure_of_def redis_store_def redis_acquire_def
        run_script_def acquireScript_def redis_get_def)
qed (simp add: redis_ok_def)

text \<open>
  C4: \<open>fn\<close> is never run twice at once for a key. In any interleaving of calls over one store,
  with crashes and late completions, two running calls of the same key whose records live
  are the same call, for the Redis store and for the memory store alike.
\<close>
theorem calls_are_exclusive:
  assumes "calls_steps redis_store lease (redis_life lease) ttl c d" and "redis_ok (c_store c)"
    and "c_holders c = []"
    and "calls_steps memory_store lease' lease' ttl' c' d'" and "c_holders c' = []"
  shows "exclusive d \<and> exclusive d'"
  using redis.calls_exclusive [OF assms(1-3)] memory.calls_exclusive [OF assms(4) TrueI assms(5)] by simp

theorem calls_are_exclusive_witness:
  "exclusive \<lparr>c_store = Map.empty :: redis, c_clock = 0, c_holders = [], c_used = {}\<rparr> \<and>
   exclusive \<lparr>c_store = snd (memory_acquire Works 0 ''k'' ''tok'' 5 newMemory), c_clock = 0,
     c_holders = [(''k'', ''tok'', 5)], c_used = {''tok''}\<rparr>"
proof (rule calls_are_exclusive [OF run_refl _ _ run_one])
  have "calls_step memory_store 5 5 9 \<lparr>c_store = newMemory, c_clock = 0, c_holders = [], c_used = {}\<rparr>
     (\<lparr>c_store = newMemory, c_clock = 0, c_holders = [], c_used = {}\<rparr>
       \<lparr>c_store := snd (memory_acquire Works 0 ''k'' ''tok'' 5 newMemory), c_used := insert ''tok'' {},
        c_holders := [(''k'', ''tok'', 0 + 5)]\<rparr>)"
    using acquires [of "''tok''" "\<lparr>c_store = newMemory, c_clock = 0, c_holders = [], c_used = {}\<rparr>"
        memory_store "''k''" 5 "[]" "snd (memory_acquire Works 0 ''k'' ''tok'' 5 newMemory)" 5 9]
    by (simp add: memory_store_def memory_acquire_def newMemory_def sweep_def Let_def sweepEvery_def)
  then show "calls_step memory_store 5 5 9 \<lparr>c_store = newMemory, c_clock = 0, c_holders = [], c_used = {}\<rparr>
     \<lparr>c_store = snd (memory_acquire Works 0 ''k'' ''tok'' 5 newMemory), c_clock = 0,
      c_holders = [(''k'', ''tok'', 5)], c_used = {''tok''}\<rparr>" by simp
qed (simp_all add: redis_ok_def)

end
