(* ===== verification/Go_Strconv.thy ===== *)
theory Go_Strconv
  imports Go_Prelude
begin

text \<open>
  Decimal text: what \<open>strconv.Itoa\<close>, \<open>strconv.Atoi\<close> and the verbs \<open>%d\<close> and \<open>%0nd\<close> do.
\<close>

definition digit_char :: "nat \<Rightarrow> char" where
  "digit_char d = char_of (48 + d)"

definition is_digit :: "char \<Rightarrow> bool" where
  "is_digit c = (48 \<le> (of_char c :: nat) \<and> (of_char c :: nat) \<le> 57)"

definition digit_val :: "char \<Rightarrow> nat" where
  "digit_val c = of_char c - 48"

fun show_nat :: "nat \<Rightarrow> string" where
  "show_nat n = (if n < 10 then [digit_char n] else show_nat (n div 10) @ [digit_char (n mod 10)])"

declare show_nat.simps [simp del]

definition show_int :: "int \<Rightarrow> string" where
  "show_int i = (if i < 0 then CHR ''-'' # show_nat (nat (- i)) else show_nat (nat i))"

text \<open>The number a string of digits stands for.\<close>

definition digits_val :: "string \<Rightarrow> nat" where
  "digits_val s = foldl (\<lambda>n c. 10 * n + digit_val c) 0 s"

definition read_digits :: "string \<Rightarrow> nat option" where
  "read_digits s = (if s \<noteq> [] \<and> list_all is_digit s then Some (digits_val s) else None)"

text \<open>\<open>strconv.Atoi\<close>: an optional sign and digits, in the range of \<open>int\<close>.\<close>

definition Atoi :: "string \<Rightarrow> int option" where
  "Atoi s =
     (case s of
        [] \<Rightarrow> None
      | c # cs \<Rightarrow>
          (case read_digits (if c = CHR ''-'' \<or> c = CHR ''+'' then cs else s) of
             None \<Rightarrow> None
           | Some n \<Rightarrow> (let i = (if c = CHR ''-'' then - int n else int n)
                        in if in_int64 i then Some i else None)))"

text \<open>The last \<open>w\<close> digits of a number, with leading zeros.\<close>

fun low_digits :: "nat \<Rightarrow> nat \<Rightarrow> string" where
  "low_digits 0 n = []"
| "low_digits (Suc w) n = low_digits w (n div 10) @ [digit_char (n mod 10)]"

section \<open>Lemmas\<close>

lemma digit_of_char [simp]: "d < 10 \<Longrightarrow> is_digit (digit_char d)" "d < 10 \<Longrightarrow> digit_val (digit_char d) = d"
  by (simp_all add: is_digit_def digit_char_def digit_val_def)

lemma digits_val_snoc [simp]: "digits_val (s @ [c]) = 10 * digits_val s + digit_val c"
  by (simp add: digits_val_def)

lemma digits_val_Nil [simp]: "digits_val [] = 0"
  by (simp add: digits_val_def)

lemma show_nat_digits: "list_all is_digit (show_nat n) \<and> digits_val (show_nat n) = n \<and> show_nat n \<noteq> []"
proof (induction n rule: show_nat.induct)
  case (1 n)
  have "digits_val [digit_char n] = digit_val (digit_char n)" by (simp add: digits_val_def)
  with 1 show ?case by (cases "n < 10") (simp_all add: show_nat.simps [of n] list_all_append)
qed

lemma read_digits_show_nat [simp]: "read_digits (show_nat n) = Some n"
  using show_nat_digits [of n] by (simp add: read_digits_def)

lemma show_nat_head: "\<exists>c cs. show_nat n = c # cs \<and> is_digit c"
  using show_nat_digits [of n] by (cases "show_nat n") auto

lemma sign_not_digit [simp]: "\<not> is_digit CHR ''-''" "\<not> is_digit CHR ''+''"
  by (simp_all add: is_digit_def)

lemma Atoi_show_int: "in_int64 i \<Longrightarrow> Atoi (show_int i) = Some i"
proof (cases "i < 0")
  case True
  moreover assume "in_int64 i"
  ultimately show ?thesis by (simp add: Atoi_def show_int_def)
next
  case False
  assume "in_int64 i"
  obtain c cs where c: "show_nat (nat i) = c # cs" "is_digit c" using show_nat_head by blast
  then have "c \<noteq> CHR ''-''" "c \<noteq> CHR ''+''" using sign_not_digit by blast+
  moreover have "read_digits (c # cs) = Some (nat i)" using c(1) read_digits_show_nat by metis
  ultimately show ?thesis using False c(1) \<open>in_int64 i\<close> by (simp add: Atoi_def show_int_def)
qed

lemma low_digits_length [simp]: "length (low_digits w n) = w"
  by (induction w n rule: low_digits.induct) auto

lemma low_digits_digits [simp]: "list_all is_digit (low_digits w n)"
  by (induction w n rule: low_digits.induct) (auto simp: list_all_append)

lemma low_digits_val: "n < 10 ^ w \<Longrightarrow> digits_val (low_digits w n) = n"
proof (induction w n rule: low_digits.induct)
  case (2 w n)
  then have "n div 10 < 10 ^ w" by (simp add: div_less_iff_less_mult mult.commute)
  with 2 show ?case by simp
qed simp

lemma low_digits_inj: "n < 10 ^ w \<Longrightarrow> m < 10 ^ w \<Longrightarrow> low_digits w n = low_digits w m \<longleftrightarrow> n = m"
  using low_digits_val by metis

end
