(* ===== verification/Dbx.thy ===== *)
theory Dbx
  imports Retry Go_Strconv
begin

text \<open>
  The package \<open>dbx\<close>: the classification of driver errors (\<open>dbx.go\<close>, \<open>pg/pg.go\<close>,
  \<open>sqlite/sqlite.go\<close>), the helpers that run a statement (\<open>query.go\<close>), transactions with their
  retries (\<open>tran.go\<close>), bulk inserts (\<open>bulk.go\<close>) and the JSON slice column (\<open>jsonslice.go\<close>).
  A database is any state; a transaction works on its own view of it, which the commit makes
  the state. What a round trip to the server does comes from an environment.
\<close>

section \<open>Errors\<close>

definition ErrDBNotFound :: string where "ErrDBNotFound = ''sql: no rows in result set''"
definition ErrDBDuplicatedEntry :: string where "ErrDBDuplicatedEntry = ''duplicated entry''"
definition ErrDBRetryable :: string where "ErrDBRetryable = ''retryable''"

type_synonym classifier = "go_error \<Rightarrow> go_error"

definition classify :: "classifier option \<Rightarrow> err \<Rightarrow> err" where
  "classify c err =
     (case err of
        None \<Rightarrow> None
      | Some e \<Rightarrow>
          if err_is err ErrDBNotFound then Some (Sentinel ErrDBNotFound)
          else case c of None \<Rightarrow> Some e | Some f \<Rightarrow> Some (f e))"

text \<open>
  The classifiers of PostgreSQL and SQLite; the first argument reads the \<open>SQLSTATE\<close> or the
  result code of an error that is one of the driver.
\<close>

definition pg_Classify :: "(go_error \<Rightarrow> string option) \<Rightarrow> classifier" where
  "pg_Classify SQLState err =
     (case first_some SQLState (chain err) of
        None \<Rightarrow> err
      | Some st \<Rightarrow>
          if st = ''23505'' then wrap_both (Sentinel ErrDBDuplicatedEntry) err
          else if st = ''40P01'' \<or> st = ''40001'' then wrap_both (Sentinel ErrDBRetryable) err
          else err)"

definition sqlite_Classify :: "(go_error \<Rightarrow> int option) \<Rightarrow> classifier" where
  "sqlite_Classify Code err =
     (case first_some Code (chain err) of
        None \<Rightarrow> err
      | Some c \<Rightarrow>
          if c = 2067 \<or> c = 1555 then wrap_both (Sentinel ErrDBDuplicatedEntry) err else err)"

section \<open>Statements\<close>

text \<open>
  A statement is a function on the database that returns a result or the error of the
  server; the environment says what becomes of each round trip.
\<close>

record 'e db_env =
  db_fault :: "'e \<Rightarrow> fault \<times> 'e"
  db_rt :: "'e runtime"

type_synonym ('s, 'r) stmt = "'s \<Rightarrow> (go_error + 'r) \<times> 's"

definition round_trip ::
    "'e db_env \<Rightarrow> ('s, 'r) stmt \<Rightarrow> 's \<times> 'e \<Rightarrow> (go_error + 'r) \<times> 's \<times> 'e" where
  "round_trip env stmt = (\<lambda>(s, e).
     case db_fault env e of
       (Works, e) \<Rightarrow> (case stmt s of (r, s) \<Rightarrow> (r, s, e))
     | (Fails_before x, e) \<Rightarrow> (Inl x, s, e)
     | (Fails_after x, e) \<Rightarrow> (Inl x, snd (stmt s), e))"

text \<open>\<open>exec\<close> and \<open>namedExec\<close>, which differ in the binding of the arguments.\<close>

definition exec ::
    "'e db_env \<Rightarrow> classifier option \<Rightarrow> ('s, 'r) stmt \<Rightarrow> 's \<times> 'e \<Rightarrow> (go_error + 'r) \<times> 's \<times> 'e" where
  "exec env cls stmt w =
     (case round_trip env stmt w of
        (Inl x, w) \<Rightarrow> (Inl (the (classify cls (Some x))), w)
      | (Inr r, w) \<Rightarrow> (Inr r, w))"

definition Exec ::
    "'e db_env \<Rightarrow> classifier option \<Rightarrow> ('s, 'r) stmt \<Rightarrow> 's \<times> 'e \<Rightarrow> err \<times> 's \<times> 'e" where
  "Exec env cls stmt w =
     (case exec env cls stmt w of (Inl x, w) \<Rightarrow> (Some x, w) | (Inr _, w) \<Rightarrow> (None, w))"

definition ExecRowsAffected ::
    "'e db_env \<Rightarrow> classifier option \<Rightarrow> ('s, go_error + int) stmt \<Rightarrow> 's \<times> 'e \<Rightarrow> (go_error + int) \<times> 's \<times> 'e" where
  "ExecRowsAffected env cls stmt w =
     (case exec env cls stmt w of
        (Inl x, w) \<Rightarrow> (Inl x, w)
      | (Inr (Inl x), w) \<Rightarrow> (Inl (wrap_err ''dbx: rows affected'' x), w)
      | (Inr (Inr n), w) \<Rightarrow> (Inr n, w))"

text \<open>\<open>QueryOne\<close>: the first row, and no rows is \<open>ErrDBNotFound\<close>. \<open>QueryList\<close>: every row.\<close>

definition QueryOne ::
    "'e db_env \<Rightarrow> classifier option \<Rightarrow> ('s, 'r list) stmt \<Rightarrow> 's \<times> 'e \<Rightarrow> (go_error + 'r) \<times> 's \<times> 'e" where
  "QueryOne env cls stmt w =
     (case exec env cls stmt w of
        (Inl x, w) \<Rightarrow> (Inl x, w)
      | (Inr [], w) \<Rightarrow> (Inl (the (classify cls (Some (Sentinel ErrDBNotFound)))), w)
      | (Inr (r # _), w) \<Rightarrow> (Inr r, w))"

definition QueryList ::
    "'e db_env \<Rightarrow> classifier option \<Rightarrow> ('s, 'r list) stmt \<Rightarrow> 's \<times> 'e \<Rightarrow> (go_error + 'r list) \<times> 's \<times> 'e" where
  "QueryList env cls stmt w = exec env cls stmt w"

section \<open>Transactions\<close>

definition retryBackoff :: backoff where
  "retryBackoff = \<lparr>Base = 100 * millisecond, Max_delay = second, Factor = Fin 2,
     MaxAttempts = 3, Jitter = Fin (1 / 2)\<rparr>"

definition db_terminal :: "classifier option \<Rightarrow> go_error \<Rightarrow> bool" where
  "db_terminal cls err = (\<not> err_is (classify cls (Some err)) ErrDBRetryable)"

text \<open>The body of a transaction sees and changes the view of the transaction.\<close>

type_synonym ('s, 'e) tx_fn = "'s \<times> 'e \<Rightarrow> err outcome \<times> 's \<times> 'e"

text \<open>
  \<open>tran\<close>. A failed begin leaves no transaction; a commit whose reply is lost has taken effect.
  The rollback is one more round trip, and the server drops the view whatever it returns.
\<close>

definition rollback :: "'e db_env \<Rightarrow> 'e \<Rightarrow> 'e" where
  "rollback env e = snd (db_fault env e)"

definition tran ::
    "'e db_env \<Rightarrow> classifier option \<Rightarrow> ('s, 'e) tx_fn \<Rightarrow> 's \<times> 'e \<Rightarrow> err outcome \<times> 's \<times> 'e" where
  "tran env cls fn = (\<lambda>(s, e).
     case db_fault env e of
       (Fails_before x, e) \<Rightarrow> (Ret (Some (wrap_err ''dbx: begin tran'' (the (classify cls (Some x))))), s, e)
     | (Fails_after x, e) \<Rightarrow> (Ret (Some (wrap_err ''dbx: begin tran'' (the (classify cls (Some x))))), s, e)
     | (Works, e) \<Rightarrow>
         (case fn (s, e) of
            (Panics v, _, e) \<Rightarrow> (Panics v, s, rollback env e)
          | (Ret (Some x), _, e) \<Rightarrow> (Ret (Some x), s, rollback env e)
          | (Ret None, s', e) \<Rightarrow>
              (case db_fault env e of
                 (Works, e) \<Rightarrow> (Ret None, s', e)
               | (Fails_before x, e) \<Rightarrow>
                   (Ret (Some (wrap_err ''dbx: commit tran'' (the (classify cls (Some x))))), s, e)
               | (Fails_after x, e) \<Rightarrow>
                   (Ret (Some (wrap_err ''dbx: commit tran'' (the (classify cls (Some x))))), s', e))))"

text \<open>
  \<open>within\<close> of a pool: \<open>tran\<close> under \<open>retry.Do\<close>. The state of the loop also holds the value of
  a panic: it unwinds \<open>Do\<close>, so a call that panicked counts as one that ends the loop.
\<close>

definition tran_rt :: "'e runtime \<Rightarrow> ('s \<times> 'e \<times> string option) runtime" where
  "tran_rt rt = \<lparr>ctx_Err = (\<lambda>(s, e, p). ctx_Err rt e),
     timer = (\<lambda>d (s, e, p). case timer rt d e of (c, e) \<Rightarrow> (c, s, e, p)),
     rand_Float64 = (\<lambda>(s, e, p). case rand_Float64 rt e of (r, e) \<Rightarrow> (r, s, e, p)),
     convert = convert rt\<rparr>"

definition tran_cfg :: "classifier option \<Rightarrow> ('s \<times> 'e \<times> string option) retry_config" where
  "tran_cfg cls = \<lparr>Backoff = retryBackoff, Strategy = None, IsTerminal = Some (db_terminal cls),
     OnRetry = None, Sleep = None, Rand = None\<rparr>"

definition tran_op ::
    "'e db_env \<Rightarrow> classifier option \<Rightarrow> ('s, 'e) tx_fn \<Rightarrow> 's \<times> 'e \<times> string option \<Rightarrow>
     err \<times> 's \<times> 'e \<times> string option" where
  "tran_op env cls fn = (\<lambda>(s, e, p).
     case tran env cls fn (s, e) of
       (Ret x, s, e) \<Rightarrow> (x, s, e, None)
     | (Panics v, s, e) \<Rightarrow> (None, s, e, Some v))"

definition DB_within ::
    "'e db_env \<Rightarrow> classifier option \<Rightarrow> ('s, 'e) tx_fn \<Rightarrow> 's \<times> 'e \<Rightarrow> err outcome \<times> 's \<times> 'e" where
  "DB_within env cls fn = (\<lambda>(s, e).
     case Do (tran_rt (db_rt env)) (tran_cfg cls) (tran_op env cls fn) (s, e, None) of
       (x, s, e, None) \<Rightarrow> (Ret x, s, e)
     | (x, s, e, Some v) \<Rightarrow> (Panics v, s, e))"

text \<open>A querier is a pool or an open transaction, which \<open>WithinTran\<close> joins.\<close>

datatype querier = Pool "classifier option" | In_tx "classifier option"

fun WithinTran :: "'e db_env \<Rightarrow> querier \<Rightarrow> ('s, 'e) tx_fn \<Rightarrow> 's \<times> 'e \<Rightarrow> err outcome \<times> 's \<times> 'e" where
  "WithinTran env (Pool cls) fn w = DB_within env cls fn w"
| "WithinTran env (In_tx cls) fn w = fn w"

text \<open>\<open>Tran.WithinTran\<close> runs the function on what \<open>bind\<close> builds from the transaction.\<close>

definition Tran_WithinTran ::
    "'e db_env \<Rightarrow> querier \<Rightarrow> 'u \<Rightarrow> ('u \<Rightarrow> ('s, 'e) tx_fn) \<Rightarrow> 's \<times> 'e \<Rightarrow> err outcome \<times> 's \<times> 'e" where
  "Tran_WithinTran env q u fn w = WithinTran env q (fn u) w"

section \<open>Bulk inserts\<close>

definition maxParameters :: nat where "maxParameters = 1000"

definition buildInsertQuery :: "string \<Rightarrow> string list \<Rightarrow> nat \<Rightarrow> string \<Rightarrow> string" where
  "buildInsertQuery table columns nValues conflictAction =
     (let nCols = length columns; nRows = nValues div nCols
      in ''INSERT INTO '' @ table @ '' ('' @ join '', '' columns @ '') VALUES '' @
         join '', '' (replicate nRows (''('' @ join '', '' (replicate nCols ''?'') @ '')'')) @
         (if conflictAction \<noteq> [] then '' '' @ conflictAction else []))"

text \<open>The loop over the batches from index \<open>left\<close> on; \<open>run\<close> is the server, \<open>rebind\<close> that of sqlx.\<close>

function bulk_loop ::
    "'e db_env \<Rightarrow> classifier option \<Rightarrow> (string \<Rightarrow> 'v list \<Rightarrow> ('s, unit) stmt) \<Rightarrow> (string \<Rightarrow> string) \<Rightarrow>
     string \<Rightarrow> string list \<Rightarrow> string \<Rightarrow> nat \<Rightarrow> nat \<Rightarrow> 'v list \<Rightarrow> 's \<times> 'e \<Rightarrow> err \<times> 's \<times> 'e" where
  "bulk_loop env cls run rebind table columns conflictAction stride left vals w =
     (if \<not> left < length vals \<or> stride = 0 then (None, w)
      else let right = min (left + stride) (length vals);
               batch = take (right - left) (drop left vals)
           in case round_trip env (run (rebind (buildInsertQuery table columns (length batch) conflictAction)) batch) w of
                (Inl x, w) \<Rightarrow>
                  (Some (wrap_err (''dbx: bulk insert into '' @ table @ '' ['' @ show_nat left @ '':'' @ show_nat right @ '']'')
                     (the (classify cls (Some x)))), w)
              | (Inr _, w) \<Rightarrow>
                  bulk_loop env cls run rebind table columns conflictAction stride (left + stride) vals w)"
  by pat_completeness auto
termination
  by (relation "measure (\<lambda>(env, cls, run, rebind, table, columns, c, stride, left, vals, w). length vals - left)") auto

declare bulk_loop.simps [simp del]

definition BulkInsert ::
    "'e db_env \<Rightarrow> classifier option \<Rightarrow> (string \<Rightarrow> 'v list \<Rightarrow> ('s, unit) stmt) \<Rightarrow> (string \<Rightarrow> string) \<Rightarrow>
     string \<Rightarrow> string list \<Rightarrow> 'v list \<Rightarrow> string \<Rightarrow> 's \<times> 'e \<Rightarrow> err \<times> 's \<times> 'e" where
  "BulkInsert env cls run rebind table columns vals conflictAction w =
     (if columns = [] then (Some (Plain (''dbx: bulk insert into '' @ table @ '': no columns'')), w)
      else if length vals mod length columns \<noteq> 0
      then (Some (Plain (''dbx: bulk insert into '' @ table @ '': len(values)='' @ show_nat (length vals) @
             '' not a multiple of len(columns)='' @ show_nat (length columns))), w)
      else if vals = [] then (None, w)
      else let stride = (maxParameters div length columns) * length columns
           in if stride = 0
              then (Some (Plain (''dbx: bulk insert into '' @ table @ '': too many columns ('' @
                     show_nat (length columns) @ '')'')), w)
              else bulk_loop env cls run rebind table columns conflictAction stride 0 vals w)"

section \<open>Columns\<close>

text \<open>
  A column value as a driver hands it over; the last one is a value of another Go type, by
  its name. A nil slice is \<open>None\<close>. \<open>marshal\<close> and \<open>unmarshal\<close> are those of JSON, \<open>uuid_Parse\<close>
  and \<open>uuid_String\<close> those of the package \<open>uuid\<close>; a UUID is its 16 bytes.
\<close>

datatype column = Col_nil | Col_bytes string | Col_string string | Col_other string

definition JSONSlice_Value :: "('a list option \<Rightarrow> go_error + string) \<Rightarrow> 'a list option \<Rightarrow> go_error + column" where
  "JSONSlice_Value marshal s =
     (case marshal s of
        Inl e \<Rightarrow> Inl (wrap_err ''dbx: json slice value'' e)
      | Inr b \<Rightarrow> Inr (Col_bytes b))"

definition JSONSlice_Scan :: "(string \<Rightarrow> go_error + 'a list option) \<Rightarrow> column \<Rightarrow> go_error + 'a list option" where
  "JSONSlice_Scan unmarshal src =
     (let scan = (\<lambda>b. if b = [] then Inr None
                      else case unmarshal b of
                        Inl e \<Rightarrow> Inl (wrap_err ''dbx: json slice scan'' e) | Inr s \<Rightarrow> Inr s)
      in case src of
           Col_nil \<Rightarrow> Inr None
         | Col_bytes b \<Rightarrow> scan b
         | Col_string b \<Rightarrow> scan b
         | Col_other t \<Rightarrow> Inl (Plain (''dbx: cannot scan '' @ t @ '' into JSONSlice'')))"

definition UUID_Value :: "(string \<Rightarrow> string) \<Rightarrow> string \<Rightarrow> go_error + column" where
  "UUID_Value uuid_String u = Inr (Col_string (uuid_String u))"

definition UUID_parse :: "(string \<Rightarrow> go_error + string) \<Rightarrow> string \<Rightarrow> go_error + string" where
  "UUID_parse uuid_Parse s =
     (case uuid_Parse s of Inl e \<Rightarrow> Inl (wrap_err ''dbx: scan UUID'' e) | Inr u \<Rightarrow> Inr u)"

definition UUID_Scan :: "(string \<Rightarrow> go_error + string) \<Rightarrow> column \<Rightarrow> go_error + string" where
  "UUID_Scan uuid_Parse src =
     (case src of
        Col_string v \<Rightarrow> UUID_parse uuid_Parse v
      | Col_bytes v \<Rightarrow> if length v = 16 then Inr v else UUID_parse uuid_Parse v
      | Col_nil \<Rightarrow> Inl (Plain ''dbx: cannot scan NULL into UUID (use sql.Null[dbx.UUID])'')
      | Col_other t \<Rightarrow> Inl (Plain (''dbx: cannot scan '' @ t @ '' into UUID'')))"

section \<open>Lemmas\<close>

lemma tran_cfg_simps [simp]:
  "terminal (tran_cfg cls) = db_terminal cls" "notify (tran_cfg cls) n x w = w"
  by (simp_all add: terminal_def tran_cfg_def fun_eq_iff notify_def)

lemma tran_waits [simp]:
  "snd (delay_of (tran_rt rt) (tran_cfg cls) n (s, e, p)) = (s, snd (rand_Float64 rt e), p)"
  "snd (sleep_of (tran_rt rt) (tran_cfg cls) d (s, e, p)) = (s, (if d \<le> 0 then e else snd (timer rt d e)), p)"
  by (simp_all add: delay_of_def sleep_of_def tran_cfg_def tran_rt_def sleepCtx_def split: prod.splits)

text \<open>What one transaction leaves behind.\<close>

definition committed :: "('s, 'e) tx_fn \<Rightarrow> 's \<Rightarrow> 's \<Rightarrow> bool" where
  "committed fn s s' = (\<exists>e1 e2. fn (s, e1) = (Ret None, s', e2))"

definition commit_error :: "classifier option \<Rightarrow> go_error \<Rightarrow> go_error" where
  "commit_error cls x = wrap_err ''dbx: commit tran'' (the (classify cls (Some x)))"

definition lost_reply :: "'e db_env \<Rightarrow> go_error \<Rightarrow> bool" where
  "lost_reply env x = (\<exists>e e'. db_fault env e = (Fails_after x, e'))"

definition tran_result ::
    "'e db_env \<Rightarrow> classifier option \<Rightarrow> ('s, 'e) tx_fn \<Rightarrow> 's \<Rightarrow> err \<Rightarrow> 's \<times> 'e \<times> string option \<Rightarrow> bool" where
  "tran_result env cls fn s r = (\<lambda>(s', e, p).
     (r = None \<and> p = None \<and> committed fn s s') \<or>
     ((r \<noteq> None \<and> p = None \<or> r = None \<and> p \<noteq> None) \<and> s' = s) \<or>
     (p = None \<and> (\<exists>x. lost_reply env x \<and> r = Some (commit_error cls x) \<and> committed fn s s')))"

lemma tran_op_result:
  "tran_op env cls fn (s, e, p) = (r, w) \<Longrightarrow> tran_result env cls fn s r w"
  by (auto simp: tran_op_def tran_def tran_result_def committed_def commit_error_def lost_reply_def
      split: prod.splits fault.splits outcome.splits option.splits)

lemma DB_within_result:
  assumes "\<And>x. lost_reply env x \<Longrightarrow> db_terminal cls (commit_error cls x)"
    and "Do (tran_rt (db_rt env)) (tran_cfg cls) (tran_op env cls fn) (s, e, None) = (r, w)"
  shows "tran_result env cls fn s r w"
proof (rule Do_rule [where I = "\<lambda>(s', e, p). s' = s \<and> p = None" and P = "tran_result env cls fn s",
      OF _ _ _ _ _ _ _ assms(2)])
  fix x v
  assume "tran_result env cls fn s (Some x) v" and "\<not> terminal (tran_cfg cls) x"
  with assms(1) show "case v of (s', e, p) \<Rightarrow> s' = s \<and> p = None"
    by (auto simp: tran_result_def)
next
  fix v v' :: "'b \<times> 'a \<times> string option" and r'
  assume "case v of (s', e, p) \<Rightarrow> s' = s \<and> p = None" and "tran_op env cls fn v = (r', v')"
  then show "tran_result env cls fn s r' v'" by (cases v) (auto intro: tran_op_result)
qed (auto simp: tran_result_def)

text \<open>A server that works: statements run, and a transaction whose body returns nil commits.\<close>

definition works :: "'e db_env \<Rightarrow> bool" where
  "works env = (\<forall>e. fst (db_fault env e) = Works)"

lemma works_fault: "works env \<Longrightarrow> db_fault env e = (f, e') \<Longrightarrow> f = Works"
  by (auto simp: works_def dest: spec [of _ e])

lemma works_round_trip:
  "works env \<Longrightarrow> round_trip env stmt (s, e) = (fst (stmt s), snd (stmt s), snd (db_fault env e))"
  by (cases "db_fault env e") (auto simp: round_trip_def dest: works_fault split: prod.splits)

lemma works_exec:
  "works env \<Longrightarrow> fst (stmt s) = Inr r \<Longrightarrow> exec env cls stmt (s, e) = (Inr r, snd (stmt s), snd (db_fault env e))"
  by (simp add: exec_def works_round_trip)

lemma works_Exec:
  "works env \<Longrightarrow> fst (stmt s) = Inr r \<Longrightarrow> Exec env cls stmt (s, e) = (None, snd (stmt s), snd (db_fault env e))"
  by (simp add: Exec_def works_exec)

lemma works_WithinTran:
  assumes "works env" and "\<And>e. \<exists>e'. fn (s, e) = (Ret None, s', e')"
  shows "\<exists>e'. WithinTran env (Pool cls) fn (s, e) = (Ret None, s', e')"
proof -
  obtain e1 where f: "fn (s, snd (db_fault env e)) = (Ret None, s', e1)" using assms(2) by blast
  obtain b where b: "db_fault env e = (Works, b)" using works_fault [OF assms(1)] by (metis prod.exhaust)
  obtain b1 where b1: "db_fault env e1 = (Works, b1)" using works_fault [OF assms(1)] by (metis prod.exhaust)
  have "tran env cls fn (s, e) = (Ret None, s', b1)" using f b b1 by (simp add: tran_def)
  then show ?thesis
    by (simp add: DB_within_def Do_def do_loop.simps [of _ _ _ 1] budget_def tran_cfg_def
        retryBackoff_def tran_op_def)
qed

text \<open>The placeholders of a bulk insert.\<close>

lemma count_join: "c \<notin> set sep \<Longrightarrow> count_list (join sep xs) c = sum_list (map (\<lambda>x. count_list x c) xs)"
  by (induction sep xs rule: join.induct) auto

lemma count_list_notin: "c \<notin> set xs \<Longrightarrow> count_list xs c = 0"
  by (simp add: count_list_0_iff)

lemma buildInsertQuery_placeholders:
  assumes "CHR ''?'' \<notin> set table" and "\<forall>c \<in> set columns. CHR ''?'' \<notin> set c"
    and "CHR ''?'' \<notin> set conflictAction" and "length columns dvd n"
  shows "count_list (buildInsertQuery table columns n conflictAction) CHR ''?'' = n"
proof -
  have "sum_list (map (\<lambda>x. count_list x CHR ''?'') columns) = 0"
    using assms(2) by (auto simp: sum_list_eq_0_iff count_list_notin)
  then show ?thesis
    using assms by (simp add: buildInsertQuery_def Let_def count_join count_list_notin sum_list_replicate)
qed

text \<open>The loop sends the chunks of the values one after the other.\<close>

lemma bulk_loop_chunks:
  assumes "\<And>e. fst (db_fault env e) = Works" and "\<And>q b s. fst (run q b s) = Inr ()" and "0 < stride"
  shows "\<exists>e'. bulk_loop env cls run rebind table columns conflict stride left vals (s, e) =
     (None, fold (\<lambda>b s. snd (run (rebind (buildInsertQuery table columns (length b) conflict)) b s))
              (chunks stride (drop left vals)) s, e')"
proof (induction "length vals - left" arbitrary: left s e rule: less_induct)
  case less
  show ?case
  proof (cases "left < length vals")
    case False
    then show ?thesis using assms(3) by (simp add: bulk_loop.simps [of _ _ _ _ _ _ _ _ left])
  next
    case True
    let ?b = "take stride (drop left vals)"
    have b: "take (min (left + stride) (length vals) - left) (drop left vals) = ?b"
      by (simp add: min_def)
    obtain e1 where f: "db_fault env e = (Works, e1)" using assms(1) by (metis prod.collapse)
    obtain s1 where r: "run (rebind (buildInsertQuery table columns (length ?b) conflict)) ?b s = (Inr (), s1)"
      using assms(2) by (metis prod.collapse)
    have "bulk_loop env cls run rebind table columns conflict stride left vals (s, e) =
        bulk_loop env cls run rebind table columns conflict stride (left + stride) vals (s1, e1)"
      using True assms(3) f r by (subst bulk_loop.simps) (simp only: Let_def b, simp add: round_trip_def)
    moreover have "chunks stride (drop left vals) = ?b # chunks stride (drop (left + stride) vals)"
      using True assms(3) by (subst chunks.simps) (simp add: add.commute)
    ultimately show ?thesis using less [of "left + stride" s1 e1] True assms(3) r by simp
  qed
qed

section \<open>Properties\<close>

text \<open>
  C28: a transaction is all or nothing, also under retries. \<open>WithinTran\<close> on a pool leaves the
  database either as it was, or as one run of the function on that database made it. It
  returns nil only in the second case; a panic or an error means the first, except for a
  commit whose reply was lost. It is assumed that a lost reply is not taken for a deadlock or
  a serialization failure.
\<close>
theorem WithinTran_atomic:
  assumes "\<And>x. lost_reply env x \<Longrightarrow> db_terminal cls (commit_error cls x)"
    and "WithinTran env (Pool cls) fn (s, e) = (r, s', e')"
  shows "(r = Ret None \<and> committed fn s s') \<or>
         (r \<noteq> Ret None \<and> s' = s) \<or>
         (\<exists>x. lost_reply env x \<and> r = Ret (Some (commit_error cls x)) \<and> committed fn s s')"
proof -
  obtain x s1 e1 p where d: "Do (tran_rt (db_rt env)) (tran_cfg cls) (tran_op env cls fn) (s, e, None) = (x, s1, e1, p)"
    by (metis prod.exhaust)
  with assms(2) have "r = (case p of None \<Rightarrow> Ret x | Some v \<Rightarrow> Panics v)" "s' = s1"
    by (auto simp: DB_within_def split: option.splits)
  with DB_within_result [OF assms(1) d] show ?thesis
    by (auto simp: tran_result_def split: option.splits)
qed

text \<open>Every round trip works, time stands still, and no error is retryable.\<close>

definition calm_db :: "unit db_env" where
  "calm_db = \<lparr>db_fault = \<lambda>e. (Works, e), db_rt = \<lparr>ctx_Err = \<lambda>_. None, timer = \<lambda>d e. (False, e),
     rand_Float64 = \<lambda>e. (Fin 0, e), convert = \<lambda>_. 0\<rparr>\<rparr>"

theorem WithinTran_atomic_witness:
  "WithinTran calm_db (Pool None) (\<lambda>(s, e). (Ret None, s + 1, e)) (41, ()) = (Ret None, 42 :: int, ()) \<and>
   committed (\<lambda>(s, e). (Ret None, s + 1, e :: unit)) (41 :: int) 42"
proof -
  have w: "WithinTran calm_db (Pool None) (\<lambda>(s, e). (Ret None, s + 1, e)) (41, ()) = (Ret None, 42 :: int, ())"
    by (simp add: DB_within_def Do_def do_loop.simps [of _ _ _ 1] budget_def tran_op_def tran_def
        calm_db_def tran_cfg_def retryBackoff_def)
  have "\<not> lost_reply calm_db x" for x by (simp add: lost_reply_def calm_db_def)
  with WithinTran_atomic [OF _ w] w show ?thesis by auto
qed

text \<open>
  C29: a bulk insert sends every value exactly once and in order. With a whole number of rows
  of at most 1000 columns, over a server that works, \<open>BulkInsert\<close> succeeds and has run one
  \<open>INSERT\<close> after the other on batches that make up the values; each batch is a whole number
  of rows, has at most 1000 values, and its statement has a placeholder for each of them.
\<close>
theorem BulkInsert_batches:
  assumes "\<And>e. fst (db_fault env e) = Works" and "\<And>q b s. fst (run q b s) = Inr ()"
    and "columns \<noteq> []" and "length columns \<le> maxParameters" and "length columns dvd length vals"
    and "CHR ''?'' \<notin> set table" and "\<forall>c \<in> set columns. CHR ''?'' \<notin> set c"
    and "CHR ''?'' \<notin> set conflict"
  shows "\<exists>bs e'. BulkInsert env cls run rebind table columns vals conflict (s, e) =
       (None, fold (\<lambda>b s. snd (run (rebind (buildInsertQuery table columns (length b) conflict)) b s)) bs s, e') \<and>
     concat bs = vals \<and>
     (\<forall>b \<in> set bs. b \<noteq> [] \<and> length b \<le> maxParameters \<and> length columns dvd length b \<and>
        count_list (buildInsertQuery table columns (length b) conflict) CHR ''?'' = length b)"
proof -
  let ?n = "maxParameters div length columns * length columns"
  have n: "0 < ?n" "?n \<le> maxParameters"
    using assms(3,4) by (auto simp: div_greater_zero_iff intro: div_times_less_eq_dividend)
  let ?bs = "chunks ?n vals"
  have "concat ?bs = vals" using n(1) by (rule concat_chunks)
  moreover have "b \<noteq> [] \<and> length b \<le> maxParameters \<and> length columns dvd length b \<and>
        count_list (buildInsertQuery table columns (length b) conflict) CHR ''?'' = length b"
    if "b \<in> set ?bs" for b
    using chunks_length [OF that dvd_triv_right assms(5)] n(2)
      buildInsertQuery_placeholders [OF assms(6-8), of "length b"] by linarith
  moreover have "\<exists>e'. BulkInsert env cls run rebind table columns vals conflict (s, e) =
       (None, fold (\<lambda>b s. snd (run (rebind (buildInsertQuery table columns (length b) conflict)) b s)) ?bs s, e')"
    using bulk_loop_chunks [where run = run and cls = cls and rebind = rebind and table = table and columns = columns
        and conflict = conflict and left = 0 and vals = vals and s = s and e = e, OF assms(1,2) n(1)] assms(3,5) n(1)
    by (auto simp: BulkInsert_def Let_def dvd_eq_mod_eq_0)
  ultimately show ?thesis by blast
qed

theorem BulkInsert_batches_witness:
  "\<exists>bs e'. BulkInsert calm_db None (\<lambda>q b s. (Inr (), s @ b)) (\<lambda>q. q) ''t'' [''a'', ''b''] [1, 2, 3, 4 :: int] [] ([], ()) =
       (None, fold (\<lambda>b s. snd ((Inr () :: go_error + unit), s @ b)) bs [], e') \<and>
     concat bs = [1, 2, 3, 4] \<and>
     (\<forall>b \<in> set bs. b \<noteq> [] \<and> length b \<le> maxParameters \<and> length [''a'', ''b''] dvd length b \<and>
        count_list (buildInsertQuery ''t'' [''a'', ''b''] (length b) []) CHR ''?'' = length b)"
proof (rule BulkInsert_batches)
  show "length [''a'', ''b''] dvd length [1, 2, 3, 4 :: int]" by (rule dvdI [of _ _ 2]) simp
qed (simp_all add: calm_db_def maxParameters_def)

end
