(* ===== verification/Go_Time.thy ===== *)
theory Go_Time
  imports Go_Strconv
begin

text \<open>
  The calendar of the package \<open>time\<close> in UTC: dates of the proleptic Gregorian calendar,
  \<open>Time.Date\<close>, \<open>time.Date\<close> with an overflowing month, \<open>AddDate\<close>, and \<open>Duration.String\<close>.
  Instants count nanoseconds since January 1 of year 1.
\<close>

abbreviation day_ns :: int where "day_ns \<equiv> 86400000000000"

definition leap :: "int \<Rightarrow> bool" where
  "leap y = (4 dvd y \<and> (\<not> 100 dvd y \<or> 400 dvd y))"

definition leap_day :: "int \<Rightarrow> int" where
  "leap_day y = (if leap y then 1 else 0)"

text \<open>Days from the start of year 1 to the start of a year, and from there to a month.\<close>

definition days_before_year :: "int \<Rightarrow> int" where
  "days_before_year y = 365 * (y - 1) + (y - 1) div 4 - (y - 1) div 100 + (y - 1) div 400"

definition days_before_month :: "int \<Rightarrow> int \<Rightarrow> int" where
  "days_before_month l m =
     (if m \<le> 1 then 0 else if m = 2 then 31 else if m = 3 then 59 + l else if m = 4 then 90 + l
      else if m = 5 then 120 + l else if m = 6 then 151 + l else if m = 7 then 181 + l
      else if m = 8 then 212 + l else if m = 9 then 243 + l else if m = 10 then 273 + l
      else if m = 11 then 304 + l else if m = 12 then 334 + l else 365 + l)"

definition days_in :: "int \<Rightarrow> int \<Rightarrow> int" where
  "days_in y m = days_before_month (leap_day y) (m + 1) - days_before_month (leap_day y) m"

definition day_number :: "int \<Rightarrow> int \<Rightarrow> int \<Rightarrow> int" where
  "day_number y m d = days_before_year y + days_before_month (leap_day y) m + d - 1"

text \<open>\<open>time.Date\<close> at midnight UTC: the month is normalized, the day may overflow.\<close>

definition time_Date :: "int \<Rightarrow> int \<Rightarrow> int \<Rightarrow> instant" where
  "time_Date y m d = day_number (y + (m - 1) div 12) ((m - 1) mod 12 + 1) d * day_ns"

text \<open>The date of a day: an estimate of the year that is off by at most one, then the month.\<close>

definition year_of_day :: "int \<Rightarrow> int" where
  "year_of_day d =
     (let y = (400 * d) div 146097 + 1
      in if d < days_before_year y then y - 1
         else if days_before_year (y + 1) \<le> d then y + 1 else y)"

definition month_of_yday :: "int \<Rightarrow> int \<Rightarrow> int" where
  "month_of_yday l n =
     (if n < 31 then 1 else if n < 59 + l then 2 else if n < 90 + l then 3 else if n < 120 + l then 4
      else if n < 151 + l then 5 else if n < 181 + l then 6 else if n < 212 + l then 7
      else if n < 243 + l then 8 else if n < 273 + l then 9 else if n < 304 + l then 10
      else if n < 334 + l then 11 else 12)"

definition civil :: "int \<Rightarrow> int \<times> int \<times> int" where
  "civil d =
     (let y = year_of_day d; n = d - days_before_year y; m = month_of_yday (leap_day y) n
      in (y, m, n - days_before_month (leap_day y) m + 1))"

definition Date :: "instant \<Rightarrow> int \<times> int \<times> int" where
  "Date t = civil (t div day_ns)"

text \<open>\<open>AddDate\<close>; the time of the day stays.\<close>

definition AddDate :: "instant \<Rightarrow> int \<Rightarrow> int \<Rightarrow> int \<Rightarrow> instant" where
  "AddDate t years months days =
     (case Date t of (y, m, d) \<Rightarrow> time_Date (y + years) (m + months) (d + days) + t mod day_ns)"

text \<open>The year in a layout with \<open>2006\<close>.\<close>

definition format_year :: "int \<Rightarrow> string" where
  "format_year y =
     (if y < 0 then CHR ''-'' # (if y > - 10000 then low_digits 4 (nat (- y)) else show_nat (nat (- y)))
      else if y < 10000 then low_digits 4 (nat y) else show_nat (nat y))"

text \<open>\<open>Duration.String\<close>: a fraction without trailing zeros, and the units above a second.\<close>

definition frac_text :: "nat \<Rightarrow> nat \<Rightarrow> string" where
  "frac_text p v =
     (let ds = rev (dropWhile (\<lambda>c. c = CHR ''0'') (rev (low_digits p v)))
      in if ds = [] then [] else CHR ''.'' # ds)"

definition duration_String :: "duration \<Rightarrow> string" where
  "duration_String d =
     (let u = nat \<bar>d\<bar>; sgn = (if d < 0 then ''-'' else [])
      in if d = 0 then ''0s''
         else if u < 1000 then sgn @ show_nat u @ ''ns''
         else if u < 1000000 then sgn @ show_nat (u div 1000) @ frac_text 3 u @ [CHR 0xC2, CHR 0xB5, CHR ''s'']
         else if u < 1000000000 then sgn @ show_nat (u div 1000000) @ frac_text 6 u @ ''ms''
         else (let secs = u div 1000000000; mins = secs div 60; hours = mins div 60
               in sgn @ (if hours = 0 then [] else show_nat hours @ ''h'') @
                  (if mins = 0 then [] else show_nat (mins mod 60) @ ''m'') @
                  show_nat (secs mod 60) @ frac_text 9 u @ ''s''))"

section \<open>Years and months\<close>

lemma div_pred: "0 < n \<Longrightarrow> (y :: int) div n = (y - 1) div n + (if n dvd y then 1 else 0)"
proof -
  assume n: "0 < n"
  define q r where "q = y div n" and "r = y mod n"
  have y: "y = n * q + r" and r: "0 \<le> r" "r < n" using n by (simp_all add: q_def r_def)
  show ?thesis
  proof (cases "r = 0")
    case True
    then have "(y - 1) div n = q - 1"
      using y n by (intro int_div_pos_eq [of _ _ _ "n - 1"]) (auto simp: algebra_simps)
    with True show ?thesis by (auto simp: q_def r_def)
  next
    case False
    then have "(y - 1) div n = q" using y r by (intro int_div_pos_eq [of _ _ _ "r - 1"]) auto
    with False show ?thesis by (auto simp: q_def r_def dvd_eq_mod_eq_0)
  qed
qed

lemma days_before_year_Suc: "days_before_year (y + 1) = days_before_year y + 365 + leap_day y"
proof -
  define u v w :: int where "u = (if 4 dvd y then 1 else 0)" and "v = (if 100 dvd y then 1 else 0)"
    and "w = (if 400 dvd y then 1 else 0)"
  have "4 dvd y" if "100 dvd y" by (rule dvd_trans [OF _ that]) simp
  moreover have "100 dvd y" if "400 dvd y" by (rule dvd_trans [OF _ that]) simp
  ultimately have l: "leap_day y = u - v + w"
    unfolding u_def v_def w_def leap_day_def leap_def
    by (cases "4 dvd y"; cases "100 dvd y"; cases "400 dvd y") simp_all
  have d: "y div 4 = (y - 1) div 4 + u" "y div 100 = (y - 1) div 100 + v" "y div 400 = (y - 1) div 400 + w"
    unfolding u_def v_def w_def by (rule div_pred, simp)+
  have sum: "365 * y + (a + u) - (b + v) + (c + w) = 365 * (y - 1) + a - b + c + 365 + (u - v + w)" for a b c
    by simp
  show ?thesis unfolding days_before_year_def add_diff_cancel_right' d l by (rule sum)
qed

lemma days_before_year_bounds:
  "146097 * (y - 1) - 699 \<le> 400 * days_before_year y" "400 * days_before_year y \<le> 146097 * (y - 1) + 396"
proof -
  define k where "k = y - 1"
  define a b c where "a = k div 4" and "b = k div 100" and "c = k div 400"
  have "4 * a \<le> k" "k \<le> 4 * a + 3" "100 * b \<le> k" "k \<le> 100 * b + 99" "400 * c \<le> k" "k \<le> 400 * c + 399"
    unfolding a_def b_def c_def by simp_all
  moreover have "days_before_year y = 365 * k + a - b + c"
    unfolding days_before_year_def k_def a_def b_def c_def ..
  ultimately show "146097 * (y - 1) - 699 \<le> 400 * days_before_year y"
    and "400 * days_before_year y \<le> 146097 * (y - 1) + 396"
    unfolding k_def [symmetric] by linarith+
qed

lemma year_of_day_bounds:
  "days_before_year (year_of_day d) \<le> d" "d < days_before_year (year_of_day d + 1)"
proof -
  define q where "q = (400 * d) div 146097"
  have "146097 * q \<le> 400 * d" "400 * d < 146097 * q + 146097"
    using mult_div_mod_eq [of 146097 "400 * d"] pos_mod_sign [of 146097 "400 * d"]
      pos_mod_bound [of 146097 "400 * d"] unfolding q_def by simp_all
  moreover have "400 * days_before_year q \<le> 146097 * q - 145701"
    using days_before_year_bounds(2) [of q] by simp
  moreover have "146097 * q + 291495 \<le> 400 * days_before_year (q + 3)"
    using days_before_year_bounds(1) [of "q + 3"] by simp
  ultimately have "days_before_year q \<le> d" and "d < days_before_year (q + 3)" by simp_all
  then show "days_before_year (year_of_day d) \<le> d" and "d < days_before_year (year_of_day d + 1)"
    unfolding year_of_day_def Let_def q_def [symmetric]
    by (auto simp: add.commute add.left_commute)
qed

lemma days_before_year_mono: "y \<le> z \<Longrightarrow> days_before_year y \<le> days_before_year z"
proof (induction z rule: int_ge_induct)
  case (step i)
  then show ?case using days_before_year_Suc [of i] by (simp add: leap_day_def split: if_splits)
qed simp

lemma year_of_day_unique:
  assumes "days_before_year y \<le> d" and "d < days_before_year (y + 1)"
  shows "year_of_day d = y"
proof (rule ccontr)
  assume "year_of_day d \<noteq> y"
  then consider "year_of_day d + 1 \<le> y" | "y + 1 \<le> year_of_day d" by linarith
  then show False
    using days_before_year_mono year_of_day_bounds [of d] assms by cases force+
qed

definition valid_date :: "int \<Rightarrow> int \<Rightarrow> int \<Rightarrow> bool" where
  "valid_date y m d = (1 \<le> m \<and> m \<le> 12 \<and> 1 \<le> d \<and> d \<le> days_in y m)"

lemma leap_day_cases: "leap_day y = 0 \<or> leap_day y = 1"
  by (simp add: leap_day_def)

lemma month_of_yday_works:
  assumes "0 \<le> n" and "n < 365 + l" and "l = 0 \<or> l = 1"
  defines "m \<equiv> month_of_yday l n"
  shows "1 \<le> m \<and> m \<le> 12 \<and> days_before_month l m \<le> n \<and> n < days_before_month l (m + 1)"
  using assms(1-3) unfolding m_def month_of_yday_def days_before_month_def by auto

lemma int_month_cases:
  "1 \<le> (m :: int) \<Longrightarrow> m \<le> 12 \<Longrightarrow>
   m = 1 \<or> m = 2 \<or> m = 3 \<or> m = 4 \<or> m = 5 \<or> m = 6 \<or> m = 7 \<or> m = 8 \<or> m = 9 \<or> m = 10 \<or> m = 11 \<or> m = 12"
  by presburger

lemma month_of_yday_unique:
  assumes "1 \<le> m" and "m \<le> 12" and "l = 0 \<or> l = 1"
    and "days_before_month l m \<le> n" and "n < days_before_month l (m + 1)"
  shows "month_of_yday l n = m"
  using int_month_cases [OF assms(1,2)] assms(3-5)
  by (elim disjE) (simp_all add: days_before_month_def month_of_yday_def)

lemma days_before_month_range: "0 \<le> l \<Longrightarrow> 0 \<le> days_before_month l m \<and> days_before_month l m \<le> 365 + l"
  by (simp add: days_before_month_def)

lemma valid_date_yday:
  assumes "valid_date y m d"
  shows "0 \<le> days_before_month (leap_day y) m + d - 1" "days_before_month (leap_day y) m + d - 1 < 365 + leap_day y"
proof -
  have "0 \<le> leap_day y" by (simp add: leap_day_def)
  from days_before_month_range [OF this, of m] days_before_month_range [OF this, of "m + 1"] assms
  show "0 \<le> days_before_month (leap_day y) m + d - 1"
    and "days_before_month (leap_day y) m + d - 1 < 365 + leap_day y"
    by (auto simp: valid_date_def days_in_def)
qed

lemma civil_day_number:
  assumes "valid_date y m d"
  shows "civil (day_number y m d) = (y, m, d)"
proof -
  have y: "year_of_day (day_number y m d) = y"
    using valid_date_yday [OF assms] days_before_year_Suc [of y]
    by (intro year_of_day_unique) (simp_all add: day_number_def)
  have "month_of_yday (leap_day y) (day_number y m d - days_before_year y) = m"
    using assms leap_day_cases [of y]
    by (intro month_of_yday_unique) (auto simp: valid_date_def days_in_def day_number_def)
  with y show ?thesis by (simp add: civil_def Let_def day_number_def)
qed

lemma day_number_civil:
  assumes "civil n = (y, m, d)"
  shows "valid_date y m d \<and> day_number y m d = n"
proof -
  let ?y = "year_of_day n"
  have "n - days_before_year ?y < 365 + leap_day ?y"
    using year_of_day_bounds(2) [of n] days_before_year_Suc [of ?y] by simp
  with month_of_yday_works [of "n - days_before_year ?y" "leap_day ?y"] year_of_day_bounds(1) [of n]
    leap_day_cases [of ?y] assms
  show ?thesis by (auto simp: civil_def Let_def valid_date_def days_in_def day_number_def)
qed

text \<open>The first day of a month, and of the month that follows it.\<close>

definition month_start :: "int \<Rightarrow> instant" where
  "month_start i = day_number (i div 12) (i mod 12 + 1) 1 * day_ns"

lemma valid_first: "valid_date (i div 12) (i mod 12 + 1) 1"
proof -
  have m: "0 \<le> i mod 12" "i mod 12 < 12" by simp_all
  have "days_before_month l (i mod 12 + 1) + 1 \<le> days_before_month l (i mod 12 + 1 + 1)" if "0 \<le> l" for l
  proof -
    have "1 \<le> i mod 12 + 1" "i mod 12 + 1 \<le> 12" using m by simp_all
    from int_month_cases [OF this] that show ?thesis
      by (elim disjE) (simp_all only: days_before_month_def, simp_all)
  qed
  from this [of "leap_day (i div 12)"] m show ?thesis
    by (auto simp: valid_date_def days_in_def leap_day_def split: if_splits)
qed

lemma first_of_next:
  "day_number (y + 1) 1 1 = day_number y 12 1 + days_in y 12"
  "day_number y (m + 1) 1 = day_number y m 1 + days_in y m"
  using days_before_year_Suc [of y] by (simp_all add: day_number_def days_in_def days_before_month_def)

lemma month_index:
  "0 \<le> r \<Longrightarrow> r < 12 \<Longrightarrow> i = 12 * q + r \<Longrightarrow> i div 12 = q \<and> i mod 12 = r" for i q r :: int
  by (auto intro: int_div_pos_eq int_mod_pos_eq)

lemma month_index_Suc:
  "(i + 1) div 12 = (if i mod 12 = 11 then i div 12 + 1 else i div 12)"
  "(i + 1) mod 12 = (if i mod 12 = 11 then 0 else i mod 12 + 1)" for i :: int
proof -
  define q r where "q = i div 12" and "r = i mod 12"
  have i: "i = 12 * q + r" and r: "0 \<le> r" "r < 12" by (simp_all add: q_def r_def)
  have "(i + 1) div 12 = (if r = 11 then q + 1 else q) \<and> (i + 1) mod 12 = (if r = 11 then 0 else r + 1)"
    using month_index [of 0 "i + 1" "q + 1"] month_index [of "r + 1" "i + 1" q] i r by auto
  then show "(i + 1) div 12 = (if i mod 12 = 11 then i div 12 + 1 else i div 12)"
    and "(i + 1) mod 12 = (if i mod 12 = 11 then 0 else i mod 12 + 1)"
    unfolding q_def r_def by blast+
qed

lemma next_month_day:
  "day_number ((i + 1) div 12) ((i + 1) mod 12 + 1) 1 =
   day_number (i div 12) (i mod 12 + 1) 1 + days_in (i div 12) (i mod 12 + 1)"
proof (cases "i mod 12 = 11")
  case True
  show ?thesis unfolding month_index_Suc if_P [OF True] True
    using first_of_next(1) [of "i div 12"] by simp
next
  case False
  show ?thesis unfolding month_index_Suc if_not_P [OF False] by (rule first_of_next)
qed

lemma month_start_next: "month_start (i + 1) = month_start i + days_in (i div 12) (i mod 12 + 1) * day_ns"
  unfolding month_start_def next_month_day by (simp add: algebra_simps)

lemma days_in_pos: "0 < days_in (i div 12) (i mod 12 + 1)"
  using valid_first [of i] by (auto simp: valid_date_def)

lemma Date_month_start: "Date (month_start i) = (i div 12, i mod 12 + 1, 1)"
  using civil_day_number [OF valid_first [of i]] by (simp add: Date_def month_start_def)

lemma time_Date_first: "time_Date y m 1 = month_start (12 * y + m - 1)"
proof -
  have "12 * y + m - 1 = 12 * (y + (m - 1) div 12) + (m - 1) mod 12" by (simp add: distrib_left)
  from month_index [OF _ _ this] show ?thesis by (simp add: time_Date_def month_start_def)
qed

lemma month_start_of_date:
  assumes "Date t = (y, m, d)"
  shows "month_start (12 * y + m - 1) \<le> t \<and> t < month_start (12 * y + m)"
proof -
  have v: "valid_date y m d" and n: "day_number y m d = t div day_ns"
    using day_number_civil [of "t div day_ns" y m d] assms by (auto simp: Date_def)
  then have i: "(12 * y + m - 1) div 12 = y" "(12 * y + m - 1) mod 12 + 1 = m"
    using month_index [of "m - 1" "12 * y + m - 1" y] by (auto simp: valid_date_def)
  have t: "t = t div day_ns * day_ns + t mod day_ns" "0 \<le> t mod day_ns" "t mod day_ns < day_ns" by simp_all
  have s: "month_start (12 * y + m - 1) = (t div day_ns - (d - 1)) * day_ns"
    using n unfolding month_start_def i by (simp add: day_number_def)
  have "month_start (12 * y + m - 1 + 1) = month_start (12 * y + m - 1) + days_in y m * day_ns"
    unfolding month_start_next i ..
  then have "month_start (12 * y + m) = month_start (12 * y + m - 1) + days_in y m * day_ns" by simp
  with s t v show ?thesis
    unfolding valid_date_def by (auto simp: left_diff_distrib)
qed

lemma time_Date_valid:
  "1 \<le> m \<Longrightarrow> m \<le> 12 \<Longrightarrow> time_Date y m d = day_number y m d * day_ns"
  by (simp add: time_Date_def)

text \<open>Evaluation of dates.\<close>

lemmas date_defs = Date_def civil_def year_of_day_def days_before_year_def month_of_yday_def leap_day_def
  leap_def days_before_month_def time_Date_def day_number_def AddDate_def Let_def

end
