(* ===== verification/Partition.thy ===== *)
theory Partition
  imports Dbx Go_Time "HOL-Library.List_Lexorder" "HOL-Library.Char_ord"
begin

text \<open>
  The package \<open>partition\<close>: the check of a configuration, the names of partitions and their
  parsing, the plan of a run, its DDL, and \<open>Maintain\<close> in one transaction. The database is its
  catalog: relations by name, with the parent and the range of those that are partitions.
\<close>

section \<open>Periods and names\<close>

datatype period = Day | Month | Period_other int

fun period_int :: "period \<Rightarrow> int" where
  "period_int Day = 1"
| "period_int Month = 2"
| "period_int (Period_other n) = n"

definition layout_len :: "period \<Rightarrow> nat" where
  "layout_len p = (if p = Day then length ''2006_01_02'' else length ''2006_01'')"

text \<open>\<open>Format\<close> and \<open>time.Parse\<close> for the layout of the period.\<close>

definition format_period :: "period \<Rightarrow> instant \<Rightarrow> string" where
  "format_period p t =
     (case Date t of (y, m, d) \<Rightarrow>
        format_year y @ ''_'' @ low_digits 2 (nat m) @ (if p = Day then ''_'' @ low_digits 2 (nat d) else []))"

definition take_digits :: "nat \<Rightarrow> string \<Rightarrow> (int \<times> string) option" where
  "take_digits n s =
     (if n \<le> length s \<and> list_all is_digit (take n s) then Some (int (digits_val (take n s)), drop n s) else None)"

definition parse_period :: "period \<Rightarrow> string \<Rightarrow> instant option" where
  "parse_period p s =
     (case take_digits 4 s of
        None \<Rightarrow> None
      | Some (y, s) \<Rightarrow>
          (case cut_prefix ''_'' s of
             None \<Rightarrow> None
           | Some s \<Rightarrow>
               (case take_digits 2 s of
                  None \<Rightarrow> None
                | Some (m, s) \<Rightarrow>
                    if m \<le> 0 \<or> 12 < m then None
                    else if p \<noteq> Day then (if s = [] then Some (time_Date y m 1) else None)
                    else (case cut_prefix ''_'' s of
                            None \<Rightarrow> None
                          | Some s \<Rightarrow>
                              (case take_digits 2 s of
                                 None \<Rightarrow> None
                               | Some (d, s) \<Rightarrow>
                                   if s \<noteq> [] \<or> d < 1 \<or> days_in y m < d then None
                                   else Some (time_Date y m d))))))"

definition Period_start :: "period \<Rightarrow> instant \<Rightarrow> instant" where
  "Period_start p t =
     (case Date t of (y, m, d) \<Rightarrow> if p = Day then time_Date y m d else time_Date y m 1)"

definition Period_add :: "period \<Rightarrow> instant \<Rightarrow> int \<Rightarrow> instant" where
  "Period_add p start n = (if p = Day then AddDate start 0 0 n else AddDate start 0 n 0)"

section \<open>Configuration\<close>

record config =
  Tables :: "string list"
  Period :: period
  Ahead :: int
  Retention :: duration

definition ident_start :: "char \<Rightarrow> bool" where
  "ident_start c = ((97 \<le> (of_char c :: nat) \<and> (of_char c :: nat) \<le> 122) \<or> c = CHR ''_'')"

definition ident :: "string \<Rightarrow> bool" where
  "ident s = (case s of [] \<Rightarrow> False
              | c # cs \<Rightarrow> ident_start c \<and> list_all (\<lambda>c. ident_start c \<or> is_digit c) cs)"

text \<open>The expression \<open>tableName\<close>: an identifier, or two with a dot between them.\<close>

definition tableName :: "string \<Rightarrow> bool" where
  "tableName s = (case cut ''.'' s of (a, b, dot) \<Rightarrow> if dot then ident a \<and> ident b else ident a)"

definition baseName :: "string \<Rightarrow> string" where
  "baseName table = (case cut ''.'' table of (_, name, dot) \<Rightarrow> if dot then name else table)"

definition maxName :: nat where "maxName = 63"

fun check_tables :: "config \<Rightarrow> string set \<Rightarrow> string list \<Rightarrow> err" where
  "check_tables cfg seen [] = None"
| "check_tables cfg seen (table # rest) =
     (if \<not> tableName table
      then Some (Plain (''partition: table '' @ go_quote table @ '' is not a plain lowercase name''))
      else if length (baseName table) + length ''_'' + layout_len (Period cfg) > maxName
      then Some (Plain (''partition: the partitions of '' @ table @ '' get names longer than '' @
             show_nat maxName @ '' bytes''))
      else if table \<in> seen
      then Some (Plain (''partition: table '' @ table @ '' is listed twice''))
      else check_tables cfg (insert table seen) rest)"

definition check :: "config \<Rightarrow> err" where
  "check cfg =
     (if Period cfg \<noteq> Day \<and> Period cfg \<noteq> Month
      then Some (Plain (''partition: unknown period '' @ show_int (period_int (Period cfg))))
      else if Ahead cfg < 0 \<or> Retention cfg < 0
      then Some (Plain (''partition: negative ahead '' @ show_int (Ahead cfg) @ '' or retention '' @
             duration_String (Retention cfg)))
      else if Tables cfg = [] then Some (Plain ''partition: no tables'')
      else check_tables cfg {} (Tables cfg))"

text \<open>\<open>New\<close>; the keeper is its configuration.\<close>

definition New :: "config \<Rightarrow> go_error + config" where
  "New cfg =
     (let cfg = cfg\<lparr>Ahead := (if Ahead cfg \<noteq> 0 then Ahead cfg else 1)\<rparr>
      in case check cfg of Some e \<Rightarrow> Inl e | None \<Rightarrow> Inr cfg)"

section \<open>Partitions and the plan\<close>

record part =
  p_table :: string
  p_name :: string
  p_from :: instant
  p_to :: instant

definition Keeper_part :: "config \<Rightarrow> string \<Rightarrow> instant \<Rightarrow> part" where
  "Keeper_part k table from =
     \<lparr>p_table = table, p_name = table @ ''_'' @ format_period (Period k) from, p_from = from,
      p_to = Period_add (Period k) from 1\<rparr>"

definition Keeper_parse :: "config \<Rightarrow> string \<Rightarrow> string \<Rightarrow> part option" where
  "Keeper_parse k table relname =
     (case cut_prefix (baseName table @ ''_'') relname of
        None \<Rightarrow> None
      | Some suffix \<Rightarrow>
          (case parse_period (Period k) suffix of
             None \<Rightarrow> None
           | Some from \<Rightarrow> Some (Keeper_part k table from)))"

definition plan :: "config \<Rightarrow> instant \<Rightarrow> part list \<Rightarrow> part list \<times> part list" where
  "plan k now existing =
     (let have = set (map p_name existing);
          current = Period_start (Period k) now;
          create = concat (map (\<lambda>i. filter (\<lambda>p. p_name p \<notin> have)
                     (map (\<lambda>table. Keeper_part k table (Period_add (Period k) current i)) (Tables k)))
                   [0..wrap64 (Ahead k + 1) - 1])
      in if Retention k = 0 then (create, [])
         else let cutoff = now - Retention k
              in (create, concat (map (\<lambda>table. filter (\<lambda>p. p_table p = table \<and> \<not> cutoff < p_to p) existing)
                            (rev (Tables k)))))"

section \<open>The catalog\<close>

record relation =
  rel_name :: string
  rel_parent :: "(string \<times> instant \<times> instant) option"

type_synonym catalog = "relation list"

definition has_rel :: "string \<Rightarrow> catalog \<Rightarrow> bool" where
  "has_rel name cat = (name \<in> set (map rel_name cat))"

text \<open>The partitions of a table by name, in the order of the names.\<close>

definition selectPartitions :: "string \<Rightarrow> (catalog, string list) stmt" where
  "selectPartitions table cat =
     (Inr (sort (map (baseName \<circ> rel_name)
        (filter (\<lambda>r. case rel_parent r of None \<Rightarrow> False | Some (t, _) \<Rightarrow> t = table) cat))), cat)"

definition overlaps :: "part \<Rightarrow> relation \<Rightarrow> bool" where
  "overlaps p r =
     (case rel_parent r of None \<Rightarrow> False
      | Some (t, a, b) \<Rightarrow> t = p_table p \<and> a < p_to p \<and> p_from p < b)"

definition rel_of :: "part \<Rightarrow> relation" where
  "rel_of p = \<lparr>rel_name = p_name p, rel_parent = Some (p_table p, p_from p, p_to p)\<rparr>"

definition sql_create :: "part \<Rightarrow> (catalog, unit) stmt" where
  "sql_create p cat =
     (if \<not> has_rel (p_table p) cat then (Inl (Plain ''relation does not exist''), cat)
      else if has_rel (p_name p) cat then (Inl (Plain ''relation already exists''), cat)
      else if list_ex (overlaps p) cat then (Inl (Plain ''partition would overlap''), cat)
      else (Inr (), cat @ [rel_of p]))"

definition attached :: "part \<Rightarrow> relation \<Rightarrow> bool" where
  "attached p r =
     (rel_name r = p_name p \<and> (case rel_parent r of None \<Rightarrow> False | Some (t, _) \<Rightarrow> t = p_table p))"

definition sql_detach :: "part \<Rightarrow> (catalog, unit) stmt" where
  "sql_detach p cat =
     (if list_ex (attached p) cat then (Inr (), update_where (attached p) (\<lambda>r. r\<lparr>rel_parent := None\<rparr>) cat)
      else (Inl (Plain ''relation is not a partition''), cat))"

definition sql_drop :: "part \<Rightarrow> (catalog, unit) stmt" where
  "sql_drop p cat =
     (if has_rel (p_name p) cat then (Inr (), filter (\<lambda>r. rel_name r \<noteq> p_name p) cat)
      else (Inl (Plain ''table does not exist''), cat))"

section \<open>Maintain\<close>

fun partitions ::
    "'e db_env \<Rightarrow> classifier option \<Rightarrow> config \<Rightarrow> string list \<Rightarrow> catalog \<times> 'e \<Rightarrow> (go_error + part list) \<times> catalog \<times> 'e" where
  "partitions env cls k [] w = (Inr [], w)"
| "partitions env cls k (table # rest) w =
     (case QueryList env cls (selectPartitions table) w of
        (Inl x, w) \<Rightarrow> (Inl (wrap_err (''partition: read the partitions of '' @ table) x), w)
      | (Inr names, w) \<Rightarrow>
          (case partitions env cls k rest w of
             (Inl x, w) \<Rightarrow> (Inl x, w)
           | (Inr ps, w) \<Rightarrow> (Inr (List.map_filter (Keeper_parse k table) names @ ps), w)))"

fun create_parts :: "'e db_env \<Rightarrow> classifier option \<Rightarrow> part list \<Rightarrow> catalog \<times> 'e \<Rightarrow> err \<times> catalog \<times> 'e" where
  "create_parts env cls [] w = (None, w)"
| "create_parts env cls (p # ps) w =
     (case Exec env cls (sql_create p) w of
        (Some x, w) \<Rightarrow> (Some (wrap_err (''partition: create '' @ p_name p) x), w)
      | (None, w) \<Rightarrow> create_parts env cls ps w)"

fun drop_parts :: "'e db_env \<Rightarrow> classifier option \<Rightarrow> part list \<Rightarrow> catalog \<times> 'e \<Rightarrow> err \<times> catalog \<times> 'e" where
  "drop_parts env cls [] w = (None, w)"
| "drop_parts env cls (p # ps) w =
     (case Exec env cls (sql_detach p) w of
        (Some x, w) \<Rightarrow> (Some (wrap_err (''partition: detach '' @ p_name p) x), w)
      | (None, w) \<Rightarrow>
          (case Exec env cls (sql_drop p) w of
             (Some x, w) \<Rightarrow> (Some (wrap_err (''partition: drop '' @ p_name p) x), w)
           | (None, w) \<Rightarrow> drop_parts env cls ps w))"

definition apply_plan ::
    "'e db_env \<Rightarrow> classifier option \<Rightarrow> part list \<Rightarrow> part list \<Rightarrow> catalog \<times> 'e \<Rightarrow> err \<times> catalog \<times> 'e" where
  "apply_plan env cls create dropped w =
     (case create_parts env cls create w of
        (Some x, w) \<Rightarrow> (Some x, w)
      | (None, w) \<Rightarrow> drop_parts env cls dropped w)"

text \<open>The body of the transaction: the advisory lock and the lock timeout leave the catalog alone.\<close>

definition no_change :: "(catalog, unit) stmt" where
  "no_change cat = (Inr (), cat)"

definition maintain_tx ::
    "'e db_env \<Rightarrow> classifier option \<Rightarrow> config \<Rightarrow> instant \<Rightarrow> (catalog, 'e) tx_fn" where
  "maintain_tx env cls k now w =
     (case round_trip env no_change w of
        (Inl x, w) \<Rightarrow> (Ret (Some (wrap_err ''partition: take the lock'' x)), w)
      | (Inr _, w) \<Rightarrow>
          (case Exec env cls no_change w of
             (Some x, w) \<Rightarrow> (Ret (Some (wrap_err ''partition: set the lock timeout'' x)), w)
           | (None, w) \<Rightarrow>
               (case partitions env cls k (Tables k) w of
                  (Inl x, w) \<Rightarrow> (Ret (Some x), w)
                | (Inr existing, w) \<Rightarrow>
                    (case plan k now existing of (create, dropped) \<Rightarrow>
                       (case apply_plan env cls create dropped w of (x, w) \<Rightarrow> (Ret x, w))))))"

definition Maintain ::
    "'e db_env \<Rightarrow> classifier option \<Rightarrow> ('e \<Rightarrow> instant \<times> 'e) \<Rightarrow> config \<Rightarrow> catalog \<times> 'e \<Rightarrow> err outcome \<times> catalog \<times> 'e" where
  "Maintain env cls clock k = (\<lambda>(cat, e).
     case clock e of (now, e) \<Rightarrow> WithinTran env (Pool cls) (maintain_tx env cls k now) (cat, e))"

section \<open>Periods form a grid\<close>

text \<open>
  What the keeper relies on in the calendar: the periods follow one another without gaps,
  \<open>start\<close> finds the one that holds a time, and \<open>add\<close> moves along them.
\<close>

locale period_grid =
  fixes ps :: "int \<Rightarrow> instant" and start :: "instant \<Rightarrow> instant" and add :: "instant \<Rightarrow> int \<Rightarrow> instant"
  assumes ps_next: "ps i < ps (i + 1)"
    and start_ps: "\<exists>i. start t = ps i \<and> ps i \<le> t \<and> t < ps (i + 1)"
    and add_ps: "add (ps i) n = ps (i + n)"
begin

lemma ps_less: "i < j \<Longrightarrow> ps i < ps j"
proof (induction j rule: int_gr_induct)
  case (step j)
  then show ?case using ps_next [of j] by simp
qed (rule ps_next)

lemma ps_less_iff: "ps i < ps j \<longleftrightarrow> i < j"
  using ps_less [of i j] ps_less [of j i] by (cases i j rule: linorder_cases) auto

lemma ps_le_iff: "ps i \<le> ps j \<longleftrightarrow> i \<le> j"
  using ps_less_iff [of j i] by auto

lemma ps_eq_iff: "ps i = ps j \<longleftrightarrow> i = j"
  using ps_less_iff [of i j] ps_less_iff [of j i] by force

lemma ps_disjoint: "ps i < ps (j + 1) \<and> ps j < ps (i + 1) \<longleftrightarrow> i = j"
  by (auto simp: ps_less_iff)

lemma ps_covers:
  assumes "ps i \<le> t" and "t < ps (i + 1 + int n)"
  shows "\<exists>j. i \<le> j \<and> j \<le> i + int n \<and> ps j \<le> t \<and> t < ps (j + 1)"
  using assms
proof (induction n)
  case (Suc n)
  show ?case
  proof (cases "t < ps (i + 1 + int n)")
    case True
    with Suc show ?thesis by force
  next
    case False
    then show ?thesis using Suc.prems by (intro exI [of _ "i + int (Suc n)"]) (auto simp: algebra_simps)
  qed
qed auto

end

definition grid :: "period \<Rightarrow> int \<Rightarrow> instant" where
  "grid p i = (if p = Day then i * day_ns else month_start i)"

lemma day_start: "Period_start Day t = t div day_ns * day_ns"
  using day_number_civil [of "t div day_ns"]
  by (auto simp: Period_start_def Date_def valid_date_def time_Date_valid split: prod.splits)

lemma day_add: "Period_add Day (i * day_ns) n = (i + n) * day_ns"
  using day_number_civil [of i]
  by (auto simp: Period_add_def AddDate_def Date_def valid_date_def time_Date_valid day_number_def
      split: prod.splits)

lemma month_add: "p \<noteq> Day \<Longrightarrow> Period_add p (month_start i) n = month_start (i + n)"
  by (simp add: Period_add_def AddDate_def Date_month_start time_Date_first)
     (simp add: month_start_def)

lemma month_start_grid: "p \<noteq> Day \<Longrightarrow> \<exists>i. Period_start p t = month_start i \<and> month_start i \<le> t \<and> t < month_start (i + 1)"
  using month_start_of_date [of t]
  by (cases "Date t") (auto simp: Period_start_def time_Date_first)

lemma month_start_less: "month_start i < month_start (i + 1)"
  using days_in_pos [of i] by (simp add: month_start_next)

lemma day_covers: "t div day_ns * day_ns \<le> t \<and> t < (t div day_ns + 1) * day_ns"
proof -
  define q r where "q = t div day_ns" and "r = t mod day_ns"
  have "t = q * day_ns + r" "0 \<le> r" "r < day_ns" unfolding q_def r_def by simp_all
  then have "q * day_ns \<le> t \<and> t < (q + 1) * day_ns" by (simp add: distrib_right)
  then show ?thesis by (simp add: q_def)
qed

interpretation per: period_grid "grid p" "Period_start p" "Period_add p" for p
proof
  fix i n t
  show "grid p i < grid p (i + 1)" by (simp add: grid_def month_start_less)
  show "Period_add p (grid p i) n = grid p (i + n)" by (auto simp: grid_def day_add month_add)
  show "\<exists>i. Period_start p t = grid p i \<and> grid p i \<le> t \<and> t < grid p (i + 1)"
  proof (cases "p = Day")
    case True
    then show ?thesis using day_covers [of t] by (intro exI [of _ "t div day_ns"]) (simp add: grid_def day_start)
  next
    case False
    then show ?thesis using month_start_grid [OF False, of t] by (simp add: grid_def)
  qed
qed

section \<open>Names\<close>

text \<open>The years whose names have four digits, from year 1 on.\<close>

definition in_years :: "instant \<Rightarrow> bool" where
  "in_years t = (0 \<le> t \<and> t < time_Date 10000 1 1)"

lemma in_years_Date:
  assumes "in_years t" and "Date t = (y, m, d)"
  shows "0 \<le> y \<and> y < 10000 \<and> valid_date y m d"
proof -
  have v: "valid_date y m d" and n: "day_number y m d = t div day_ns"
    using day_number_civil [of "t div day_ns" y m d] assms(2) by (auto simp: Date_def)
  have y: "days_before_year y \<le> t div day_ns" "t div day_ns < days_before_year (y + 1)"
    using valid_date_yday [OF v] n days_before_year_Suc [of y] by (auto simp: day_number_def)
  have "0 \<le> t div day_ns" using assms(1) by (simp add: in_years_def pos_imp_zdiv_nonneg_iff)
  moreover have "t div day_ns < days_before_year 10000"
  proof -
    have "t < days_before_year 10000 * day_ns"
      using assms(1) by (simp add: in_years_def time_Date_def day_number_def days_before_month_def)
    with day_covers [of t] have "t div day_ns * day_ns < days_before_year 10000 * day_ns"
      by (blast intro: order.strict_trans1)
    then show ?thesis by (simp only: mult_less_cancel_right)
  qed
  moreover have "days_before_year 0 < 0" by (simp add: days_before_year_def)
  ultimately have "\<not> y + 1 \<le> 0" and "\<not> 10000 \<le> y"
    using y days_before_year_mono [of "y + 1" 0] days_before_year_mono [of 10000 y] by force+
  with v show ?thesis by simp
qed

lemma take_digits_low: "n < 10 ^ w \<Longrightarrow> take_digits w (low_digits w n @ s) = Some (int n, s)"
  by (simp add: take_digits_def low_digits_val)

lemma valid_date_bounds: "valid_date y m d \<Longrightarrow> 1 \<le> m \<and> m \<le> 12 \<and> 1 \<le> d \<and> d \<le> 31"
proof -
  assume v: "valid_date y m d"
  then have m: "1 \<le> m" "m \<le> 12" by (auto simp: valid_date_def)
  have "days_in y m \<le> 31"
    using int_month_cases [OF m] by (elim disjE) (simp_all add: days_in_def days_before_month_def leap_day_def)
  with v m show ?thesis by (simp add: valid_date_def)
qed

lemma Date_grid:
  assumes "Date (grid p i) = (y, m, d)"
  shows "time_Date y m d = grid p i \<and> (p \<noteq> Day \<longrightarrow> d = 1)"
proof (cases "p = Day")
  case True
  then have "day_number y m d = i" "valid_date y m d"
    using assms day_number_civil [of i y m d] by (auto simp: Date_def grid_def)
  then show ?thesis using True valid_date_bounds [of y m d] by (simp add: time_Date_valid grid_def)
next
  case False
  then have "Date (month_start i) = (y, m, d)" using assms by (simp add: grid_def)
  then have e: "y = i div 12" "m = i mod 12 + 1" "d = 1" by (simp_all add: Date_month_start)
  have "12 * (i div 12) + (i mod 12 + 1) - 1 = i" by simp
  with False e show ?thesis by (simp add: time_Date_first grid_def)
qed

lemma parse_format:
  assumes "in_years (grid p i)"
  shows "parse_period p (format_period p (grid p i)) = Some (grid p i) \<and>
         length (format_period p (grid p i)) = layout_len p \<and> CHR ''.'' \<notin> set (format_period p (grid p i))"
proof -
  obtain y m d where D: "Date (grid p i) = (y, m, d)" by (metis prod.exhaust)
  from in_years_Date [OF assms D] have y: "0 \<le> y" "y < 10000" and v: "valid_date y m d" by auto
  note b = valid_date_bounds [OF v] and g = Date_grid [OF D]
  have t4: "take_digits 4 (low_digits 4 (nat y) @ s) = Some (y, s)" for s
    using take_digits_low [of "nat y" 4 s] y by simp
  have t2: "take_digits 2 (low_digits 2 (nat n) @ s) = Some (n, s)" if "0 \<le> n" "n < 100" for n s
    using take_digits_low [of "nat n" 2 s] that by simp
  have t2e: "take_digits 2 (low_digits 2 (nat n)) = Some (n, [])" if "0 \<le> n" "n < 100" for n
    using t2 [OF that, of "[]"] by simp
  have nodot: "CHR ''.'' \<notin> set (low_digits w n)" for w n
    using low_digits_digits [of w n] by (auto simp: list_all_iff is_digit_def)
  show ?thesis
    using D y b g v
    by (auto simp: parse_period_def format_period_def format_year_def t4 t2 t2e nodot layout_len_def valid_date_def)
qed

lemma format_inj:
  assumes "in_years (grid p i)" and "in_years (grid p j)"
    and "format_period p (grid p i) = format_period p (grid p j)"
  shows "i = j"
proof -
  have "Some (grid p i) = Some (grid p j)"
    using parse_format [OF assms(1)] parse_format [OF assms(2)] assms(3) by metis
  then show ?thesis by (simp only: option.inject per.ps_eq_iff)
qed

lemma cut_dot: "cut [c] s = (if c \<in> set s then (takeWhile (\<lambda>x. x \<noteq> c) s, tl (dropWhile (\<lambda>x. x \<noteq> c) s), True) else (s, [], False))"
  by (induction s) simp_all

lemma baseName_append: "tableName t \<Longrightarrow> CHR ''.'' \<notin> set s \<Longrightarrow> baseName (t @ s) = baseName t @ s"
  by (cases "CHR ''.'' \<in> set t") (auto simp: baseName_def cut_dot dropWhile_append1 tl_append2)

lemma Keeper_parse_part:
  assumes "tableName t" and "in_years (grid (Period k) i)"
  shows "Keeper_parse k t (baseName (p_name (Keeper_part k t (grid (Period k) i)))) =
           Some (Keeper_part k t (grid (Period k) i))"
proof -
  have "baseName (t @ ''_'' @ format_period (Period k) (grid (Period k) i)) =
      (baseName t @ ''_'') @ format_period (Period k) (grid (Period k) i)"
    using baseName_append [OF assms(1), of "''_'' @ format_period (Period k) (grid (Period k) i)"]
      parse_format [OF assms(2)] by simp
  then show ?thesis
    using parse_format [OF assms(2)] by (simp add: Keeper_parse_def Keeper_part_def del: append_assoc)
qed

lemma part_name_inj:
  assumes "in_years (grid (Period k) i)" and "in_years (grid (Period k) j)"
    and "p_name (Keeper_part k t (grid (Period k) i)) = p_name (Keeper_part k u (grid (Period k) j))"
  shows "t = u \<and> i = j"
proof -
  let ?f = "\<lambda>i. format_period (Period k) (grid (Period k) i)"
  have "length (?f i) = length (?f j)"
    using parse_format [OF assms(1)] parse_format [OF assms(2)] by metis
  moreover have "(t @ ''_'') @ ?f i = (u @ ''_'') @ ?f j" using assms(3) by (simp add: Keeper_part_def)
  ultimately have "t @ ''_'' = u @ ''_''" and "?f i = ?f j" by (metis append_eq_append_conv)+
  then show ?thesis using format_inj [OF assms(1,2)] by blast
qed

section \<open>Catalogs of a keeper\<close>

abbreviation part_at :: "config \<Rightarrow> string \<Rightarrow> int \<Rightarrow> part" where
  "part_at k t i \<equiv> Keeper_part k t (grid (Period k) i)"

abbreviation named :: "config \<Rightarrow> int \<Rightarrow> bool" where
  "named k i \<equiv> in_years (grid (Period k) i)"

text \<open>
  The tables exist, none is named like a partition, and a relation is a partition of one of
  them exactly if it is named like one, with the range its name says.
\<close>

definition kept :: "config \<Rightarrow> catalog \<Rightarrow> bool" where
  "kept k cat =
     (distinct (map rel_name cat) \<and> (\<forall>t \<in> set (Tables k). has_rel t cat) \<and>
      (\<forall>t \<in> set (Tables k). \<forall>u \<in> set (Tables k). \<forall>i. named k i \<longrightarrow> u \<noteq> p_name (part_at k t i)) \<and>
      (\<forall>r \<in> set cat. \<forall>t \<in> set (Tables k).
         (\<forall>a b. rel_parent r = Some (t, a, b) \<longrightarrow> (\<exists>i. named k i \<and> r = rel_of (part_at k t i))) \<and>
         (\<forall>i. named k i \<and> rel_name r = p_name (part_at k t i) \<longrightarrow> r = rel_of (part_at k t i))))"

lemma kept_parent:
  "kept k cat \<Longrightarrow> r \<in> set cat \<Longrightarrow> t \<in> set (Tables k) \<Longrightarrow> rel_parent r = Some (t, a, b) \<Longrightarrow>
   \<exists>i. named k i \<and> r = rel_of (part_at k t i)"
  unfolding kept_def by blast

lemma kept_name:
  "kept k cat \<Longrightarrow> r \<in> set cat \<Longrightarrow> t \<in> set (Tables k) \<Longrightarrow> named k i \<Longrightarrow> rel_name r = p_name (part_at k t i) \<Longrightarrow>
   r = rel_of (part_at k t i)"
  unfolding kept_def by blast

lemma part_at_simps [simp]:
  "p_table (part_at k t i) = t" "p_from (part_at k t i) = grid (Period k) i" "p_to (part_at k t i) = grid (Period k) (i + 1)"
  by (simp_all add: Keeper_part_def per.add_ps)

lemma rel_of_simps [simp]:
  "rel_name (rel_of p) = p_name p" "rel_parent (rel_of p) = Some (p_table p, p_from p, p_to p)"
  by (simp_all add: rel_of_def)

lemma has_rel_part_at:
  assumes "kept k cat" and "t \<in> set (Tables k)" and "named k i"
  shows "has_rel (p_name (part_at k t i)) cat \<longleftrightarrow> rel_of (part_at k t i) \<in> set cat"
proof
  assume "has_rel (p_name (part_at k t i)) cat"
  then obtain r where "r \<in> set cat" "rel_name r = p_name (part_at k t i)" by (auto simp: has_rel_def)
  with kept_name [OF assms(1) _ assms(2,3)] show "rel_of (part_at k t i) \<in> set cat" by metis
qed (force simp: has_rel_def)

subsection \<open>What a run reads\<close>

definition table_parts :: "config \<Rightarrow> catalog \<Rightarrow> string \<Rightarrow> part list" where
  "table_parts k cat t = List.map_filter (Keeper_parse k t) (projr (fst (selectPartitions t cat)))"

definition existing_of :: "config \<Rightarrow> catalog \<Rightarrow> part list" where
  "existing_of k cat = concat (map (table_parts k cat) (Tables k))"

lemma partitions_read:
  "works env \<Longrightarrow> \<exists>e'. partitions env cls k ts (cat, e) = (Inr (concat (map (table_parts k cat) ts)), cat, e')"
proof (induction ts arbitrary: e)
  case (Cons t ts)
  from Cons.IH [OF Cons.prems, of "snd (db_fault env e)"] show ?case
    by (auto simp: QueryList_def works_exec [OF Cons.prems, of "selectPartitions t" cat]
        table_parts_def selectPartitions_def)
qed simp

lemma table_parts_of:
  assumes "kept k cat" and "t \<in> set (Tables k)" and "tableName t"
  shows "set (table_parts k cat t) = {part_at k t i | i. named k i \<and> rel_of (part_at k t i) \<in> set cat} \<and>
         distinct (table_parts k cat t)"
proof -
  define rs where "rs = filter (\<lambda>r. case rel_parent r of None \<Rightarrow> False | Some (u, _) \<Rightarrow> u = t) cat"
  let ?n = "baseName \<circ> rel_name" and ?f = "Keeper_parse k t"
  have rs: "r \<in> set rs \<longleftrightarrow> (\<exists>i. named k i \<and> r = rel_of (part_at k t i)) \<and> r \<in> set cat" for r
    using kept_parent [OF assms(1) _ assms(2)] by (auto simp: rs_def split: option.splits)
  have f: "\<exists>p. ?f (?n r) = Some p \<and> rel_of p = r" if "r \<in> set rs" for r
    using that Keeper_parse_part [OF assms(3)] by (auto simp: rs)
  have "distinct rs" using assms(1) by (auto simp: rs_def kept_def distinct_map)
  moreover have "inj_on ?n (set rs)" by (rule inj_onI) (metis f option.inject)
  ultimately have "distinct (sort (map ?n rs))" by (simp add: distinct_map)
  moreover have "inj_on (the \<circ> ?f) (?n ` set rs)"
    by (rule inj_on_imageI, rule inj_on_inverseI [of _ rel_of]) (use f in force)
  moreover have "filter (\<lambda>n. ?f n \<noteq> None) (sort (map ?n rs)) = sort (map ?n rs)"
    using f by (auto simp: filter_id_conv)
  moreover have "table_parts k cat t = map (the \<circ> ?f) (filter (\<lambda>n. ?f n \<noteq> None) (sort (map ?n rs)))"
    by (simp add: table_parts_def selectPartitions_def map_filter_def rs_def comp_def)
  ultimately have "distinct (table_parts k cat t)"
    and set: "set (table_parts k cat t) = (the \<circ> ?f) ` ?n ` set rs" by (simp_all add: distinct_map)
  moreover have "(the \<circ> ?f) ` ?n ` set rs = {part_at k t i | i. named k i \<and> rel_of (part_at k t i) \<in> set cat}"
    using Keeper_parse_part [OF assms(3)] by (force simp: rs image_image)
  ultimately show ?thesis by simp
qed

lemma existing_of_set:
  assumes "kept k cat" and "\<forall>t \<in> set (Tables k). tableName t" and "distinct (Tables k)"
  shows "set (existing_of k cat) = {part_at k t i | t i. t \<in> set (Tables k) \<and> named k i \<and> rel_of (part_at k t i) \<in> set cat} \<and>
         distinct (existing_of k cat)"
proof -
  have t: "set (table_parts k cat t) = {part_at k t i | i. named k i \<and> rel_of (part_at k t i) \<in> set cat}"
    "distinct (table_parts k cat t)" if "t \<in> set (Tables k)" for t
    using table_parts_of [OF assms(1) that] assms(2) that by auto
  have "distinct (concat (map (table_parts k cat) ts))" if "set ts \<subseteq> set (Tables k)" "distinct ts" for ts
    using that
  proof (induction ts)
    case (Cons u ts)
    have "p_table p = u" if "p \<in> set (table_parts k cat u)" for p
      using t(1) [of u] that Cons.prems(1) by auto
    moreover have "p_table p \<in> set ts" if "p \<in> set (concat (map (table_parts k cat) ts))" for p
      using t(1) that Cons.prems(1) by fastforce
    ultimately have "set (table_parts k cat u) \<inter> set (concat (map (table_parts k cat) ts)) = {}"
      using Cons.prems(2) by fastforce
    then show ?case using Cons t(2) [of u] by auto
  qed simp
  then show ?thesis using t(1) assms(3) by (auto simp: existing_of_def)
qed

subsection \<open>What a run changes\<close>

lemma kept_create:
  assumes "kept k cat" and t: "t \<in> set (Tables k)" and i: "named k i" and new: "\<not> has_rel (p_name (part_at k t i)) cat"
  shows "sql_create (part_at k t i) cat = (Inr (), cat @ [rel_of (part_at k t i)]) \<and>
         kept k (cat @ [rel_of (part_at k t i)])"
proof -
  have "\<not> overlaps (part_at k t i) r" if r: "r \<in> set cat" for r
  proof
    assume "overlaps (part_at k t i) r"
    then obtain a b where "rel_parent r = Some (t, a, b)" and o: "a < grid (Period k) (i + 1)" "grid (Period k) i < b"
      by (auto simp: overlaps_def split: option.splits)
    moreover from this obtain j where "r = rel_of (part_at k t j)"
      using kept_parent [OF assms(1) r t] by blast
    ultimately have "j = i" using per.ps_disjoint [of "Period k" j i] by simp
    with \<open>r = rel_of (part_at k t j)\<close> r new show False by (force simp: has_rel_def)
  qed
  moreover have "has_rel t cat" using assms(1) t by (simp add: kept_def)
  ultimately have "sql_create (part_at k t i) cat = (Inr (), cat @ [rel_of (part_at k t i)])"
    using new by (simp add: sql_create_def list_ex_iff)
  moreover have "kept k (cat @ [rel_of (part_at k t i)])"
  proof -
    have "t = u \<and> i = j" if "named k j" "p_name (part_at k t i) = p_name (part_at k u j)" for u j
      using part_name_inj [OF i that(1)] that(2) by blast
    then show ?thesis
      using assms(1) t i new unfolding kept_def by (auto simp: has_rel_def)
  qed
  ultimately show ?thesis by simp
qed

lemma kept_drop:
  assumes "kept k cat" and t: "t \<in> set (Tables k)" and i: "named k i" and r: "rel_of (part_at k t i) \<in> set cat"
  defines "cat' \<equiv> filter (\<lambda>r. rel_name r \<noteq> p_name (part_at k t i)) cat"
  shows "fst (sql_detach (part_at k t i) cat) = Inr () \<and>
         sql_drop (part_at k t i) (snd (sql_detach (part_at k t i) cat)) = (Inr (), cat') \<and> kept k cat'"
proof -
  have "attached (part_at k t i) (rel_of (part_at k t i))" by (simp add: attached_def)
  then have d: "sql_detach (part_at k t i) cat =
      (Inr (), update_where (attached (part_at k t i)) (\<lambda>r. r\<lparr>rel_parent := None\<rparr>) cat)"
    using r by (auto simp: sql_detach_def list_ex_iff)
  have "filter (\<lambda>r. rel_name r \<noteq> p_name (part_at k t i)) (update_where (attached (part_at k t i)) f cat) = cat'"
    if "\<And>r. rel_name (f r) = rel_name r" for f
    unfolding cat'_def by (induction cat) (auto simp: update_where_def attached_def that)
  moreover have "has_rel (p_name (part_at k t i))
      (update_where (attached (part_at k t i)) (\<lambda>r. r\<lparr>rel_parent := None\<rparr>) cat)"
    using r by (force simp: has_rel_def set_update_where image_iff)
  ultimately have "sql_drop (part_at k t i) (snd (sql_detach (part_at k t i) cat)) = (Inr (), cat')"
    by (simp add: sql_drop_def d)
  moreover have "kept k cat'"
    using assms(1) t i unfolding kept_def cat'_def
    by (auto simp: has_rel_def distinct_map_filter)
  ultimately show ?thesis using d by simp
qed

lemma create_parts_works:
  assumes "works env"
  shows "kept k cat \<Longrightarrow> \<forall>p \<in> set ps. \<exists>t i. p = part_at k t i \<and> t \<in> set (Tables k) \<and> named k i \<Longrightarrow>
    distinct (map p_name ps) \<Longrightarrow> \<forall>p \<in> set ps. \<not> has_rel (p_name p) cat \<Longrightarrow>
    \<exists>e'. create_parts env cls ps (cat, e) = (None, cat @ map rel_of ps, e') \<and> kept k (cat @ map rel_of ps)"
proof (induction ps arbitrary: cat e)
  case (Cons p ps)
  from Cons.prems(2) obtain t i where p: "p = part_at k t i" "t \<in> set (Tables k)" "named k i" by auto
  have c: "sql_create p cat = (Inr (), cat @ [rel_of p])" "kept k (cat @ [rel_of p])"
    using kept_create [OF Cons.prems(1) p(2,3)] Cons.prems(4) by (auto simp: p(1))
  have ne: "p_name q \<noteq> p_name p" if "q \<in> set ps" for q
    using Cons.prems(3) imageI [OF that, of p_name] by auto
  then have "\<forall>q \<in> set ps. \<not> has_rel (p_name q) (cat @ [rel_of p])"
    using Cons.prems(4) by (auto simp: has_rel_def)
  then have "\<exists>e'. create_parts env cls ps (cat @ [rel_of p], snd (db_fault env e)) =
      (None, (cat @ [rel_of p]) @ map rel_of ps, e') \<and> kept k ((cat @ [rel_of p]) @ map rel_of ps)"
    using Cons.IH [OF c(2)] Cons.prems(2,3) by auto
  then show ?case by (auto simp: works_Exec [OF assms, of "sql_create p" cat] c(1))
qed simp

lemma drop_parts_works:
  assumes "works env"
  shows "kept k cat \<Longrightarrow>
    \<forall>p \<in> set ps. (\<exists>t i. p = part_at k t i \<and> t \<in> set (Tables k) \<and> named k i) \<and> rel_of p \<in> set cat \<Longrightarrow>
    distinct (map p_name ps) \<Longrightarrow>
    \<exists>e'. drop_parts env cls ps (cat, e) = (None, filter (\<lambda>r. rel_name r \<notin> set (map p_name ps)) cat, e') \<and>
         kept k (filter (\<lambda>r. rel_name r \<notin> set (map p_name ps)) cat)"
proof (induction ps arbitrary: cat e)
  case (Cons p ps)
  from Cons.prems(2) obtain t i where p: "p = part_at k t i" "t \<in> set (Tables k)" "named k i" by auto
  let ?cat = "filter (\<lambda>r. rel_name r \<noteq> p_name p) cat"
  have c: "fst (sql_detach p cat) = Inr ()" "sql_drop p (snd (sql_detach p cat)) = (Inr (), ?cat)" "kept k ?cat"
    using kept_drop [OF Cons.prems(1) p(2,3)] Cons.prems(2) by (auto simp: p(1))
  have ne: "p_name q \<noteq> p_name p" if "q \<in> set ps" for q
    using Cons.prems(3) imageI [OF that, of p_name] by auto
  then have "\<forall>q \<in> set ps. rel_of q \<in> set ?cat" using Cons.prems(2) by simp
  then have "\<exists>e'. drop_parts env cls ps (?cat, snd (db_fault env (snd (db_fault env e)))) =
      (None, filter (\<lambda>r. rel_name r \<notin> set (map p_name ps)) ?cat, e') \<and>
      kept k (filter (\<lambda>r. rel_name r \<notin> set (map p_name ps)) ?cat)"
    using Cons.IH [OF c(3)] Cons.prems(2,3) by auto
  then show ?case
    by (auto simp: works_Exec [OF assms, of "sql_detach p" cat] c(1)
        works_Exec [OF assms, of "sql_drop p" "snd (sql_detach p cat)"] c(2) conj_commute)
qed simp

subsection \<open>The plan of a run\<close>

lemma check_tables_ok:
  "check_tables cfg seen ts = None \<Longrightarrow> (\<forall>t \<in> set ts. tableName t) \<and> distinct ts \<and> set ts \<inter> seen = {}"
  by (induction cfg seen ts rule: check_tables.induct) (auto split: if_splits)

lemma check_ok:
  "check k = None \<Longrightarrow> (\<forall>t \<in> set (Tables k). tableName t) \<and> distinct (Tables k) \<and> 0 \<le> Ahead k \<and> 0 \<le> Retention k"
  using check_tables_ok [of k "{}" "Tables k"] by (auto simp: check_def split: if_splits)

text \<open>A time from year 1 on whose periods ahead still have names of four-digit years.\<close>

definition in_reach :: "config \<Rightarrow> instant \<Rightarrow> bool" where
  "in_reach k now =
     (0 \<le> now \<and> Ahead k < max_int64 \<and>
      Period_add (Period k) (Period_start (Period k) now) (Ahead k + 1) \<le> time_Date 10000 1 1)"

lemma grid_zero: "\<exists>z. grid p z = 0"
proof (cases "p = Day")
  case True
  then show ?thesis by (intro exI [of _ 0]) (simp add: grid_def)
next
  case False
  then show ?thesis
    by (intro exI [of _ 12])
       (simp add: grid_def month_start_def day_number_def days_before_year_def days_before_month_def)
qed

definition all_named :: "config \<Rightarrow> int \<Rightarrow> bool" where
  "all_named k c = (\<forall>i. c \<le> i \<and> i \<le> c + Ahead k \<longrightarrow> named k i)"

lemma all_namedD: "all_named k c \<Longrightarrow> c \<le> i \<Longrightarrow> i \<le> c + Ahead k \<Longrightarrow> named k i"
  by (simp add: all_named_def)

lemma current_period:
  assumes "in_reach k now"
  obtains c where "Period_start (Period k) now = grid (Period k) c"
    and "grid (Period k) c \<le> now" and "now < grid (Period k) (c + 1)"
    and "all_named k c"
proof -
  obtain c where c: "Period_start (Period k) now = grid (Period k) c" "grid (Period k) c \<le> now"
    "now < grid (Period k) (c + 1)" using per.start_ps [of "Period k" now] by blast
  obtain z where z: "grid (Period k) z = 0" using grid_zero by blast
  have "z < c + 1"
    using z c(3) assms per.ps_less_iff [of "Period k" z "c + 1"] by (simp add: in_reach_def)
  moreover have "grid (Period k) (c + (Ahead k + 1)) \<le> time_Date 10000 1 1"
    using assms by (simp add: in_reach_def c(1) per.add_ps)
  ultimately have "named k i" if "c \<le> i" "i \<le> c + Ahead k" for i
    using that z per.ps_le_iff [of "Period k" z i] per.ps_less_iff [of "Period k" i "c + (Ahead k + 1)"]
    by (auto simp: in_years_def)
  then have "all_named k c" by (simp add: all_named_def)
  with c that show thesis by blast
qed

lemma concat_filter_product:
  "concat (map (\<lambda>i. filter Q (map (F i) ts)) is) = filter Q (map (\<lambda>(i, t). F i t) (List.product is ts))"
  by (induction "is") (simp_all add: comp_def)

lemma distinct_by_key:
  "distinct ts \<Longrightarrow> distinct xs \<Longrightarrow> distinct (concat (map (\<lambda>t. filter (\<lambda>x. f x = t \<and> Q x) xs) ts))"
  by (induction ts) auto

lemma plan_of:
  assumes "check k = None" and "in_reach k now" and "kept k cat"
    and "plan k now (existing_of k cat) = (create, dropped)"
    and c: "Period_start (Period k) now = grid (Period k) c" "all_named k c"
  shows "set create = {part_at k t i | t i. t \<in> set (Tables k) \<and> c \<le> i \<and> i \<le> c + Ahead k \<and>
             rel_of (part_at k t i) \<notin> set cat}" and "distinct (map p_name create)"
    and "set dropped = {p \<in> set (existing_of k cat). Retention k \<noteq> 0 \<and> p_to p \<le> now - Retention k}"
    and "distinct (map p_name dropped)"
proof -
  note ok = check_ok [OF assms(1)]
  note ex = existing_of_set [OF assms(3) ok [THEN conjunct1] ok [THEN conjunct2, THEN conjunct1]]
  have "in_int64 (Ahead k + 1)" using ok assms(2) by (simp add: in_int64_def in_reach_def)
  then have w: "wrap64 (Ahead k + 1) - 1 = Ahead k" by simp
  let ?L = "List.product [0..Ahead k] (Tables k)" and ?F = "\<lambda>(i, t). part_at k t (c + i)"
  let ?Q = "\<lambda>p. p_name p \<notin> p_name ` set (existing_of k cat)"
  have create: "create = filter ?Q (map ?F ?L)"
    using assms(4) by (auto simp: plan_def Let_def w c(1) per.add_ps concat_filter_product split: if_splits)
  have hv: "p_name (part_at k t i) \<in> p_name ` set (existing_of k cat) \<longleftrightarrow> rel_of (part_at k t i) \<in> set cat"
    if "t \<in> set (Tables k)" "named k i" for t i
    using ex that part_name_inj [OF that(2)] by (auto simp: image_iff)
  let ?R = "{part_at k t i | t i. t \<in> set (Tables k) \<and> c \<le> i \<and> i \<le> c + Ahead k \<and>
             rel_of (part_at k t i) \<notin> set cat}"
  show "set create = ?R"
  proof
    show "set create \<subseteq> ?R" using all_namedD [OF c(2)] hv by (fastforce simp: create)
    show "?R \<subseteq> set create"
    proof
      fix p assume "p \<in> ?R"
      then obtain t i where p: "p = part_at k t i" "t \<in> set (Tables k)" "c \<le> i" "i \<le> c + Ahead k"
        "rel_of (part_at k t i) \<notin> set cat" by blast
      then have "(i - c, t) \<in> set ?L" "p = ?F (i - c, t)" by auto
      moreover have "?Q p" using hv [OF p(2) all_namedD [OF c(2) p(3,4)]] p(1,5) by simp
      ultimately show "p \<in> set create" unfolding create set_filter set_map by blast
    qed
  qed
  have inj: "inj_on (p_name \<circ> ?F) (set ?L)"
  proof (rule inj_onI, clarify)
    fix i t j u
    assume "(i, t) \<in> set ?L" "(j, u) \<in> set ?L" and eq: "(p_name \<circ> ?F) (i, t) = (p_name \<circ> ?F) (j, u)"
    then have "named k (c + i)" "named k (c + j)" using all_namedD [OF c(2)] by auto
    from part_name_inj [OF this] eq show "i = j \<and> t = u" by simp
  qed
  show "distinct (map p_name create)"
    using inj ok by (auto simp: create distinct_map distinct_product inj_on_def comp_def intro!: distinct_filter)
  show "set dropped = {p \<in> set (existing_of k cat). Retention k \<noteq> 0 \<and> p_to p \<le> now - Retention k}"
  proof -
    have "p_table p \<in> set (Tables k)" if "p \<in> set (existing_of k cat)" for p using ex that by auto
    then show ?thesis using assms(4) by (auto simp: plan_def Let_def not_less split: if_splits)
  qed
  have "inj_on p_name (set (existing_of k cat))"
  proof (rule inj_onI)
    fix p q
    assume "p \<in> set (existing_of k cat)" "q \<in> set (existing_of k cat)" and eq: "p_name p = p_name q"
    then obtain t i u j where "p = part_at k t i" "named k i" "q = part_at k u j" "named k j"
      using ex by blast
    with part_name_inj [of k i j t u] eq show "p = q" by simp
  qed
  moreover have "distinct dropped" and "set dropped \<subseteq> set (existing_of k cat)"
    using assms(4) ex ok by (auto simp: plan_def Let_def distinct_by_key split: if_splits)
  ultimately show "distinct (map p_name dropped)" by (auto simp: distinct_map intro: inj_on_subset)
qed

subsection \<open>The catalog after a run\<close>

definition after_run :: "config \<Rightarrow> instant \<Rightarrow> catalog \<Rightarrow> catalog" where
  "after_run k now cat =
     (case plan k now (existing_of k cat) of (create, dropped) \<Rightarrow>
        filter (\<lambda>r. rel_name r \<notin> set (map p_name dropped)) (cat @ map rel_of create))"

lemma Maintain_works:
  assumes "works env" and "check k = None" and "in_reach k now" and "kept k cat" and "clock e = (now, e1)"
  shows "\<exists>e'. Maintain env cls clock k (cat, e) = (Ret None, after_run k now cat, e')"
    and "kept k (after_run k now cat)"
proof -
  obtain create dropped where pl: "plan k now (existing_of k cat) = (create, dropped)" by force
  obtain c where c: "Period_start (Period k) now = grid (Period k) c" "all_named k c"
    using current_period [OF assms(3)] by metis
  note P = plan_of [OF assms(2-4) pl c]
  note ok = check_ok [OF assms(2)]
  note ex = existing_of_set [OF assms(4) ok [THEN conjunct1] ok [THEN conjunct2, THEN conjunct1]]
  have cr: "\<forall>p \<in> set create. \<exists>t i. p = part_at k t i \<and> t \<in> set (Tables k) \<and> named k i"
    using P(1) all_namedD [OF c(2)] by blast
  have new: "\<forall>p \<in> set create. \<not> has_rel (p_name p) cat"
    using P(1) all_namedD [OF c(2)] has_rel_part_at [OF assms(4)] by fastforce
  let ?cat = "cat @ map rel_of create"
  have kc: "kept k ?cat" using create_parts_works [OF assms(1,4) cr P(2) new] by blast
  have dr: "\<forall>p \<in> set dropped. (\<exists>t i. p = part_at k t i \<and> t \<in> set (Tables k) \<and> named k i) \<and> rel_of p \<in> set ?cat"
    using P(3) ex by auto
  have ar: "after_run k now cat = filter (\<lambda>r. rel_name r \<notin> set (map p_name dropped)) ?cat"
    by (simp add: after_run_def pl)
  show "kept k (after_run k now cat)"
    unfolding ar using drop_parts_works [OF assms(1) kc dr P(4)] by blast
  have "\<exists>e'. maintain_tx env cls k now (cat, e) = (Ret None, after_run k now cat, e')" for e
  proof -
    let ?e2 = "snd (db_fault env (snd (db_fault env e)))"
    obtain e3 where r: "partitions env cls k (Tables k) (cat, ?e2) = (Inr (existing_of k cat), cat, e3)"
      using partitions_read [OF assms(1)] unfolding existing_of_def by blast
    obtain e4 where a: "create_parts env cls create (cat, e3) = (None, ?cat, e4)"
      using create_parts_works [OF assms(1,4) cr P(2) new] by blast
    obtain e5 where d: "drop_parts env cls dropped (?cat, e4) = (None, after_run k now cat, e5)"
      using drop_parts_works [OF assms(1) kc dr P(4)] unfolding ar by blast
    show ?thesis
      by (simp add: maintain_tx_def works_round_trip [OF assms(1)] works_Exec [OF assms(1), of no_change]
          no_change_def r pl apply_plan_def a d)
  qed
  from works_WithinTran [where fn = "maintain_tx env cls k now", OF assms(1) this]
  show "\<exists>e'. Maintain env cls clock k (cat, e) = (Ret None, after_run k now cat, e')"
    by (simp add: Maintain_def assms(5))
qed

text \<open>A relation is expired if it is a partition of a table whose end is at least the retention old.\<close>

definition expired :: "config \<Rightarrow> instant \<Rightarrow> relation \<Rightarrow> bool" where
  "expired k now r =
     (Retention k \<noteq> 0 \<and> (\<exists>t \<in> set (Tables k). \<exists>a b. rel_parent r = Some (t, a, b) \<and> b \<le> now - Retention k))"

lemma after_run_set:
  assumes "check k = None" and "in_reach k now" and "kept k cat"
    and c: "Period_start (Period k) now = grid (Period k) c" "now < grid (Period k) (c + 1)"
      "all_named k c"
  defines "window \<equiv> {rel_of (part_at k t i) | t i. t \<in> set (Tables k) \<and> c \<le> i \<and> i \<le> c + Ahead k}"
  shows "set (after_run k now cat) = {r \<in> set cat. \<not> expired k now r} \<union> window"
    and "r \<in> window \<Longrightarrow> \<not> expired k now r"
proof -
  obtain create dropped where pl: "plan k now (existing_of k cat) = (create, dropped)" by force
  note P = plan_of [OF assms(1-3) pl c(1,3)]
  note ok = check_ok [OF assms(1)]
  note ex = existing_of_set [OF assms(3) ok [THEN conjunct1] ok [THEN conjunct2, THEN conjunct1]]
  have d: "set dropped = {part_at k t i | t i. t \<in> set (Tables k) \<and> named k i \<and> rel_of (part_at k t i) \<in> set cat \<and>
      Retention k \<noteq> 0 \<and> grid (Period k) (i + 1) \<le> now - Retention k}"
    using P(3) ex by auto blast
  have young: "\<not> grid (Period k) (i + 1) \<le> now - Retention k" if "c \<le> i" for i
    using per.ps_le_iff [of "Period k" "c + 1" "i + 1"] that c(2) ok by simp
  then show win: "r \<in> window \<Longrightarrow> \<not> expired k now r" for r by (auto simp: window_def expired_def)
  have drop_iff: "rel_name r \<in> p_name ` set dropped \<longleftrightarrow> expired k now r" if r: "r \<in> set cat" for r
  proof
    assume "rel_name r \<in> p_name ` set dropped"
    then obtain t i where p: "rel_name r = p_name (part_at k t i)" "t \<in> set (Tables k)" "named k i"
      "Retention k \<noteq> 0" "grid (Period k) (i + 1) \<le> now - Retention k" by (auto simp: d)
    then show "expired k now r" using kept_name [OF assms(3) r p(2,3,1)] by (auto simp: expired_def)
  next
    assume "expired k now r"
    then obtain t a b where t: "t \<in> set (Tables k)" "rel_parent r = Some (t, a, b)" "b \<le> now - Retention k"
      "Retention k \<noteq> 0" by (auto simp: expired_def)
    obtain i where i: "named k i" "r = rel_of (part_at k t i)" using kept_parent [OF assms(3) r t(1,2)] by blast
    then have "part_at k t i \<in> set dropped" using t r by (auto simp: d)
    then show "rel_name r \<in> p_name ` set dropped" using i(2) by force
  qed
  have fresh: "p_name p \<notin> p_name ` set dropped" if cr: "p \<in> set create" for p
  proof
    assume "p_name p \<in> p_name ` set dropped"
    then obtain q0 where q0: "q0 \<in> set dropped" "p_name p = p_name q0" by auto
    then obtain t i where q: "p_name p = p_name (part_at k t i)" "named k i" "rel_of (part_at k t i) \<in> set cat"
      unfolding d by blast
    obtain u j where p: "p = part_at k u j" "c \<le> j" "j \<le> c + Ahead k" "rel_of (part_at k u j) \<notin> set cat"
      using cr P(1) by blast
    have "u = t \<and> j = i" using part_name_inj [OF all_namedD [OF c(3) p(2,3)] q(2)] q(1) p(1) by blast
    with p(4) q(3) show False by simp
  qed
  have "set (after_run k now cat) = {r \<in> set cat. \<not> expired k now r} \<union> rel_of ` set create"
    using drop_iff fresh by (auto simp: after_run_def pl)
  moreover have "rel_of ` set create = {r \<in> window. r \<notin> set cat}"
  proof -
    have "r \<in> window \<and> r \<notin> set cat" if r: "r \<in> rel_of ` set create" for r
    proof -
      obtain p where "p \<in> set create" "r = rel_of p" using r by blast
      moreover from this obtain t i where "p = part_at k t i" "t \<in> set (Tables k)" "c \<le> i" "i \<le> c + Ahead k"
        "rel_of (part_at k t i) \<notin> set cat" using P(1) by blast
      ultimately show ?thesis unfolding window_def by blast
    qed
    moreover have "r \<in> rel_of ` set create" if r: "r \<in> window" "r \<notin> set cat" for r
    proof -
      obtain t i where "r = rel_of (part_at k t i)" "t \<in> set (Tables k)" "c \<le> i" "i \<le> c + Ahead k"
        using r(1) unfolding window_def by blast
      moreover from this have "part_at k t i \<in> set create" using P(1) r(2) by blast
      ultimately show ?thesis by blast
    qed
    ultimately show ?thesis by blast
  qed
  moreover have "{r \<in> set cat. \<not> expired k now r} \<union> {r \<in> window. r \<notin> set cat} =
      {r \<in> set cat. \<not> expired k now r} \<union> window"
    using win by blast
  ultimately show "set (after_run k now cat) = {r \<in> set cat. \<not> expired k now r} \<union> window" by simp
qed

lemma after_run_idem:
  assumes "check k = None" and "in_reach k now" and "kept k cat" and "kept k (after_run k now cat)"
  shows "after_run k now (after_run k now cat) = after_run k now cat"
proof -
  obtain c where c: "Period_start (Period k) now = grid (Period k) c" "now < grid (Period k) (c + 1)"
    "all_named k c" using current_period [OF assms(2)] by metis
  let ?cat = "after_run k now cat"
  obtain create dropped where pl: "plan k now (existing_of k ?cat) = (create, dropped)" by force
  note P = plan_of [OF assms(1,2,4) pl c(1,3)] and A = after_run_set [OF assms(1-3) c]
  note ok = check_ok [OF assms(1)]
  note ex = existing_of_set [OF assms(4) ok [THEN conjunct1] ok [THEN conjunct2, THEN conjunct1]]
  have "set create = {}" using P(1) A(1) by auto
  have "\<not> expired k now r" if "r \<in> set ?cat" for r using that A by blast
  moreover have "expired k now (rel_of p) \<and> rel_of p \<in> set ?cat" if p: "p \<in> set dropped" for p
  proof -
    have "p \<in> set (existing_of k ?cat)" "Retention k \<noteq> 0" "p_to p \<le> now - Retention k" using p P(3) by auto
    moreover from this obtain t i where "p = part_at k t i" "t \<in> set (Tables k)"
      "rel_of (part_at k t i) \<in> set ?cat" using ex by blast
    ultimately show ?thesis by (auto simp: expired_def)
  qed
  ultimately have "\<forall>p. p \<notin> set dropped" by blast
  then have "set dropped = {}" by (simp only: all_not_in_conv)
  with \<open>set create = {}\<close> show ?thesis by (subst after_run_def) (simp add: pl)
qed

section \<open>Properties\<close>

text \<open>
  C26: the name of a partition says what it holds. For a table with a plain name, the partition
  of the period of any time in the years 1 to 9999 is read back from its relation name: same
  table, same name, same range.
\<close>
theorem partition_name_roundtrip:
  assumes "tableName table" and "0 \<le> Period_start (Period k) t" and "Period_start (Period k) t < time_Date 10000 1 1"
  shows "Keeper_parse k table (baseName (p_name (Keeper_part k table (Period_start (Period k) t)))) =
           Some (Keeper_part k table (Period_start (Period k) t))"
proof -
  obtain i where "Period_start (Period k) t = grid (Period k) i" using per.start_ps by blast
  with assms Keeper_parse_part [OF assms(1), of k i] show ?thesis by (simp add: in_years_def)
qed

text \<open>A keeper of monthly partitions of one table, kept for 90 days, and the first catalog it meets.\<close>

definition monthly :: config where
  "monthly = \<lparr>Tables = [''audit.log''], Period = Month, Ahead = 1, Retention = 90 * 24 * hour\<rparr>"

definition noon :: instant where
  "noon = time_Date 2026 11 5 + 12 * hour"

definition bare :: catalog where
  "bare = [\<lparr>rel_name = ''audit.log'', rel_parent = None\<rparr>]"

lemma noon_value: "noon = 63929476800000000000"
  by (simp add: noon_def date_defs)

lemma noon_period: "Period_start Month noon = time_Date 2026 11 1"
  by (simp add: noon_value Period_start_def date_defs)

theorem partition_name_roundtrip_witness:
  "Keeper_parse monthly ''audit.log'' (baseName (p_name (Keeper_part monthly ''audit.log'' (Period_start Month noon)))) =
   Some (Keeper_part monthly ''audit.log'' (Period_start Month noon))"
  using partition_name_roundtrip [of "''audit.log''" monthly noon]
  by (simp add: tableName_def ident_def ident_start_def is_digit_def monthly_def noon_period)
     (simp add: date_defs)

text \<open>
  C25: inserts always find a partition, and no young row is dropped. On a catalog of the keeper,
  over a server that works, \<open>Maintain\<close> returns nil; then every table has a partition for every
  time from now to the end of the last period ahead. A relation it removed is a partition of
  one of the tables whose end is at least the retention old, no such partition is left, and
  the result is a catalog of the keeper again.
\<close>
theorem Maintain_covers:
  assumes "works env" and "check k = None" and "in_reach k now" and "kept k cat" and "clock e = (now, e1)"
  shows "\<exists>cat' e'. Maintain env cls clock k (cat, e) = (Ret None, cat', e') \<and> kept k cat' \<and>
     (\<forall>t \<in> set (Tables k). \<forall>x. now \<le> x \<and> x < Period_add (Period k) (Period_start (Period k) now) (Ahead k + 1) \<longrightarrow>
        (\<exists>r \<in> set cat'. \<exists>a b. rel_parent r = Some (t, a, b) \<and> a \<le> x \<and> x < b)) \<and>
     (\<forall>r \<in> set cat. r \<notin> set cat' \<longleftrightarrow> expired k now r) \<and> (\<forall>r \<in> set cat'. \<not> expired k now r)"
proof -
  obtain e' where m: "Maintain env cls clock k (cat, e) = (Ret None, after_run k now cat, e')"
    using Maintain_works(1) [where clock = clock, OF assms] by blast
  obtain c where c: "Period_start (Period k) now = grid (Period k) c" "grid (Period k) c \<le> now"
    "now < grid (Period k) (c + 1)" "all_named k c"
    using current_period [OF assms(3)] by metis
  note A = after_run_set [OF assms(2-4) c(1,3,4)]
  have "\<exists>r \<in> set (after_run k now cat). \<exists>a b. rel_parent r = Some (t, a, b) \<and> a \<le> x \<and> x < b"
    if t: "t \<in> set (Tables k)" and x: "now \<le> x" "x < grid (Period k) (c + (Ahead k + 1))" for t x
  proof -
    have "0 \<le> Ahead k" using check_ok [OF assms(2)] by simp
    then obtain j where j: "c \<le> j" "j \<le> c + Ahead k" "grid (Period k) j \<le> x" "x < grid (Period k) (j + 1)"
      using per.ps_covers [of "Period k" c x "nat (Ahead k)"] x c(2) by (auto simp: algebra_simps)
    then have "rel_of (part_at k t j) \<in> set (after_run k now cat)" using t unfolding A(1) by (intro UnI2) blast
    then show ?thesis using j(3,4) by (intro bexI [of _ "rel_of (part_at k t j)"]) auto
  qed
  moreover have "kept k (after_run k now cat)" using Maintain_works(2) [where clock = clock, OF assms] .
  moreover have "\<forall>r \<in> set cat. r \<notin> set (after_run k now cat) \<longleftrightarrow> expired k now r"
    and "\<forall>r \<in> set (after_run k now cat). \<not> expired k now r" using A by blast+
  ultimately show ?thesis using m by (auto simp: c(1) per.add_ps)
qed

lemma monthly_ready: "check monthly = None \<and> in_reach monthly noon \<and> kept monthly bare"
proof (intro conjI)
  show "check monthly = None"
    by (simp add: check_def monthly_def tableName_def ident_def ident_start_def is_digit_def baseName_def
        layout_len_def maxName_def)
  show "in_reach monthly noon"
    using month_add [of Month "12 * 2026 + 10" 2]
    by (simp add: in_reach_def monthly_def noon_period time_Date_first) (simp add: month_start_def noon_value date_defs)
  show "kept monthly bare" by (simp add: kept_def bare_def has_rel_def monthly_def Keeper_part_def)
qed

theorem Maintain_covers_witness:
  "\<exists>cat' e'. Maintain calm_db None (\<lambda>e. (noon, e)) monthly (bare, ()) = (Ret None, cat', e') \<and> kept monthly cat' \<and>
     (\<forall>t \<in> set (Tables monthly). \<forall>x. noon \<le> x \<and>
        x < Period_add (Period monthly) (Period_start (Period monthly) noon) (Ahead monthly + 1) \<longrightarrow>
        (\<exists>r \<in> set cat'. \<exists>a b. rel_parent r = Some (t, a, b) \<and> a \<le> x \<and> x < b)) \<and>
     (\<forall>r \<in> set bare. r \<notin> set cat' \<longleftrightarrow> expired monthly noon r) \<and> (\<forall>r \<in> set cat'. \<not> expired monthly noon r)"
  by (rule Maintain_covers) (simp_all add: monthly_ready works_def calm_db_def)

text \<open>
  C27: a second run changes nothing. After \<open>Maintain\<close> has run at some time, another run at
  that time, as by the next replica in turn, returns nil and leaves the catalog as it is.
\<close>
theorem Maintain_idempotent:
  assumes "works env" and "check k = None" and "in_reach k now" and "kept k cat"
    and "\<And>e. fst (clock e) = now" and "Maintain env cls clock k (cat, e) = (Ret None, cat', e')"
  shows "\<exists>e''. Maintain env cls clock k (cat', e') = (Ret None, cat', e'')"
proof -
  have cl: "clock e = (now, snd (clock e))" for e using assms(5) [of e] by (cases "clock e") simp
  have cat': "cat' = after_run k now cat" using Maintain_works(1) [where clock = clock and e = e, OF assms(1-4) cl, of cls] assms(6) by auto
  note kept' = Maintain_works(2) [where clock = clock and e = e, OF assms(1-4) cl]
  from Maintain_works(1) [where clock = clock and e = e', OF assms(1-3) kept' cl, of cls] show ?thesis
    by (simp add: cat' after_run_idem [OF assms(2-4) kept'])
qed

theorem Maintain_idempotent_witness:
  "\<exists>e''. Maintain calm_db None (\<lambda>e. (noon, e)) monthly (after_run monthly noon bare, ()) =
     (Ret None, after_run monthly noon bare, e'')"
proof -
  have w: "works calm_db" by (simp add: works_def calm_db_def)
  obtain e' where "Maintain calm_db None (\<lambda>e. (noon, e)) monthly (bare, ()) = (Ret None, after_run monthly noon bare, e')"
    using Maintain_works(1) [OF w, of monthly noon bare] monthly_ready by blast
  from Maintain_idempotent [OF w _ _ _ _ this] monthly_ready show ?thesis by simp
qed

end
