(* ===== verification/Auditlog_Compact.thy ===== *)
theory Auditlog_Compact
  imports Go_Prelude
begin

text \<open>
  The thinning of a version history, \<open>versionsToDelete\<close> of \<open>auditlog/compact.go\<close>. The slice
  \<open>keep\<close> is a list of flags; an index stays within it, and far below the range of \<open>int\<close>.
\<close>

section \<open>Definitions\<close>

record compactOptions =
  Factor :: int
  KeepRecent :: int
  MaxVersions :: int
  MinVersions :: int

text \<open>The loop \<open>for i := lo; i < hi; i++ { if p(i) { keep[i] = true } }\<close>.\<close>

definition mark :: "int list \<Rightarrow> bool list \<Rightarrow> bool list" where
  "mark is keep = fold (\<lambda>i k. k[nat i := True]) is keep"

definition countKept :: "bool list \<Rightarrow> int" where
  "countKept keep = fold (\<lambda>k n. if k then n + 1 else n) keep 0"

definition keepEvenly :: "bool list \<Rightarrow> int \<Rightarrow> int \<Rightarrow> int \<Rightarrow> bool list" where
  "keepEvenly keep lo hi budget =
     (let span = hi - lo
      in if span \<le> 0 \<or> budget \<le> 0 then keep
         else if budget \<ge> span then mark [lo..hi - 1] keep
         else mark (map (\<lambda>j. lo + (j * span) div budget) [0..budget - 1]) keep)"

definition recentStart :: "int \<Rightarrow> compactOptions \<Rightarrow> int" where
  "recentStart n opts =
     (if KeepRecent opts > 0 \<and> n - KeepRecent opts < n - 1 then n - KeepRecent opts else n - 1)"

definition protected :: "nat \<Rightarrow> compactOptions \<Rightarrow> bool list" where
  "protected n opts =
     (let keep = (replicate n False)[0 := True, n - 1 := True]
      in if KeepRecent opts > 0 then mark [max (int n - KeepRecent opts) 0..int n - 1] keep else keep)"

definition kept_flags :: "nat \<Rightarrow> compactOptions \<Rightarrow> bool list" where
  "kept_flags n opts =
     (let keep = protected n opts; rs = recentStart (int n) opts
      in if MaxVersions opts > 0 then keepEvenly keep 1 rs (MaxVersions opts - countKept keep)
         else if Factor opts \<ge> 2 then mark (filter (\<lambda>i. i mod Factor opts = 0) [1..rs - 1]) keep
         else mark [1..rs - 1] keep)"

definition versionsToDelete :: "int list \<Rightarrow> compactOptions \<Rightarrow> int list" where
  "versionsToDelete vers opts =
     (let n = length vers
      in if int n \<le> max (MinVersions opts) 2 then []
         else map fst (filter (\<lambda>(v, k). \<not> k) (zip vers (kept_flags n opts))))"

section \<open>Flags\<close>

lemma length_mark [simp]: "length (mark is keep) = length keep"
  unfolding mark_def by (induction "is" arbitrary: keep) auto

lemma mark_nth: "m < length keep \<Longrightarrow> \<forall>i \<in> set is. 0 \<le> i \<Longrightarrow> mark is keep ! m = (keep ! m \<or> int m \<in> set is)"
  unfolding mark_def
proof (induction "is" arbitrary: keep)
  case (Cons i "is")
  have "fold (\<lambda>i k. k[nat i := True]) is (keep[nat i := True]) ! m = (keep[nat i := True] ! m \<or> int m \<in> set is)"
    using Cons.prems by (intro Cons.IH) auto
  also have "keep[nat i := True] ! m = (keep ! m \<or> int m = i)"
    using Cons.prems by (cases "nat i = m") auto
  finally show ?case by auto
qed simp

lemma countKept_count: "countKept keep = int (count_where (\<lambda>k. k) keep)"
proof -
  have "fold (\<lambda>k n. if k then n + 1 else n) keep a = a + int (count_where (\<lambda>k. k) keep)" for a
    by (induction keep arbitrary: a) auto
  then show ?thesis by (simp add: countKept_def)
qed

text \<open>The flags set in a list, as a set of indices.\<close>

definition flagged :: "bool list \<Rightarrow> nat set" where
  "flagged keep = {i. i < length keep \<and> keep ! i}"

lemma finite_flagged [simp]: "finite (flagged keep)"
  by (simp add: flagged_def)

lemma card_flagged: "card (flagged keep) = count_where (\<lambda>k. k) keep"
  unfolding flagged_def count_where_def by (simp add: length_filter_conv_card)

lemma flagged_mark:
  "\<forall>i \<in> set is. 0 \<le> i \<Longrightarrow> flagged (mark is keep) = flagged keep \<union> {m. m < length keep \<and> int m \<in> set is}"
  by (auto simp: flagged_def mark_nth)

lemma flagged_protected:
  assumes "0 < n"
  shows "flagged (protected n opts) = {i. i < n \<and> (i = 0 \<or> recentStart (int n) opts \<le> int i)}"
proof -
  let ?k = "(replicate n False)[0 := True, n - 1 := True]"
  have k: "flagged ?k = {0, n - 1}" using assms by (auto simp: flagged_def nth_list_update)
  show ?thesis
  proof (cases "KeepRecent opts > 0")
    case True
    have "flagged (protected n opts) = {0, n - 1} \<union> {m. m < n \<and> int m \<in> set [max (int n - KeepRecent opts) 0..int n - 1]}"
      unfolding protected_def Let_def using True k by (simp add: flagged_mark)
    then show ?thesis using True assms by (auto simp: recentStart_def)
  next
    case False
    then show ?thesis using k assms by (auto simp: protected_def recentStart_def)
  qed
qed

lemma length_protected [simp]: "length (protected n opts) = n"
  by (simp add: protected_def Let_def)

lemma length_kept_flags [simp]: "length (kept_flags n opts) = n"
  by (simp add: kept_flags_def keepEvenly_def Let_def)

text \<open>The evenly spaced points are distinct and lie between the ends.\<close>

lemma even_points:
  assumes "0 < budget" and "budget < (span :: int)"
  shows "inj_on (\<lambda>j. (j * span) div budget) {0..budget - 1}"
    and "j \<in> {0..budget - 1} \<Longrightarrow> 0 \<le> (j * span) div budget \<and> (j * span) div budget < span"
proof -
  have less: "(i * span) div budget < (j * span) div budget" if "i < j" for i j
  proof -
    have "i * span + budget \<le> j * span"
      using that assms mult_right_mono [of "i + 1" j span] by (simp add: distrib_right)
    then have "(i * span + budget) div budget \<le> (j * span) div budget"
      using assms(1) by (intro zdiv_mono1) auto
    moreover have "(i * span + budget) div budget = (i * span) div budget + 1"
      using assms(1) div_add_self2 [of budget "i * span"] by simp
    ultimately show ?thesis by simp
  qed
  show "inj_on (\<lambda>j. (j * span) div budget) {0..budget - 1}"
    by (rule inj_onI) (metis less less_irrefl linorder_less_linear)
  assume j: "j \<in> {0..budget - 1}"
  then have "0 \<le> (j * span) div budget" using assms by (simp add: pos_imp_zdiv_nonneg_iff)
  moreover have "(j * span) div budget < (budget * span) div budget" using j by (intro less) auto
  ultimately show "0 \<le> (j * span) div budget \<and> (j * span) div budget < span" using assms(1) by simp
qed

lemma card_int_interval: "card {m. m < n \<and> a \<le> int m \<and> int m < b} = nat (min (int n) b - max a 0)"
proof -
  have "{m. m < n \<and> a \<le> int m \<and> int m < b} = {nat (max a 0)..<nat (min (int n) b)}" by auto
  then show ?thesis by (simp add: nat_diff_distrib')
qed

lemma card_of_int_image:
  assumes "\<forall>x \<in> X. 0 \<le> x \<and> x < int n"
  shows "card {m. m < n \<and> int m \<in> X} = card X"
proof -
  have "bij_betw nat X {m. m < n \<and> int m \<in> X}"
    using assms by (intro bij_betw_byWitness [where f' = int]) auto
  then show ?thesis using bij_betw_same_card by metis
qed

lemma even_card:
  assumes "0 < budget" and "budget < (span :: int)" and "span < int n"
  defines "X \<equiv> (\<lambda>j. 1 + (j * span) div budget) ` {0..budget - 1}"
  shows "card {m. m < n \<and> int m \<in> X} = nat budget" and "\<forall>x \<in> X. 1 \<le> x \<and> x \<le> span"
proof -
  show X: "\<forall>x \<in> X. 1 \<le> x \<and> x \<le> span" unfolding X_def using even_points(2) [OF assms(1,2)] by force
  have "card {m. m < n \<and> int m \<in> X} = card X"
    using X assms(3) by (intro card_of_int_image) fastforce
  also have "\<dots> = card {0..budget - 1}"
    unfolding X_def using even_points(1) [OF assms(1,2)] by (intro card_image) (simp add: inj_on_def)
  finally show "card {m. m < n \<and> int m \<in> X} = nat budget" by simp
qed

text \<open>How many flags a thinning to at most \<open>MaxVersions\<close> leaves.\<close>

lemma protected_split:
  fixes opts :: compactOptions
  assumes "1 < n"
  defines "r \<equiv> recentStart (int n) opts"
  shows "flagged (protected n opts) \<inter> {m. m < n \<and> 1 \<le> int m \<and> int m < r} = {}"
    and "flagged (protected n opts) \<union> {m. m < n \<and> 1 \<le> int m \<and> int m < r} = {..<n}"
    and "int (card (flagged (protected n opts))) + max (r - 1) 0 = int n"
proof -
  let ?mid = "{m. m < n \<and> 1 \<le> int m \<and> int m < r}"
  have fl: "flagged (protected n opts) = {i. i < n \<and> (i = 0 \<or> r \<le> int i)}"
    using flagged_protected [of n opts] assms by simp
  show disj: "flagged (protected n opts) \<inter> ?mid = {}" and all: "flagged (protected n opts) \<union> ?mid = {..<n}"
    by (auto simp: fl)
  have "r \<le> int n - 1" by (simp add: r_def recentStart_def)
  then have "int (card ?mid) = max (r - 1) 0" using card_int_interval [of n 1 r] by simp
  then show "int (card (flagged (protected n opts))) + max (r - 1) 0 = int n"
    using card_Un_disjoint [of "flagged (protected n opts)" ?mid] disj all by simp
qed

lemma keepEvenly_flagged:
  fixes opts :: compactOptions
  assumes n: "1 < n"
  defines "keep \<equiv> protected n opts" and "r \<equiv> recentStart (int n) opts"
  shows "flagged keep \<subseteq> flagged (keepEvenly keep 1 r budget)"
    and "int (card (flagged (keepEvenly keep 1 r budget))) =
           max (int (card (flagged keep))) (min (int n) (int (card (flagged keep)) + budget))"
proof -
  note split = protected_split [OF n, of opts, folded keep_def r_def]
  have rs: "r \<le> int n - 1" by (simp add: r_def recentStart_def)
  have len: "length keep = n" by (simp add: keep_def)
  consider (none) "r - 1 \<le> 0 \<or> budget \<le> 0" | (every) "0 < r - 1" "0 < budget" "r - 1 \<le> budget"
    | (even) "0 < budget" "budget < r - 1" by linarith
  then have "flagged keep \<subseteq> flagged (keepEvenly keep 1 r budget) \<and>
    int (card (flagged (keepEvenly keep 1 r budget))) =
      max (int (card (flagged keep))) (min (int n) (int (card (flagged keep)) + budget))"
  proof cases
    case none
    then have "keepEvenly keep 1 r budget = keep" by (simp add: keepEvenly_def)
    then show ?thesis using none split(3) by auto
  next
    case every
    then have "keepEvenly keep 1 r budget = mark [1..r - 1] keep" by (simp add: keepEvenly_def)
    then have "flagged (keepEvenly keep 1 r budget) = {..<n}"
      using split(2) len by (simp add: flagged_mark)
    then show ?thesis using every split(2,3) by auto
  next
    case even
    let ?X = "(\<lambda>j. 1 + (j * (r - 1)) div budget) ` {0..budget - 1}"
    let ?P = "{m. m < n \<and> int m \<in> ?X}"
    have X: "\<forall>x \<in> ?X. 1 \<le> x \<and> x \<le> r - 1" and card: "card ?P = nat budget"
      using even_card [OF even, of n] rs by auto
    have "keepEvenly keep 1 r budget = mark (map (\<lambda>j. 1 + (j * (r - 1)) div budget) [0..budget - 1]) keep"
      using even by (simp add: keepEvenly_def)
    moreover have "\<forall>i \<in> ?X. 0 \<le> i" using X by force
    ultimately have F: "flagged (keepEvenly keep 1 r budget) = flagged keep \<union> ?P"
      using flagged_mark [of "map (\<lambda>j. 1 + (j * (r - 1)) div budget) [0..budget - 1]" keep] len
      by (simp only: set_map set_upto)
    have "?P \<subseteq> {m. m < n \<and> 1 \<le> int m \<and> int m < r}" using X by fastforce
    then have "flagged keep \<inter> ?P = {}" using split(1) by blast
    then have "card (flagged keep \<union> ?P) = card (flagged keep) + nat budget"
      using card by (subst card_Un_disjoint) auto
    then show ?thesis using F even split(3) by auto
  qed
  then show "flagged keep \<subseteq> flagged (keepEvenly keep 1 r budget)"
    and "int (card (flagged (keepEvenly keep 1 r budget))) =
           max (int (card (flagged keep))) (min (int n) (int (card (flagged keep)) + budget))" by auto
qed

section \<open>What is deleted\<close>

lemma kept_flags_protected: "1 < n \<Longrightarrow> flagged (protected n opts) \<subseteq> flagged (kept_flags n opts)"
  using keepEvenly_flagged(1) [of n opts] by (auto simp: kept_flags_def Let_def flagged_mark)

lemma kept_flags_uncapped:
  assumes "0 < n" and "MaxVersions opts \<le> 0"
  shows "flagged (kept_flags n opts) =
    {i. i < n \<and> (i = 0 \<or> recentStart (int n) opts \<le> int i \<or> Factor opts < 2 \<or> int i mod Factor opts = 0)}"
proof -
  let ?is = "if Factor opts \<ge> 2 then filter (\<lambda>i. i mod Factor opts = 0) [1..recentStart (int n) opts - 1]
             else [1..recentStart (int n) opts - 1]"
  have "kept_flags n opts = mark ?is (protected n opts)" using assms(2) by (simp add: kept_flags_def)
  moreover have "\<forall>i \<in> set ?is. 0 \<le> i" by auto
  ultimately have "flagged (kept_flags n opts) = flagged (protected n opts) \<union> {m. m < n \<and> int m \<in> set ?is}"
    by (simp only: flagged_mark length_protected)
  then show ?thesis using flagged_protected [OF assms(1), of opts] by fastforce
qed

lemma card_protected:
  assumes "2 < n"
  shows "int (card (flagged (protected n opts))) = min (int n) (1 + max 1 (KeepRecent opts))"
  using protected_split(3) [of n opts] assms by (auto simp: recentStart_def split: if_splits)

lemma deleted_iff:
  assumes "distinct vers" and "length ks = length vers" and "i < length vers"
  shows "vers ! i \<in> set (map fst (filter (\<lambda>(v, k). \<not> k) (zip vers ks))) \<longleftrightarrow> \<not> ks ! i"
proof
  assume "vers ! i \<in> set (map fst (filter (\<lambda>(v, k). \<not> k) (zip vers ks)))"
  then obtain j where "j < length vers" "vers ! j = vers ! i" "\<not> ks ! j"
    using assms(2) by (auto simp: set_zip)
  then show "\<not> ks ! i" using assms nth_eq_iff_index_eq by metis
next
  assume "\<not> ks ! i"
  then have "(vers ! i, ks ! i) \<in> set (filter (\<lambda>(v, k). \<not> k) (zip vers ks))"
    using assms(2,3) by (auto simp: set_zip)
  then show "vers ! i \<in> set (map fst (filter (\<lambda>(v, k). \<not> k) (zip vers ks)))" by force
qed

lemma length_deleted:
  "length ks = length vers \<Longrightarrow>
   length (filter (\<lambda>(v, k). \<not> k) (zip vers ks)) + card (flagged ks) = length vers"
  unfolding card_flagged
  by (induction vers ks rule: list_induct2') (auto simp: count_where_def)

lemma versionsToDelete_full:
  assumes "max (MinVersions opts) 2 < int (length vers)"
  shows "versionsToDelete vers opts = map fst (filter (\<lambda>(v, k). \<not> k) (zip vers (kept_flags (length vers) opts)))"
  using assms unfolding versionsToDelete_def Let_def by (simp only: not_le [symmetric] if_False)

lemma versionsToDelete_small:
  assumes "\<not> max (MinVersions opts) 2 < int (length vers)" shows "versionsToDelete vers opts = []"
  using assms unfolding versionsToDelete_def Let_def by (simp only: not_less if_True)

lemma versionsToDelete_subset: "set (versionsToDelete vers opts) \<subseteq> set vers"
  by (auto simp: versionsToDelete_def Let_def dest: set_zip_leftD)

lemma versionsToDelete_iff:
  assumes "distinct vers" and "max (MinVersions opts) 2 < int (length vers)" and "i < length vers"
  shows "vers ! i \<in> set (versionsToDelete vers opts) \<longleftrightarrow> i \<notin> flagged (kept_flags (length vers) opts)"
  using deleted_iff [OF assms(1) length_kept_flags assms(3), of opts] assms(3)
  unfolding versionsToDelete_full [OF assms(2)] flagged_def by simp

lemma versionsToDelete_ends:
  assumes "distinct vers" and "vers \<noteq> []"
  shows "hd vers \<notin> set (versionsToDelete vers opts)" and "last vers \<notin> set (versionsToDelete vers opts)"
proof -
  have ends: "i \<in> flagged (kept_flags (length vers) opts)"
    if "i = 0 \<or> i = length vers - 1" and "2 < length vers" for i
  proof -
    have "0 < length vers" using assms(2) by simp
    then have "i \<in> flagged (protected (length vers) opts)"
      using that flagged_protected [of "length vers" opts] unfolding recentStart_def by fastforce
    then show ?thesis using kept_flags_protected [of "length vers" opts] that(2) by auto
  qed
  have "i \<notin> {i. i < length vers \<and> vers ! i \<in> set (versionsToDelete vers opts)}"
    if "i = 0 \<or> i = length vers - 1" for i
  proof (cases "max (MinVersions opts) 2 < int (length vers)")
    case True
    then show ?thesis using that versionsToDelete_iff [OF assms(1) True, of i] ends [of i] by simp
  next
    case False
    then have "versionsToDelete vers opts = []" by (rule versionsToDelete_small)
    then show ?thesis by simp
  qed
  then have "vers ! 0 \<notin> set (versionsToDelete vers opts)" "vers ! (length vers - 1) \<notin> set (versionsToDelete vers opts)"
    using assms(2) by auto
  then show "hd vers \<notin> set (versionsToDelete vers opts)" and "last vers \<notin> set (versionsToDelete vers opts)"
    using assms(2) by (simp_all add: hd_conv_nth last_conv_nth)
qed

text \<open>
  C31: Of the ascending versions of a model that is not below the minimum, a thinning deletes
  neither the first, nor the last, nor any of the \<open>KeepRecent\<close> most recent ones; with a cap it
  leaves exactly \<open>min n MaxVersions\<close> of them, or the protected ones when these are more; with a
  factor it deletes exactly the unprotected versions whose position is not a multiple of it;
  with neither it deletes nothing.
\<close>

theorem versionsToDelete_keeps:
  assumes "sorted_wrt (<) vers" and "max (MinVersions opts) 2 < int (length vers)"
  defines "n \<equiv> int (length vers)" and "del \<equiv> versionsToDelete vers opts"
  shows "hd vers \<notin> set del \<and> last vers \<notin> set del \<and>
    (\<forall>i < length vers. n - KeepRecent opts \<le> int i \<longrightarrow> vers ! i \<notin> set del) \<and>
    (MaxVersions opts > 0 \<longrightarrow>
       n - int (length del) = max (min n (1 + max 1 (KeepRecent opts))) (min n (MaxVersions opts))) \<and>
    (MaxVersions opts \<le> 0 \<and> Factor opts \<ge> 2 \<longrightarrow>
       (\<forall>i < length vers. vers ! i \<in> set del \<longleftrightarrow>
          0 < i \<and> int i < n - max 1 (KeepRecent opts) \<and> int i mod Factor opts \<noteq> 0)) \<and>
    (MaxVersions opts \<le> 0 \<and> Factor opts < 2 \<longrightarrow> del = [])"
proof (intro conjI allI impI)
  let ?k = "kept_flags (length vers) opts" and ?p = "protected (length vers) opts"
  have d: "distinct vers" using assms(1) by (simp add: strict_sorted_iff)
  have N: "2 < length vers" and ne: "vers \<noteq> []" using assms(2) by auto
  have iff: "vers ! i \<in> set del \<longleftrightarrow> i \<notin> flagged ?k" if "i < length vers" for i
    using versionsToDelete_iff [OF d assms(2) that] by (simp add: del_def)
  have prot: "flagged ?p = {i. i < length vers \<and> (i = 0 \<or> recentStart n opts \<le> int i)}"
    using flagged_protected [of "length vers" opts] N unfolding n_def by linarith
  have rs: "recentStart n opts = n - max 1 (KeepRecent opts)" by (auto simp: recentStart_def max_def)
  show "hd vers \<notin> set del" "last vers \<notin> set del"
    using versionsToDelete_ends [OF d ne, of opts] by (auto simp: del_def)
  show "vers ! i \<notin> set del" if "i < length vers" "n - KeepRecent opts \<le> int i" for i
  proof -
    have "n - max 1 (KeepRecent opts) \<le> int i" using that(2) by linarith
    then have "i \<in> flagged ?p" using that(1) unfolding prot rs by simp
    then show ?thesis using iff [OF that(1)] kept_flags_protected [of "length vers" opts] N by auto
  qed
  have len: "n - int (length del) = int (card (flagged ?k))"
    using length_deleted [of ?k vers] by (simp add: del_def versionsToDelete_full [OF assms(2)] n_def)
  show "n - int (length del) = max (min n (1 + max 1 (KeepRecent opts))) (min n (MaxVersions opts))"
    if "MaxVersions opts > 0"
    using keepEvenly_flagged(2) [of "length vers" opts "MaxVersions opts - countKept ?p"] that N
      card_protected [OF N, of opts] len
    by (simp add: kept_flags_def Let_def countKept_count card_flagged n_def)
  show "vers ! i \<in> set del \<longleftrightarrow> 0 < i \<and> int i < n - max 1 (KeepRecent opts) \<and> int i mod Factor opts \<noteq> 0"
    if "MaxVersions opts \<le> 0 \<and> Factor opts \<ge> 2" "i < length vers" for i
    using that iff [OF that(2)] rs kept_flags_uncapped [of "length vers" opts] N
    unfolding n_def by fastforce
  show "del = []" if m: "MaxVersions opts \<le> 0 \<and> Factor opts < 2"
  proof -
    have "flagged ?k = {..<length vers}"
      using m ne kept_flags_uncapped [of "length vers" opts] by auto
    then show ?thesis using len n_def by simp
  qed
qed

theorem versionsToDelete_keeps_witness:
  "max 0 2 < int (length [1, 2, 3, 4, 5, 6, 7 :: int]) \<and>
   7 - int (length (versionsToDelete [1, 2, 3, 4, 5, 6, 7] \<lparr>Factor = 0, KeepRecent = 2, MaxVersions = 4, MinVersions = 0\<rparr>)) = 4"
  using versionsToDelete_keeps [of "[1, 2, 3, 4, 5, 6, 7]" "\<lparr>Factor = 0, KeepRecent = 2, MaxVersions = 4, MinVersions = 0\<rparr>"]
  by simp

end
