(* ===== verification/Auditlog.thy ===== *)
theory Auditlog
  imports Dbx Auditlog_Compact
begin

text \<open>
  The package \<open>auditlog\<close> without its asynchronous recorder: the entries (\<open>models.go\<close>), the
  comparison of snapshots (\<open>compare.go\<close>), the \<open>Core\<close> over a store (\<open>auditlog.go\<close>,
  \<open>compact.go\<close>), the contract of a store as a locale, and an abstract history that the core
  implements over any store. The JSON library and \<open>cmp.Diff\<close> are arguments; log records are
  left out.
\<close>

section \<open>Entries\<close>

record AuditLog =
  ID :: int
  Version :: int
  ModelType :: string
  ModelID :: string
  Method :: string
  Path :: string
  Payload :: string
  CreatedAt :: instant
  CreatedBy :: string

record 'v NewAuditLog =
  in_ModelID :: string
  in_ModelType :: string
  in_Method :: string
  in_Path :: string
  in_Payload :: 'v
  in_CreatedBy :: string

definition zero_AuditLog :: AuditLog where
  "zero_AuditLog = \<lparr>ID = 0, Version = 0, ModelType = [], ModelID = [], Method = [], Path = [],
     Payload = [], CreatedAt = 0, CreatedBy = []\<rparr>"

definition model_of :: "AuditLog \<Rightarrow> string \<times> string" where
  "model_of al = (ModelType al, ModelID al)"

definition ErrNotFound :: string where "ErrNotFound = ''audit log not found''"
definition ErrInvalidFilter :: string where "ErrInvalidFilter = ''invalid audit log query filter''"

section \<open>Snapshots\<close>

text \<open>
  A decoded JSON value; \<open>'n\<close> is the type of numbers, \<open>JNull\<close> also stands for the nil interface.
  A map is the list of its pairs in the order of the keys, so that equal maps are equal lists;
  as the payload of an entry it may be nil, which is \<open>None\<close>.
\<close>

datatype 'n json = JNull | JBool bool | JNum 'n | JStr string | JArr "'n json list"
  | JObj "(string \<times> 'n json) list"

type_synonym 'n object = "(string \<times> 'n json) list"

fun removeKeys :: "string \<Rightarrow> 'n json \<Rightarrow> 'n json"
  and remove_items :: "string \<Rightarrow> 'n json list \<Rightarrow> 'n json list"
  and remove_fields :: "string \<Rightarrow> (string \<times> 'n json) list \<Rightarrow> (string \<times> 'n json) list" where
  "removeKeys k JNull = JNull"
| "removeKeys k (JBool b) = JBool b"
| "removeKeys k (JNum n) = JNum n"
| "removeKeys k (JStr s) = JStr s"
| "removeKeys k (JArr xs) = JArr (remove_items k xs)"
| "removeKeys k (JObj kvs) = JObj (remove_fields k kvs)"
| "remove_items k [] = []"
| "remove_items k (x # xs) = removeKeys k x # remove_items k xs"
| "remove_fields k [] = []"
| "remove_fields k ((key, v) # kvs) =
     (if key = k then remove_fields k kvs else (key, removeKeys k v) # remove_fields k kvs)"

record ('n, 'v) json_lib =
  Marshal :: "'v \<Rightarrow> go_error + string"
  Unmarshal :: "string \<Rightarrow> go_error + 'n object option"
  Marshal_map :: "'n object option \<Rightarrow> go_error + string"
  cmp_Diff :: "'n object option \<Rightarrow> 'n object option \<Rightarrow> string"

definition normalizeMap :: "('n, 'v) json_lib \<Rightarrow> string \<Rightarrow> go_error + 'n object option" where
  "normalizeMap js data =
     (case Unmarshal js data of
        Inl e \<Rightarrow> Inl (wrap_err ''failed to unmarshal JSON'' e)
      | Inr m \<Rightarrow> Inr (map_option (\<lambda>m. remove_fields ''updated_by'' (remove_fields ''updated_at'' m)) m))"

definition normalizeJSON :: "('n, 'v) json_lib \<Rightarrow> string \<Rightarrow> go_error + string" where
  "normalizeJSON js data =
     (case normalizeMap js data of
        Inl e \<Rightarrow> Inl e
      | Inr m \<Rightarrow> (case Marshal_map js m of
          Inl e \<Rightarrow> Inl (wrap_err ''failed to marshal JSON'' e) | Inr b \<Rightarrow> Inr b))"

definition payloadsEqual :: "('n, 'v) json_lib \<Rightarrow> string \<Rightarrow> string \<Rightarrow> go_error + bool" where
  "payloadsEqual js a b =
     (case normalizeMap js a of
        Inl e \<Rightarrow> Inl e
      | Inr na \<Rightarrow> (case normalizeMap js b of Inl e \<Rightarrow> Inl e | Inr nb \<Rightarrow> Inr (na = nb)))"

definition diff :: "('n, 'v) json_lib \<Rightarrow> string \<Rightarrow> string \<Rightarrow> go_error + string" where
  "diff js curVer prevVer =
     (case Unmarshal js curVer of
        Inl e \<Rightarrow> Inl (wrap_err ''auditlog: decode current version'' e)
      | Inr cur \<Rightarrow>
          (case Unmarshal js prevVer of
             Inl e \<Rightarrow> Inl (wrap_err ''auditlog: decode previous version'' e)
           | Inr prev \<Rightarrow> if cur = prev then Inr [] else Inr (cmp_Diff js cur prev)))"

definition NormalizeDiff :: "string \<Rightarrow> string" where
  "NormalizeDiff d =
     concat (map (\<lambda>line. if has_prefix ''+'' line \<or> has_prefix ''-'' line then line @ [CHR 0x0A] else [])
       (split_on CHR 0x0A d))"

definition unmarshalJSON :: "('n, 'v) json_lib \<Rightarrow> string \<Rightarrow> go_error + 'n object option" where
  "unmarshalJSON js data =
     (case Unmarshal js data of
        Inl e \<Rightarrow> Inl (wrap_err ''auditlog: decode payload'' e)
      | Inr m \<Rightarrow> Inr m)"

text \<open>
  \<open>compareJSON\<close> returns for each changed key the old and the new value, nil where there is none.
  Ranging over a nil map, and reading it, is as for an empty one. The result is a map too; its
  keys come in the order they were recorded.
\<close>

definition value_at :: "'n object \<Rightarrow> string \<Rightarrow> 'n json" where
  "value_at m k = (case map_of m k of Some v \<Rightarrow> v | None \<Rightarrow> JNull)"

definition fields_of :: "'n object option \<Rightarrow> 'n object" where
  "fields_of m = (case m of Some kvs \<Rightarrow> kvs | None \<Rightarrow> [])"

definition compareJSON :: "'n object option \<Rightarrow> 'n object option \<Rightarrow> (string \<times> 'n json \<times> 'n json) list" where
  "compareJSON prev' curr' =
     (let prev = fields_of prev'; curr = fields_of curr'
      in map (\<lambda>(key, v). (key, value_at prev key, v)) (filter (\<lambda>(key, v). map_of prev key \<noteq> Some v) curr) @
         map (\<lambda>(key, v). (key, v, JNull)) (filter (\<lambda>(key, v). map_of curr key = None) prev))"

section \<open>The store contract\<close>

record ModelRef =
  ref_ModelType :: string
  ref_ModelID :: string
  ref_Versions :: int

record 'w store_ops =
  Save :: "AuditLog \<Rightarrow> 'w \<Rightarrow> err \<times> 'w"
  LastByModelID :: "string \<Rightarrow> string \<Rightarrow> 'w \<Rightarrow> (go_error + AuditLog) \<times> 'w"
  HistoryByModelID :: "string \<Rightarrow> string \<Rightarrow> 'w \<Rightarrow> (go_error + AuditLog list) \<times> 'w"
  ModelByVersion :: "string \<Rightarrow> string \<Rightarrow> int \<Rightarrow> 'w \<Rightarrow> (go_error + AuditLog) \<times> 'w"
  Versions :: "string \<Rightarrow> string \<Rightarrow> 'w \<Rightarrow> (go_error + int list) \<times> 'w"
  DeleteVersions :: "string \<Rightarrow> string \<Rightarrow> int list \<Rightarrow> 'w \<Rightarrow> (go_error + int) \<times> 'w"
  OverThreshold :: "int \<Rightarrow> int \<Rightarrow> 'w \<Rightarrow> (go_error + ModelRef list) \<times> 'w"

section \<open>The core\<close>

record 'w core =
  core_store :: "'w store_ops"
  autoCompactEvery :: int
  autoCompactOpts :: compactOptions
  time_Now :: "'w \<Rightarrow> instant \<times> 'w"

text \<open>The text \<open>what t/i\<close> that the errors of the core carry.\<close>

definition about_model :: "string \<Rightarrow> string \<Rightarrow> string \<Rightarrow> string" where
  "about_model what t i = what @ '' '' @ t @ ''/'' @ i"

definition QueryLastByModelID :: "'w core \<Rightarrow> string \<Rightarrow> string \<Rightarrow> 'w \<Rightarrow> (go_error + AuditLog) \<times> 'w" where
  "QueryLastByModelID c t i w =
     (case LastByModelID (core_store c) t i w of
        (Inl e, w) \<Rightarrow> (Inl (wrap_err (about_model ''auditlog: query last'' t i) e), w)
      | (Inr al, w) \<Rightarrow> (Inr al, w))"

definition QueryHistoryByModelID :: "'w core \<Rightarrow> string \<Rightarrow> string \<Rightarrow> 'w \<Rightarrow> (go_error + AuditLog list) \<times> 'w" where
  "QueryHistoryByModelID c t i w =
     (case HistoryByModelID (core_store c) t i w of
        (Inl e, w) \<Rightarrow> (Inl (wrap_err (about_model ''auditlog: query history'' t i) e), w)
      | (Inr als, w) \<Rightarrow> (Inr als, w))"

record QueryFilter =
  CurrentVersion :: "int option"
  TargetVersion :: "int option"

definition QueryDiffByModelID ::
    "'w core \<Rightarrow> ('n, 'v) json_lib \<Rightarrow> string \<Rightarrow> string \<Rightarrow> QueryFilter \<Rightarrow> 'w \<Rightarrow> (go_error + string) \<times> 'w" where
  "QueryDiffByModelID c js t i qf w =
     (case (CurrentVersion qf, TargetVersion qf) of
        (Some cv, Some tv) \<Rightarrow>
          (let version_err = (\<lambda>v. wrap_err (about_model (''auditlog: query version '' @ show_int v @ '' of'') t i))
           in case ModelByVersion (core_store c) t i cv w of
                (Inl e, w) \<Rightarrow> (Inl (version_err cv e), w)
              | (Inr cur, w) \<Rightarrow>
                  (case ModelByVersion (core_store c) t i tv w of
                     (Inl e, w) \<Rightarrow> (Inl (version_err tv e), w)
                   | (Inr target, w) \<Rightarrow>
                       (case diff js (Payload cur) (Payload target) of
                          Inl e \<Rightarrow> (Inl (wrap_err (about_model ''auditlog: diff'' t i) e), w)
                        | Inr d \<Rightarrow> (Inr d, w))))
      | _ \<Rightarrow> (Inl (Wrapf (''auditlog: '' @ ErrInvalidFilter @ '': both current and target versions are required'')
                 (Sentinel ErrInvalidFilter)), w))"

record 'n Field =
  Key :: string
  OldValue :: "'n json"
  NewValue :: "'n json"

record 'n DiffRecord =
  diff_ID :: int
  diff_ModelID :: string
  diff_ModelType :: string
  diff_Method :: string
  diff_Path :: string
  diff_Version :: int
  UpdatedBy :: string
  UpdatedAt :: instant
  ChangedFields :: "'n Field list"

definition diff_record :: "AuditLog \<Rightarrow> 'n Field list \<Rightarrow> 'n DiffRecord" where
  "diff_record al fs = \<lparr>diff_ID = ID al, diff_ModelID = ModelID al, diff_ModelType = ModelType al,
     diff_Method = Method al, diff_Path = Path al, diff_Version = Version al,
     UpdatedBy = CreatedBy al, UpdatedAt = CreatedAt al, ChangedFields = fs\<rparr>"

text \<open>
  The loop of \<open>QueryDiffAllVersionByModelID\<close>, from the entry \<open>prev\<close> at index \<open>i - 1\<close> on; the
  record of the first version comes with that of the second.
\<close>

fun diff_loop ::
    "('n, 'v) json_lib \<Rightarrow> (go_error \<Rightarrow> go_error) \<Rightarrow> bool \<Rightarrow> AuditLog \<Rightarrow> AuditLog list \<Rightarrow> 'n DiffRecord list \<Rightarrow>
     go_error + 'n DiffRecord list" where
  "diff_loop js wrap first prev [] recs = Inr recs"
| "diff_loop js wrap first prev (cur # rest) recs =
     (case unmarshalJSON js (Payload prev) of
        Inl e \<Rightarrow> Inl (wrap e)
      | Inr v1 \<Rightarrow>
          (case unmarshalJSON js (Payload cur) of
             Inl e \<Rightarrow> Inl (wrap e)
           | Inr v2 \<Rightarrow>
               (let d = compareJSON v1 v2;
                    ver1 = diff_record prev (map (\<lambda>(k, old, new). \<lparr>Key = k, OldValue = JNull, NewValue = old\<rparr>) d);
                    rec = diff_record cur (map (\<lambda>(k, old, new). \<lparr>Key = k, OldValue = old, NewValue = new\<rparr>) d)
                in diff_loop js wrap False cur rest (recs @ (if first then [ver1] else []) @ [rec]))))"

definition QueryDiffAllVersionByModelID ::
    "'w core \<Rightarrow> ('n, 'v) json_lib \<Rightarrow> string \<Rightarrow> string \<Rightarrow> 'w \<Rightarrow> (go_error + 'n DiffRecord list) \<times> 'w" where
  "QueryDiffAllVersionByModelID c js t i w =
     (let wrap = (\<lambda>e. Wrapf (''query auditlog history by modelID['' @ i @ ''], modelType['' @ t @ ''] '' @ err_text e) e)
      in case QueryHistoryByModelID c t i w of
           (Inl e, w) \<Rightarrow> (Inl (wrap e), w)
         | (Inr (a # b # rest), w) \<Rightarrow> (diff_loop js wrap True a (b # rest) [], w)
         | (Inr _, w) \<Rightarrow> (Inr [], w))"

definition Compact ::
    "'w core \<Rightarrow> string \<Rightarrow> string \<Rightarrow> compactOptions \<Rightarrow> 'w \<Rightarrow> (go_error + int) \<times> 'w" where
  "Compact c t i opts w =
     (case Versions (core_store c) t i w of
        (Inl e, w) \<Rightarrow> (Inl (wrap_err (about_model ''auditlog: compact'' t i) e), w)
      | (Inr vers, w) \<Rightarrow>
          (let del = versionsToDelete vers opts
           in if del = [] then (Inr 0, w)
              else case DeleteVersions (core_store c) t i del w of
                (Inl e, w) \<Rightarrow> (Inl (wrap_err (about_model ''auditlog: compact'' t i) e), w)
              | (Inr n, w) \<Rightarrow> (Inr n, w)))"

definition maybeAutoCompact :: "'w core \<Rightarrow> AuditLog \<Rightarrow> 'w \<Rightarrow> 'w" where
  "maybeAutoCompact c entry w =
     (if autoCompactEvery c \<le> 0 \<or> \<not> autoCompactEvery c dvd Version entry then w
      else snd (Compact c (ModelType entry) (ModelID entry) (autoCompactOpts c) w))"

definition maxCreateAttempts :: nat where "maxCreateAttempts = 3"

definition new_entry :: "'v NewAuditLog \<Rightarrow> string \<Rightarrow> int \<Rightarrow> instant \<Rightarrow> AuditLog" where
  "new_entry inp body ver at_time = \<lparr>ID = 0, Version = ver, ModelType = in_ModelType inp, ModelID = in_ModelID inp,
     Method = in_Method inp, Path = in_Path inp, Payload = body, CreatedAt = at_time,
     CreatedBy = in_CreatedBy inp\<rparr>"

text \<open>The loop of \<open>Create\<close> from the attempt numbered \<open>attempt\<close> on.\<close>

function create_loop ::
    "'w core \<Rightarrow> ('n, 'v) json_lib \<Rightarrow> 'v NewAuditLog \<Rightarrow> string \<Rightarrow> nat \<Rightarrow> 'w \<Rightarrow> (go_error + AuditLog) \<times> 'w" where
  "create_loop c js inp body attempt w =
     (case QueryLastByModelID c (in_ModelType inp) (in_ModelID inp) w of (r, w) \<Rightarrow>
        (case (case r of Inr al \<Rightarrow> Inr al
                | Inl e \<Rightarrow> if err_is (Some e) ErrNotFound then Inr zero_AuditLog else Inl e) of
           Inl e \<Rightarrow> (Inl e, w)
         | Inr lst \<Rightarrow>
             (case (if Version lst \<noteq> 0 then payloadsEqual js body (Payload lst) else Inr False) of
                Inl e \<Rightarrow> (Inl e, w)
              | Inr True \<Rightarrow> (Inr zero_AuditLog, w)
              | Inr False \<Rightarrow>
                  (case time_Now c w of (at_time, w) \<Rightarrow>
                  (let entry = new_entry inp body (wrap64 (Version lst + 1)) at_time
                   in case Save (core_store c) entry w of
                        (None, w) \<Rightarrow> (Inr entry, maybeAutoCompact c entry w)
                      | (Some e, w) \<Rightarrow>
                          if err_is (Some e) ErrDBDuplicatedEntry \<and> attempt < maxCreateAttempts
                          then create_loop c js inp body (attempt + 1) w
                          else (Inl (wrap_err (about_model ''auditlog: save'' (ModelType entry) (ModelID entry) @ '' v'' @
                                  show_int (Version entry)) e), w))))))"
  by pat_completeness auto
termination
  by (relation "measure (\<lambda>(c, js, inp, body, attempt, w). maxCreateAttempts - attempt)") auto

declare create_loop.simps [simp del]

definition Create ::
    "'w core \<Rightarrow> ('n, 'v) json_lib \<Rightarrow> 'v NewAuditLog \<Rightarrow> 'w \<Rightarrow> (go_error + AuditLog) \<times> 'w" where
  "Create c js inp w =
     (case Marshal js (in_Payload inp) of
        Inl e \<Rightarrow> (Inl (wrap_err ''auditlog: encode payload'' e), w)
      | Inr body \<Rightarrow> create_loop c js inp body 1 w)"

definition Record :: "'w core \<Rightarrow> ('n, 'v) json_lib \<Rightarrow> 'v NewAuditLog \<Rightarrow> 'w \<Rightarrow> 'w" where
  "Record c js inp w = snd (Create c js inp w)"

record CompactBatchOptions =
  Threshold :: int
  Limit :: int
  batch_Compact :: compactOptions

record CompactResult =
  Models :: int
  Deleted :: int

fun batch_loop ::
    "'w core \<Rightarrow> compactOptions \<Rightarrow> ModelRef list \<Rightarrow> CompactResult \<Rightarrow> 'w \<Rightarrow> (CompactResult \<times> err) \<times> 'w" where
  "batch_loop c opts [] res w = ((res, None), w)"
| "batch_loop c opts (ref # refs) res w =
     (case Compact c (ref_ModelType ref) (ref_ModelID ref) opts w of
        (Inl e, w) \<Rightarrow> ((res, Some e), w)
      | (Inr n, w) \<Rightarrow>
          batch_loop c opts refs
            (if n > 0 then \<lparr>Models = Models res + 1, Deleted = Deleted res + n\<rparr> else res) w)"

definition CompactBatch :: "'w core \<Rightarrow> CompactBatchOptions \<Rightarrow> 'w \<Rightarrow> (CompactResult \<times> err) \<times> 'w" where
  "CompactBatch c opts w =
     (case OverThreshold (core_store c) (Threshold opts) (if Limit opts \<le> 0 then 100 else Limit opts) w of
        (Inl e, w) \<Rightarrow> ((\<lparr>Models = 0, Deleted = 0\<rparr>, Some (wrap_err ''auditlog: compact batch'' e)), w)
      | (Inr refs, w) \<Rightarrow> batch_loop c (batch_Compact opts) refs \<lparr>Models = 0, Deleted = 0\<rparr> w)"

section \<open>Histories\<close>

text \<open>
  What the audit trail is about: for each model the ascending versions with their normalised
  snapshots. A change that is one appends a version; a thinning keeps some of them.
\<close>

type_synonym 'n history = "string \<times> string \<Rightarrow> (int \<times> 'n object option) list"

definition next_version :: "(int \<times> 'd) list \<Rightarrow> int" where
  "next_version h = (if h = [] then 1 else fst (last h) + 1)"

definition thin_history :: "compactOptions \<Rightarrow> (int \<times> 'd) list \<Rightarrow> (int \<times> 'd) list" where
  "thin_history opts h = filter (\<lambda>(v, d). v \<notin> set (versionsToDelete (map fst h) opts)) h"

definition add_snapshot :: "int \<Rightarrow> compactOptions \<Rightarrow> 'd \<Rightarrow> (int \<times> 'd) list \<Rightarrow> (int \<times> 'd) list" where
  "add_snapshot every opts d h =
     (if h \<noteq> [] \<and> snd (last h) = d then h
      else let h' = h @ [(next_version h, d)]
           in if every > 0 \<and> every dvd next_version h then thin_history opts h' else h')"

text \<open>The operations that change the trail, one after the other, with the errors they return.\<close>

datatype 'v audit_op = Op_Create "'v NewAuditLog" | Op_Compact string string compactOptions

fun run_op :: "'w core \<Rightarrow> ('n, 'v) json_lib \<Rightarrow> 'v audit_op \<Rightarrow> 'w \<Rightarrow> err \<times> 'w" where
  "run_op c js (Op_Create inp) w =
     (case Create c js inp w of (Inl e, w) \<Rightarrow> (Some e, w) | (Inr _, w) \<Rightarrow> (None, w))"
| "run_op c js (Op_Compact t i opts) w =
     (case Compact c t i opts w of (Inl e, w) \<Rightarrow> (Some e, w) | (Inr _, w) \<Rightarrow> (None, w))"

fun run_ops :: "'w core \<Rightarrow> ('n, 'v) json_lib \<Rightarrow> 'v audit_op list \<Rightarrow> 'w \<Rightarrow> err list \<times> 'w" where
  "run_ops c js [] w = ([], w)"
| "run_ops c js (op # ops) w =
     (case run_op c js op w of (x, w) \<Rightarrow> (case run_ops c js ops w of (xs, w) \<Rightarrow> (x # xs, w)))"

definition snapshot :: "('n, 'v) json_lib \<Rightarrow> string \<Rightarrow> 'n object option" where
  "snapshot js data = (case normalizeMap js data of Inr d \<Rightarrow> d | Inl _ \<Rightarrow> None)"

definition payload_text :: "('n, 'v) json_lib \<Rightarrow> 'v \<Rightarrow> string" where
  "payload_text js v = (case Marshal js v of Inr b \<Rightarrow> b | Inl _ \<Rightarrow> [])"

fun abstract_op ::
    "int \<Rightarrow> compactOptions \<Rightarrow> ('n, 'v) json_lib \<Rightarrow> 'v audit_op \<Rightarrow> 'n history \<Rightarrow> 'n history" where
  "abstract_op every opts js (Op_Create inp) H =
     (let k = (in_ModelType inp, in_ModelID inp)
      in H(k := add_snapshot every opts (snapshot js (payload_text js (in_Payload inp))) (H k)))"
| "abstract_op every opts js (Op_Compact t i o') H = H((t, i) := thin_history o' (H (t, i)))"

text \<open>An input the JSON library encodes, to a text it decodes.\<close>

fun encodable :: "('n, 'v) json_lib \<Rightarrow> 'v audit_op \<Rightarrow> bool" where
  "encodable js (Op_Create inp) =
     (\<exists>b d. Marshal js (in_Payload inp) = Inr b \<and> Unmarshal js b = Inr d)"
| "encodable js (Op_Compact t i opts) = True"

text \<open>The history that the entries of a store stand for; its payloads decode.\<close>

definition abstract_history :: "('n, 'v) json_lib \<Rightarrow> (string \<times> string \<Rightarrow> AuditLog list) \<Rightarrow> 'n history" where
  "abstract_history js h k = map (\<lambda>al. (Version al, snapshot js (Payload al))) (h k)"

definition readable :: "('n, 'v) json_lib \<Rightarrow> (string \<times> string \<Rightarrow> AuditLog list) \<Rightarrow> bool" where
  "readable js h = (\<forall>k. \<forall>al \<in> set (h k). \<exists>d. Unmarshal js (Payload al) = Inr d)"

section \<open>Lemmas\<close>

lemma map_fst_abstract [simp]: "map fst (abstract_history js h k) = map Version (h k)"
  by (simp add: abstract_history_def comp_def)

lemma abstract_history_Nil [simp]: "abstract_history js h k = [] \<longleftrightarrow> h k = []"
  by (simp add: abstract_history_def)

lemma abstract_history_last:
  "h k \<noteq> [] \<Longrightarrow> last (abstract_history js h k) = (Version (last (h k)), snapshot js (Payload (last (h k))))"
  by (simp add: abstract_history_def last_map)

lemma payloadsEqual_snapshot:
  "Unmarshal js a = Inr d \<Longrightarrow> Unmarshal js b = Inr d' \<Longrightarrow> payloadsEqual js a b = Inr (snapshot js a = snapshot js b)"
  by (simp add: payloadsEqual_def snapshot_def normalizeMap_def)

lemma snapshot_cong: "Unmarshal js a = Unmarshal js b \<Longrightarrow> snapshot js a = snapshot js b"
  by (simp add: snapshot_def normalizeMap_def)

lemma readableD: "readable js h \<Longrightarrow> al \<in> set (h k) \<Longrightarrow> \<exists>d. Unmarshal js (Payload al) = Inr d"
  by (simp only: readable_def)

lemma ascending_last:
  "sorted_wrt (<) (map f xs) \<Longrightarrow> x \<in> set xs \<Longrightarrow> f x \<le> (f (last xs) :: int)"
  by (induction xs rule: rev_induct) (auto simp: sorted_wrt_append less_imp_le)

text \<open>A thinned history ends as before, and is still ascending.\<close>

lemma thin_history_last:
  assumes "sorted_wrt (<) (map fst h)" and "h \<noteq> []"
  shows "thin_history opts h \<noteq> []" and "last (thin_history opts h) = last h" and "hd (thin_history opts h) = hd h"
proof -
  have d: "distinct (map fst h)" using assms(1) by (simp add: strict_sorted_iff)
  have e: "fst (hd h) \<notin> set (versionsToDelete (map fst h) opts)" "fst (last h) \<notin> set (versionsToDelete (map fst h) opts)"
    using versionsToDelete_ends [OF d, of opts] assms(2) by (simp_all add: hd_map last_map)
  have split: "h = butlast h @ [last h]" using assms(2) by simp
  have "thin_history opts h = filter (\<lambda>(v, d). v \<notin> set (versionsToDelete (map fst h) opts)) (butlast h) @ [last h]"
    unfolding thin_history_def using e(2) filter_append [of _ "butlast h" "[last h]"] split
    by (auto split: prod.splits)
  then show "thin_history opts h \<noteq> []" "last (thin_history opts h) = last h" by auto
  show "hd (thin_history opts h) = hd h"
    using e(1) assms(2) by (cases h) (auto simp: thin_history_def split: prod.splits)
qed

lemma thin_history_sorted:
  "sorted_wrt (<) (map fst h) \<Longrightarrow> sorted_wrt (<) (map fst (thin_history opts h))"
  by (simp add: thin_history_def sorted_wrt_map sorted_wrt_filter)

lemma next_version_thin:
  "sorted_wrt (<) (map fst h) \<Longrightarrow> next_version (thin_history opts h) = next_version h"
  using thin_history_last [of h opts] by (cases "h = []") (auto simp: next_version_def thin_history_def)

lemma next_version_add:
  assumes "sorted_wrt (<) (map fst h)"
  shows "next_version (add_snapshot every opts d h) \<le> next_version h + 1"
proof -
  have "\<forall>x \<in> set h. fst x \<le> fst (last h)" using ascending_last [OF assms] by blast
  then have "sorted_wrt (<) (map fst (h @ [(next_version h, d)]))"
    using assms by (force simp: next_version_def sorted_wrt_append)
  note this [THEN next_version_thin, of opts]
  moreover have "next_version (h @ [(next_version h, d)]) = next_version h + 1" by (simp add: next_version_def)
  ultimately show ?thesis by (auto simp: add_snapshot_def Let_def)
qed

section \<open>The contract of a store\<close>

text \<open>
  \<open>ok\<close> are the states in which the store works, \<open>hist\<close> is the history of each model, \<open>stored\<close>
  what the store keeps of an entry, if it can hold it.
\<close>

locale audit_store =
  fixes st :: "'w store_ops"
    and ok :: "'w \<Rightarrow> bool"
    and hist :: "'w \<Rightarrow> string \<times> string \<Rightarrow> AuditLog list"
    and stored :: "AuditLog \<Rightarrow> AuditLog option"
  assumes hist_sorted: "ok w \<Longrightarrow> sorted_wrt (<) (map Version (hist w k))"
    and hist_version: "ok w \<Longrightarrow> al \<in> set (hist w k) \<Longrightarrow> 0 < Version al"
    and save_new: "ok w \<Longrightarrow> stored al = Some al' \<Longrightarrow> 0 < Version al \<Longrightarrow>
      (\<And>x. x \<in> set (hist w (model_of al)) \<Longrightarrow> Version x < Version al) \<Longrightarrow>
      \<exists>w' n. Save st al w = (None, w') \<and> ok w' \<and>
        hist w' = (hist w)(model_of al := hist w (model_of al) @ [al'\<lparr>ID := n\<rparr>])"
    and save_taken: "ok w \<Longrightarrow> stored al \<noteq> None \<Longrightarrow> x \<in> set (hist w (model_of al)) \<Longrightarrow> Version x = Version al \<Longrightarrow>
      \<exists>w' e. Save st al w = (Some e, w') \<and> err_is (Some e) ErrDBDuplicatedEntry \<and> ok w' \<and> hist w' = hist w"
    and last_entry: "ok w \<Longrightarrow> \<exists>w' r. LastByModelID st t i w = (r, w') \<and> ok w' \<and> hist w' = hist w \<and>
      (if hist w (t, i) = [] then \<exists>e. r = Inl e \<and> err_is (Some e) ErrNotFound else r = Inr (last (hist w (t, i))))"
    and history: "ok w \<Longrightarrow> \<exists>w'. HistoryByModelID st t i w = (Inr (hist w (t, i)), w') \<and> ok w' \<and> hist w' = hist w"
    and by_version: "ok w \<Longrightarrow> al \<in> set (hist w (t, i)) \<Longrightarrow>
      \<exists>w'. ModelByVersion st t i (Version al) w = (Inr al, w') \<and> ok w' \<and> hist w' = hist w"
    and versions: "ok w \<Longrightarrow> \<exists>w'. Versions st t i w = (Inr (map Version (hist w (t, i))), w') \<and> ok w' \<and> hist w' = hist w"
    and delete: "ok w \<Longrightarrow> \<exists>w' n. DeleteVersions st t i vs w = (Inr n, w') \<and> ok w' \<and>
      n = int (count_where (\<lambda>al. Version al \<in> set vs) (hist w (t, i))) \<and>
      hist w' = (hist w)((t, i) := filter (\<lambda>al. Version al \<notin> set vs) (hist w (t, i)))"
    and over_threshold: "ok w \<Longrightarrow> 0 \<le> limit \<Longrightarrow>
      \<exists>w' refs. OverThreshold st threshold limit w = (Inr refs, w') \<and> ok w' \<and> hist w' = hist w \<and>
        int (length refs) \<le> limit \<and>
        (\<forall>r \<in> set refs. threshold < int (length (hist w (ref_ModelType r, ref_ModelID r))))"

locale audit_core = audit_store +
  fixes c :: "'w core" and js :: "('n, 'v) json_lib" and top_version :: int and fits :: "string \<Rightarrow> bool"
  assumes core_store: "core_store c = st"
    and time_Now: "ok w \<Longrightarrow> ok (snd (time_Now c w)) \<and> hist (snd (time_Now c w)) = hist w"
    and stored_decodes: "ok w \<Longrightarrow> stored al = Some al' \<Longrightarrow>
      Version al' = Version al \<and> Unmarshal js (Payload al') = Unmarshal js (Payload al)"
    and stored_fits: "ok w \<Longrightarrow> 0 < Version al \<Longrightarrow> Version al \<le> top_version \<Longrightarrow> fits (Payload al) \<Longrightarrow> stored al \<noteq> None"
    and top_version: "top_version \<le> max_int64"
begin

lemma Compact_thins:
  assumes "ok w"
  shows "\<exists>w' n. Compact c t i opts w = (Inr n, w') \<and> ok w' \<and>
    hist w' = (hist w)((t, i) := filter (\<lambda>al. Version al \<notin> set (versionsToDelete (map Version (hist w (t, i))) opts)) (hist w (t, i)))"
proof -
  obtain w1 where w1: "Versions st t i w = (Inr (map Version (hist w (t, i))), w1)" "ok w1" "hist w1 = hist w"
    using versions [OF assms] by blast
  let ?del = "versionsToDelete (map Version (hist w (t, i))) opts"
  obtain w2 n where w2: "DeleteVersions st t i ?del w1 = (Inr n, w2)" "ok w2"
      "hist w2 = (hist w1)((t, i) := filter (\<lambda>al. Version al \<notin> set ?del) (hist w1 (t, i)))"
    using delete [OF w1(2)] by blast
  show ?thesis
  proof (cases "?del = []")
    case True
    then have "Compact c t i opts w = (Inr 0, w1)" by (simp add: Compact_def core_store w1(1))
    then show ?thesis using w1 True by auto
  next
    case False
    then have "Compact c t i opts w = (Inr n, w2)"
      using w2(1) by (simp add: Compact_def core_store w1(1) Let_def)
    then show ?thesis using w2 w1(3) by auto
  qed
qed

abbreviation (input) view :: "'w \<Rightarrow> 'n history" where
  "view w \<equiv> abstract_history js (hist w)"

lemma view_sorted: "ok w \<Longrightarrow> sorted_wrt (<) (map fst (view w k))"
  using hist_sorted by simp

lemma Compact_refines:
  assumes "ok w"
  shows "\<exists>w' n. Compact c t i opts w = (Inr n, w') \<and> ok w' \<and>
    view w' = (view w)((t, i) := thin_history opts (view w (t, i))) \<and> (readable js (hist w) \<longrightarrow> readable js (hist w'))"
proof -
  obtain w' n where w': "Compact c t i opts w = (Inr n, w')" "ok w'"
      "hist w' = (hist w)((t, i) := filter (\<lambda>al. Version al \<notin> set (versionsToDelete (map Version (hist w (t, i))) opts)) (hist w (t, i)))"
    using Compact_thins [OF assms] by blast
  have "view w' = (view w)((t, i) := thin_history opts (view w (t, i)))"
    by (rule ext) (simp add: abstract_history_def w'(3) thin_history_def filter_map comp_def)
  moreover have "readable js (hist w) \<longrightarrow> readable js (hist w')" by (auto simp: readable_def w'(3))
  ultimately show ?thesis using w' by blast
qed

lemma maybeAutoCompact_refines:
  fixes al :: AuditLog
  assumes "ok w"
  defines "k \<equiv> (ModelType al, ModelID al)"
  shows "ok (maybeAutoCompact c al w) \<and>
    view (maybeAutoCompact c al w) = (view w)(k :=
      (if autoCompactEvery c > 0 \<and> autoCompactEvery c dvd Version al
       then thin_history (autoCompactOpts c) (view w k) else view w k)) \<and>
    (readable js (hist w) \<longrightarrow> readable js (hist (maybeAutoCompact c al w)))"
proof -
  obtain w' n where "Compact c (ModelType al) (ModelID al) (autoCompactOpts c) w = (Inr n, w')" "ok w'"
      "view w' = (view w)(k := thin_history (autoCompactOpts c) (view w k))"
      "readable js (hist w) \<longrightarrow> readable js (hist w')"
    using Compact_refines [OF assms(1), of "ModelType al" "ModelID al"] unfolding k_def by blast
  then show ?thesis using assms(1) by (auto simp: maybeAutoCompact_def)
qed

lemma Create_unchanged:
  assumes "ok w" and "Marshal js (in_Payload inp) = Inr body" and "Unmarshal js body = Inr d"
    and "readable js (hist w)"
  defines "k \<equiv> (in_ModelType inp, in_ModelID inp)"
  assumes "hist w k \<noteq> []" and "snapshot js (Payload (last (hist w k))) = snapshot js body"
  shows "\<exists>w'. Create c js inp w = (Inr zero_AuditLog, w') \<and> ok w' \<and> hist w' = hist w"
proof -
  obtain w1 where w1: "LastByModelID st (in_ModelType inp) (in_ModelID inp) w = (Inr (last (hist w k)), w1)" "ok w1" "hist w1 = hist w"
    using last_entry [OF assms(1), of "in_ModelType inp" "in_ModelID inp"] assms(6) unfolding k_def by auto
  have "last (hist w k) \<in> set (hist w k)" using assms(6) by simp
  then have "0 < Version (last (hist w k))" and "\<exists>d. Unmarshal js (Payload (last (hist w k))) = Inr d"
    by (rule hist_version [OF assms(1)], rule readableD [OF assms(4)])
  then have "Version (last (hist w k)) \<noteq> 0" and "payloadsEqual js body (Payload (last (hist w k))) = Inr True"
    using payloadsEqual_snapshot [OF assms(3)] assms(7) by auto
  then have "Create c js inp w = (Inr zero_AuditLog, w1)"
    using w1(1) assms(2) by (simp add: Create_def create_loop.simps [of c js inp body "Suc 0"] QueryLastByModelID_def core_store)
  then show ?thesis using w1 by simp
qed

lemma Create_changed:
  assumes "ok w" and "Marshal js (in_Payload inp) = Inr body" and "Unmarshal js body = Inr d"
    and "readable js (hist w)" and "fits body"
  defines "k \<equiv> (in_ModelType inp, in_ModelID inp)"
  assumes "hist w k = [] \<or> snapshot js (Payload (last (hist w k))) \<noteq> snapshot js body"
    and "next_version (view w k) \<le> top_version"
  shows "\<exists>w' at_time al n. let entry = new_entry inp body (next_version (view w k)) at_time in
    Create c js inp w = (Inr entry, maybeAutoCompact c entry w') \<and> ok w' \<and>
    stored entry = Some al \<and> hist w' = (hist w)(k := hist w k @ [al\<lparr>ID := n\<rparr>])"
proof -
  let ?v = "next_version (view w k)" and ?t = "in_ModelType inp" and ?i = "in_ModelID inp"
  define lst where "lst = (if hist w k = [] then zero_AuditLog else last (hist w k))"
  obtain w1 r where w1: "LastByModelID st ?t ?i w = (r, w1)" "ok w1" "hist w1 = hist w"
      "if hist w k = [] then \<exists>e. r = Inl e \<and> err_is (Some e) ErrNotFound else r = Inr (last (hist w k))"
    using last_entry [OF assms(1), of ?t ?i] unfolding k_def by blast
  obtain at_time w2 where w2: "time_Now c w1 = (at_time, w2)" "ok w2" "hist w2 = hist w"
    using time_Now [OF w1(2)] w1(3) by (metis prod.collapse)
  have v: "0 < ?v" and lv: "Version lst + 1 = ?v"
    using hist_version [OF assms(1), of "last (hist w k)" k]
    by (auto simp: next_version_def lst_def zero_AuditLog_def abstract_history_last)
  have wr: "wrap64 (Version lst + 1) = ?v" unfolding lv using v assms(8) top_version by (intro wrap64_id) (simp add: in_int64_def)
  let ?entry = "new_entry inp body ?v at_time"
  have mo: "model_of ?entry = k" by (simp add: model_of_def new_entry_def k_def)
  obtain al where al: "stored ?entry = Some al"
    using stored_fits [OF w2(2), of ?entry] v assms(5,8) by (auto simp: new_entry_def)
  have "Version x < Version ?entry" if "x \<in> set (hist w2 (model_of ?entry))" for x
  proof -
    have "x \<in> set (hist w k)" using that by (simp add: w2(3) mo)
    then have "hist w k \<noteq> []" and "Version x \<le> Version (last (hist w k))"
      using ascending_last [OF hist_sorted [OF assms(1)]] by auto
    then show ?thesis using lv by (simp add: new_entry_def lst_def)
  qed
  then obtain w3 n where w3: "Save st ?entry w2 = (None, w3)" "ok w3" "hist w3 = (hist w)(k := hist w k @ [al\<lparr>ID := n\<rparr>])"
    using save_new [OF w2(2) al] v w2(3) mo by (auto simp: new_entry_def)
  have eq: "(if Version lst \<noteq> 0 then payloadsEqual js body (Payload lst) else Inr False) = Inr False"
  proof (cases "hist w k = []")
    case False
    then have "last (hist w k) \<in> set (hist w k)" by simp
    then obtain d' where "Unmarshal js (Payload (last (hist w k))) = Inr d'" using readableD [OF assms(4)] by blast
    then have "payloadsEqual js body (Payload lst) = Inr False"
      using payloadsEqual_snapshot [OF assms(3)] assms(7) False by (auto simp: lst_def)
    then show ?thesis by simp
  qed (simp add: lst_def zero_AuditLog_def)
  have q: "\<exists>r'. QueryLastByModelID c ?t ?i w = (r', w1) \<and>
      (case r' of Inr al \<Rightarrow> Inr al | Inl e \<Rightarrow> if err_is (Some e) ErrNotFound then Inr zero_AuditLog else Inl e) = Inr lst"
    using w1(1,4) by (auto simp: QueryLastByModelID_def core_store lst_def split: if_splits)
  then have "Create c js inp w = (Inr ?entry, maybeAutoCompact c ?entry w3)"
    using assms(2) eq w2(1) w3(1) wr
    by (auto simp: Create_def create_loop.simps [of c js inp body "Suc 0"] core_store Let_def)
  then show ?thesis using al w3 unfolding Let_def by blast
qed

lemma Create_refines:
  assumes "ok w" and "encodable js (Op_Create inp)" and "readable js (hist w)"
    and "fits (payload_text js (in_Payload inp))"
  defines "k \<equiv> (in_ModelType inp, in_ModelID inp)"
  assumes "next_version (view w k) \<le> top_version"
  shows "\<exists>r w'. Create c js inp w = (Inr r, w') \<and> ok w' \<and> readable js (hist w') \<and>
    view w' = abstract_op (autoCompactEvery c) (autoCompactOpts c) js (Op_Create inp) (view w)"
proof -
  obtain body d where body: "Marshal js (in_Payload inp) = Inr body" "Unmarshal js body = Inr d"
    using assms(2) by auto
  have pt: "payload_text js (in_Payload inp) = body" by (simp add: payload_text_def body)
  show ?thesis
  proof (cases "hist w k \<noteq> [] \<and> snapshot js (Payload (last (hist w k))) = snapshot js body")
    case True
    then have "add_snapshot (autoCompactEvery c) (autoCompactOpts c) (snapshot js body) (view w k) = view w k"
      by (simp add: add_snapshot_def abstract_history_last)
    then show ?thesis
      using Create_unchanged [OF assms(1) body assms(3)] True assms(3) by (auto simp: k_def pt Let_def)
  next
    case False
    let ?v = "next_version (view w k)"
    obtain w1 at_time al n where w1: "Create c js inp w = (Inr (new_entry inp body ?v at_time), maybeAutoCompact c (new_entry inp body ?v at_time) w1)"
        "ok w1" "stored (new_entry inp body ?v at_time) = Some al" "hist w1 = (hist w)(k := hist w k @ [al\<lparr>ID := n\<rparr>])"
      using Create_changed [OF assms(1) body assms(3)] False assms(4,6) unfolding pt k_def Let_def by blast
    let ?entry = "new_entry inp body ?v at_time"
    have al: "Version al = ?v" "Unmarshal js (Payload al) = Inr d"
      using stored_decodes [OF assms(1) w1(3)] body by (simp_all add: new_entry_def)
    have "snapshot js (Payload al) = snapshot js body" using al(2) body(2) by (intro snapshot_cong) simp
    then have v1: "view w1 = (view w)(k := view w k @ [(?v, snapshot js body)])"
      by (intro ext) (simp add: abstract_history_def w1(4) al(1))
    have r1: "readable js (hist w1)" using assms(3) al(2) by (auto simp: readable_def w1(4))
    have "(ModelType ?entry, ModelID ?entry) = k" "Version ?entry = ?v" by (simp_all add: new_entry_def k_def)
    then have "view (maybeAutoCompact c ?entry w1) = (view w)(k := add_snapshot (autoCompactEvery c) (autoCompactOpts c) (snapshot js body) (view w k))"
      using maybeAutoCompact_refines [OF w1(2), of ?entry] False
      by (auto simp: v1 add_snapshot_def Let_def abstract_history_last fun_upd_def fun_eq_iff)
    then show ?thesis
      using maybeAutoCompact_refines [OF w1(2), of ?entry] w1(1) r1 by (simp add: pt k_def Let_def)
  qed
qed

text \<open>Every operation a caller runs succeeds, and does to the history what it should.\<close>

lemma run_op_refines:
  assumes "ok w" and "encodable js op" and "readable js (hist w)"
    and "\<And>inp. op = Op_Create inp \<Longrightarrow> fits (payload_text js (in_Payload inp))"
    and "\<And>k. next_version (view w k) \<le> top_version"
  shows "\<exists>w'. run_op c js op w = (None, w') \<and> ok w' \<and> readable js (hist w') \<and>
    view w' = abstract_op (autoCompactEvery c) (autoCompactOpts c) js op (view w)"
proof (cases op)
  case (Op_Create inp)
  then obtain r w' where "Create c js inp w = (Inr r, w')" "ok w'" "readable js (hist w')"
      "view w' = abstract_op (autoCompactEvery c) (autoCompactOpts c) js (Op_Create inp) (view w)"
    using Create_refines [OF assms(1) _ assms(3), of inp] assms(2,4,5) by blast
  then show ?thesis unfolding Op_Create by simp
next
  case (Op_Compact t i opts)
  obtain n w' where "Compact c t i opts w = (Inr n, w')" "ok w'" "readable js (hist w')"
      "view w' = (view w)((t, i) := thin_history opts (view w (t, i)))"
    using Compact_refines [OF assms(1), of t i opts] assms(3) by blast
  then show ?thesis unfolding Op_Compact by simp
qed

lemma abstract_op_next:
  assumes "ok w"
  shows "next_version (abstract_op every opts js op (view w) k) \<le> next_version (view w k) + 1"
  using next_version_add [OF view_sorted [OF assms]] next_version_thin [OF view_sorted [OF assms]]
  by (cases op) (auto simp: Let_def)

lemma run_ops_refine:
  assumes "ok w" and "readable js (hist w)"
    and "\<forall>op \<in> set ops. encodable js op"
    and "\<forall>inp. Op_Create inp \<in> set ops \<longrightarrow> fits (payload_text js (in_Payload inp))"
    and "\<forall>k. next_version (view w k) + int (length ops) \<le> top_version + 1"
  shows "\<exists>w'. run_ops c js ops w = (replicate (length ops) None, w') \<and> ok w' \<and> readable js (hist w') \<and>
    view w' = fold (abstract_op (autoCompactEvery c) (autoCompactOpts c) js) ops (view w)"
  using assms
proof (induction ops arbitrary: w)
  case (Cons op ops)
  have "next_version (view w k) \<le> top_version" for k
    using spec [OF Cons.prems(5), of k] by simp
  then obtain w1 where w1: "run_op c js op w = (None, w1)" "ok w1" "readable js (hist w1)"
      "view w1 = abstract_op (autoCompactEvery c) (autoCompactOpts c) js op (view w)"
    using run_op_refines [OF Cons.prems(1) _ Cons.prems(2), of op] Cons.prems(3,4) by force
  have "\<forall>k. next_version (view w1 k) + int (length ops) \<le> top_version + 1"
  proof
    fix k
    show "next_version (view w1 k) + int (length ops) \<le> top_version + 1"
      using abstract_op_next [OF Cons.prems(1), of "autoCompactEvery c" "autoCompactOpts c" op k]
        spec [OF Cons.prems(5), of k] unfolding w1(4) by simp
  qed
  then obtain w2 where "run_ops c js ops w1 = (replicate (length ops) None, w2)" "ok w2" "readable js (hist w2)"
      "view w2 = fold (abstract_op (autoCompactEvery c) (autoCompactOpts c) js) ops (view w1)"
    using Cons.IH [OF w1(2,3)] Cons.prems(3,4) by auto
  then show ?case using w1 by simp
qed simp

text \<open>A batch leaves the first and the last version of every model.\<close>

definition thinned :: "'w \<Rightarrow> 'w \<Rightarrow> bool" where
  "thinned w w' = (\<forall>k. set (hist w' k) \<subseteq> set (hist w k) \<and>
     (hist w k \<noteq> [] \<longrightarrow> hist w' k \<noteq> [] \<and> hd (hist w' k) = hd (hist w k) \<and> last (hist w' k) = last (hist w k)))"

lemma batch_loop_thins:
  assumes "ok w"
  shows "\<exists>w' res'. batch_loop c opts refs res w = ((res', None), w') \<and> ok w' \<and> thinned w w'"
  using assms
proof (induction refs arbitrary: w res)
  case (Cons ref refs)
  let ?k = "(ref_ModelType ref, ref_ModelID ref)"
  let ?del = "versionsToDelete (map Version (hist w ?k)) opts"
  obtain w1 n where w1: "Compact c (ref_ModelType ref) (ref_ModelID ref) opts w = (Inr n, w1)" "ok w1"
      "hist w1 = (hist w)(?k := filter (\<lambda>al. Version al \<notin> set ?del) (hist w ?k))"
    using Compact_thins [OF Cons.prems] by blast
  obtain w2 res' where w2: "batch_loop c opts refs (if n > 0 then \<lparr>Models = Models res + 1, Deleted = Deleted res + n\<rparr> else res) w1 = ((res', None), w2)"
      "ok w2" "thinned w1 w2"
    using Cons.IH [OF w1(2)] by blast
  have "thinned w w1"
  proof -
    have "filter (\<lambda>al. Version al \<notin> set ?del) h \<noteq> [] \<and> hd (filter (\<lambda>al. Version al \<notin> set ?del) h) = hd h \<and>
        last (filter (\<lambda>al. Version al \<notin> set ?del) h) = last h" if "h = hist w ?k" "h \<noteq> []" for h
    proof -
      let ?f = "\<lambda>al. (Version al, al)"
      have s: "sorted_wrt (<) (map fst (map ?f h))" using hist_sorted [OF Cons.prems, of ?k] that(1) by (simp add: comp_def)
      have e: "thin_history opts (map ?f h) = map ?f (filter (\<lambda>al. Version al \<notin> set ?del) h)"
        by (simp add: thin_history_def filter_map comp_def that(1))
      show ?thesis
        using thin_history_last [OF s, of opts] that(2) unfolding e by (auto simp: hd_map last_map)
    qed
    then show ?thesis by (auto simp: thinned_def w1(3))
  qed
  then have "thinned w w2" using w2(3) unfolding thinned_def by (metis subset_trans)
  then show ?case using w1(1) w2(1,2) by auto
qed (auto simp: thinned_def)

lemma CompactBatch_thins:
  assumes "ok w"
  shows "\<exists>w' res. CompactBatch c opts w = ((res, None), w') \<and> ok w' \<and> thinned w w'"
proof -
  have "0 \<le> (if Limit opts \<le> 0 then 100 else Limit opts)" by simp
  then obtain w1 refs where w1: "OverThreshold st (Threshold opts) (if Limit opts \<le> 0 then 100 else Limit opts) w = (Inr refs, w1)"
      "ok w1" "hist w1 = hist w"
    using over_threshold [OF assms] by blast
  obtain w2 res where "batch_loop c (batch_Compact opts) refs \<lparr>Models = 0, Deleted = 0\<rparr> w1 = ((res, None), w2)" "ok w2" "thinned w1 w2"
    using batch_loop_thins [OF w1(2)] by blast
  then show ?thesis using w1 by (auto simp: CompactBatch_def core_store thinned_def)
qed

text \<open>The versions a caller asks to compare are found.\<close>

lemma QueryDiff_found:
  assumes "ok w" and "a \<in> set (hist w (t, i))" and "b \<in> set (hist w (t, i))"
  shows "\<exists>w'. QueryDiffByModelID c js t i \<lparr>CurrentVersion = Some (Version a), TargetVersion = Some (Version b)\<rparr> w =
      ((case diff js (Payload a) (Payload b) of
          Inl e \<Rightarrow> Inl (wrap_err (about_model ''auditlog: diff'' t i) e) | Inr d \<Rightarrow> Inr d), w') \<and> ok w' \<and> hist w' = hist w"
proof -
  obtain w1 where w1: "ModelByVersion st t i (Version a) w = (Inr a, w1)" "ok w1" "hist w1 = hist w"
    using by_version [OF assms(1,2)] by blast
  obtain w2 where "ModelByVersion st t i (Version b) w1 = (Inr b, w2)" "ok w2" "hist w2 = hist w1"
    using by_version [OF w1(2)] assms(3) w1(3) by metis
  then show ?thesis using w1 by (auto simp: QueryDiffByModelID_def core_store Let_def split: sum.splits)
qed

end

end
