(* ===== verification/Auditlog_Mem.thy ===== *)
theory Auditlog_Mem
  imports Auditlog "HOL-Library.AList"
begin

text \<open>The store of \<open>auditlog/audittest/store.go\<close>, and that it keeps the contract of a store.\<close>

section \<open>The store in memory\<close>

text \<open>
  \<open>audittest.Store\<close>: the last identifier, and the versions of each model in ascending order, as
  an association list in which a key occurs once. On such a list a binary search finds the
  first place whose version is not smaller. The state of the program beside the store is \<open>'e\<close>.
\<close>

record mem_store =
  lastID :: int
  models :: "((string \<times> string) \<times> AuditLog list) list"

definition mem_NewStore :: mem_store where
  "mem_NewStore = \<lparr>lastID = 0, models = []\<rparr>"

definition versions_of :: "mem_store \<Rightarrow> string \<times> string \<Rightarrow> AuditLog list" where
  "versions_of s k = (case map_of (models s) k of Some als \<Rightarrow> als | None \<Rightarrow> [])"

definition set_versions :: "string \<times> string \<Rightarrow> AuditLog list \<Rightarrow> mem_store \<Rightarrow> mem_store" where
  "set_versions k als s = s\<lparr>models := AList.update k als (models s)\<rparr>"

definition binary_search :: "AuditLog list \<Rightarrow> int \<Rightarrow> nat \<times> bool" where
  "binary_search als ver =
     (let n = length (takeWhile (\<lambda>al. Version al < ver) als)
      in (n, n < length als \<and> Version (als ! n) = ver))"

definition mem_Save :: "AuditLog \<Rightarrow> mem_store \<times> 'e \<Rightarrow> err \<times> mem_store \<times> 'e" where
  "mem_Save al = (\<lambda>(s, e).
     let k = model_of al
     in case binary_search (versions_of s k) (Version al) of
          (n, True) \<Rightarrow>
            (Some (wrap_err (about_model ''save'' (ModelType al) (ModelID al) @ '' v'' @ show_int (Version al))
               (Sentinel ErrDBDuplicatedEntry)), s, e)
        | (n, False) \<Rightarrow>
            let s = s\<lparr>lastID := lastID s + 1\<rparr>; al = al\<lparr>ID := lastID s\<rparr>
            in (None, set_versions k (take n (versions_of s k) @ al # drop n (versions_of s k)) s, e))"

definition mem_Last :: "string \<Rightarrow> string \<Rightarrow> mem_store \<times> 'e \<Rightarrow> (go_error + AuditLog) \<times> mem_store \<times> 'e" where
  "mem_Last t i = (\<lambda>(s, e).
     let vers = versions_of s (t, i)
     in (if vers = [] then Inl (Sentinel ErrNotFound) else Inr (vers ! (length vers - 1)), s, e))"

definition mem_History :: "string \<Rightarrow> string \<Rightarrow> mem_store \<times> 'e \<Rightarrow> (go_error + AuditLog list) \<times> mem_store \<times> 'e" where
  "mem_History t i = (\<lambda>(s, e). (Inr (versions_of s (t, i)), s, e))"

definition mem_ByVersion ::
    "string \<Rightarrow> string \<Rightarrow> int \<Rightarrow> mem_store \<times> 'e \<Rightarrow> (go_error + AuditLog) \<times> mem_store \<times> 'e" where
  "mem_ByVersion t i ver = (\<lambda>(s, e).
     case binary_search (versions_of s (t, i)) ver of
       (n, found) \<Rightarrow> (if \<not> found then Inl (Sentinel ErrNotFound) else Inr (versions_of s (t, i) ! n), s, e))"

definition mem_Versions :: "string \<Rightarrow> string \<Rightarrow> mem_store \<times> 'e \<Rightarrow> (go_error + int list) \<times> mem_store \<times> 'e" where
  "mem_Versions t i = (\<lambda>(s, e). (Inr (map Version (versions_of s (t, i))), s, e))"

definition mem_DeleteVersions ::
    "string \<Rightarrow> string \<Rightarrow> int list \<Rightarrow> mem_store \<times> 'e \<Rightarrow> (go_error + int) \<times> mem_store \<times> 'e" where
  "mem_DeleteVersions t i vs = (\<lambda>(s, e).
     let old = versions_of s (t, i);
         s = set_versions (t, i) (filter (\<lambda>al. Version al \<notin> set vs) old) s
     in (Inr (int (length old) - int (length (versions_of s (t, i)))), s, e))"

text \<open>The order of \<open>OverThreshold\<close>: most versions first, then by type and identifier.\<close>

definition string_less :: "string \<Rightarrow> string \<Rightarrow> bool" where
  "string_less a b = ord.lexordp (\<lambda>c d. (of_char c :: nat) < of_char d) a b"

definition ref_before :: "ModelRef \<Rightarrow> ModelRef \<Rightarrow> bool" where
  "ref_before a b =
     (ref_Versions b < ref_Versions a \<or>
      ref_Versions a = ref_Versions b \<and>
        (string_less (ref_ModelType a) (ref_ModelType b) \<or>
         ref_ModelType a = ref_ModelType b \<and> string_less (ref_ModelID a) (ref_ModelID b)))"

fun insert_ref :: "ModelRef \<Rightarrow> ModelRef list \<Rightarrow> ModelRef list" where
  "insert_ref r [] = [r]"
| "insert_ref r (x # xs) = (if ref_before x r then x # insert_ref r xs else r # x # xs)"

definition mem_OverThreshold :: "int \<Rightarrow> int \<Rightarrow> mem_store \<times> 'e \<Rightarrow> (go_error + ModelRef list) \<times> mem_store \<times> 'e" where
  "mem_OverThreshold threshold limit = (\<lambda>(s, e).
     let refs = map (\<lambda>((t, i), vers). \<lparr>ref_ModelType = t, ref_ModelID = i, ref_Versions = int (length vers)\<rparr>)
                  (filter (\<lambda>(k, vers). int (length vers) > threshold) (models s));
         refs = fold insert_ref refs []
     in (Inr (if limit \<ge> 0 \<and> limit < int (length refs) then take (nat limit) refs else refs), s, e))"

definition mem_ops :: "(mem_store \<times> 'e) store_ops" where
  "mem_ops = \<lparr>Save = mem_Save, LastByModelID = mem_Last, HistoryByModelID = mem_History,
     ModelByVersion = mem_ByVersion, Versions = mem_Versions, DeleteVersions = mem_DeleteVersions,
     OverThreshold = mem_OverThreshold\<rparr>"

definition mem_core :: "('e \<Rightarrow> instant \<times> 'e) \<Rightarrow> int \<Rightarrow> compactOptions \<Rightarrow> (mem_store \<times> 'e) core" where
  "mem_core clock every opts = \<lparr>core_store = mem_ops, autoCompactEvery = every, autoCompactOpts = opts,
     time_Now = (\<lambda>(s, e). case clock e of (t, e) \<Rightarrow> (t, s, e))\<rparr>"

section \<open>The contract\<close>

definition mem_ok :: "mem_store \<times> 'e \<Rightarrow> bool" where
  "mem_ok w = (distinct (map fst (models (fst w))) \<and>
     (\<forall>k. sorted_wrt (<) (map Version (versions_of (fst w) k)) \<and> (\<forall>al \<in> set (versions_of (fst w) k). 0 < Version al)))"

abbreviation (input) mem_hist :: "mem_store \<times> 'e \<Rightarrow> string \<times> string \<Rightarrow> AuditLog list" where
  "mem_hist w \<equiv> versions_of (fst w)"

lemma mem_okD:
  assumes "mem_ok w"
  shows "distinct (map fst (models (fst w)))"
    and "sorted_wrt (<) (map Version (mem_hist w k))"
    and "al \<in> set (mem_hist w k) \<Longrightarrow> 0 < Version al"
  using assms unfolding mem_ok_def by blast+

lemma versions_of_set [simp]: "versions_of (set_versions k als s) = (versions_of s)(k := als)"
  by (auto simp: versions_of_def set_versions_def update_conv' fun_eq_iff)

lemma versions_of_lastID [simp]: "versions_of (s\<lparr>lastID := n\<rparr>) = versions_of s"
  by (simp add: versions_of_def fun_eq_iff)

lemma mem_ok_set:
  assumes "mem_ok (s, e)" and "sorted_wrt (<) (map Version als)" and "\<forall>al \<in> set als. 0 < Version al"
  shows "mem_ok (set_versions k als (s\<lparr>lastID := n\<rparr>), e)"
  using assms by (simp add: mem_ok_def) (simp add: set_versions_def distinct_update)

lemma mem_ok_set':
  assumes "mem_ok (s, e)" and "sorted_wrt (<) (map Version als)" and "\<forall>al \<in> set als. 0 < Version al"
  shows "mem_ok (set_versions k als s, e)"
  using mem_ok_set [OF assms, of k "lastID s"] by simp

lemma binary_search_found:
  assumes "sorted_wrt (<) (map Version als)" and "x \<in> set als"
  shows "\<exists>n. binary_search als (Version x) = (n, True) \<and> als ! n = x"
  using assms
proof (induction als)
  case (Cons a als)
  show ?case
  proof (cases "a = x")
    case False
    then have x: "x \<in> set als" "Version a < Version x" using Cons.prems by auto
    then obtain n where "binary_search als (Version x) = (n, True)" "als ! n = x"
      using Cons.IH Cons.prems(1) by auto
    then show ?thesis using x(2) by (auto simp: binary_search_def Let_def)
  qed (simp add: binary_search_def)
qed simp

lemma binary_search_new:
  "\<forall>x \<in> set als. Version x < ver \<Longrightarrow> binary_search als ver = (length als, False)"
  by (simp add: binary_search_def takeWhile_eq_all_conv [THEN iffD2])

lemma mem_Save_new:
  assumes "mem_ok w" and "Some al = Some al'" and "0 < Version al"
    and "\<And>x. x \<in> set (mem_hist w (model_of al)) \<Longrightarrow> Version x < Version al"
  shows "\<exists>w' n. mem_Save al w = (None, w') \<and> mem_ok w' \<and>
    mem_hist w' = (mem_hist w)(model_of al := mem_hist w (model_of al) @ [al'\<lparr>ID := n\<rparr>])"
proof -
  obtain s e where w: "w = (s, e)" by force
  let ?h = "versions_of s (model_of al)" and ?n = "lastID s + 1"
  let ?s = "set_versions (model_of al) (?h @ [al\<lparr>ID := ?n\<rparr>]) (s\<lparr>lastID := ?n\<rparr>)"
  have "mem_Save al w = (None, ?s, e)"
    using binary_search_new [of ?h "Version al"] assms(4) by (simp add: mem_Save_def w Let_def)
  moreover have "mem_ok (?s, e)"
    using assms mem_okD [OF assms(1)] unfolding w by (intro mem_ok_set) (auto simp: sorted_wrt_append)
  ultimately show ?thesis using assms(2) by (force simp: w)
qed

lemma mem_Save_taken:
  assumes "mem_ok w" and "Some al \<noteq> None" and "x \<in> set (mem_hist w (model_of al))" and "Version x = Version al"
  shows "\<exists>w' e. mem_Save al w = (Some e, w') \<and> err_is (Some e) ErrDBDuplicatedEntry \<and> mem_ok w' \<and> mem_hist w' = mem_hist w"
proof -
  obtain n where "binary_search (mem_hist w (model_of al)) (Version al) = (n, True)"
    using binary_search_found [OF mem_okD(2) [OF assms(1)] assms(3)] assms(4) by auto
  then show ?thesis using assms(1) by (cases w) (auto simp: mem_Save_def Let_def)
qed

lemma mem_Last_law:
  "mem_ok w \<Longrightarrow> \<exists>w' r. mem_Last t i w = (r, w') \<and> mem_ok w' \<and> mem_hist w' = mem_hist w \<and>
    (if mem_hist w (t, i) = [] then \<exists>e. r = Inl e \<and> err_is (Some e) ErrNotFound else r = Inr (last (mem_hist w (t, i))))"
  by (cases w) (auto simp: mem_Last_def Let_def last_conv_nth)

lemma mem_ByVersion_law:
  assumes "mem_ok w" and "al \<in> set (mem_hist w (t, i))"
  shows "\<exists>w'. mem_ByVersion t i (Version al) w = (Inr al, w') \<and> mem_ok w' \<and> mem_hist w' = mem_hist w"
  using binary_search_found [OF mem_okD(2) [OF assms(1)] assms(2)] assms(1)
  by (cases w) (auto simp: mem_ByVersion_def)

lemma mem_time_Now:
  "mem_ok w \<Longrightarrow> mem_ok (snd (time_Now (mem_core clock every opts) w)) \<and>
    mem_hist (snd (time_Now (mem_core clock every opts) w)) = mem_hist w"
  by (cases w) (auto simp: mem_core_def mem_ok_def split: prod.splits)

lemma mem_DeleteVersions_law:
  assumes "mem_ok w"
  shows "\<exists>w' n. mem_DeleteVersions t i vs w = (Inr n, w') \<and> mem_ok w' \<and>
    n = int (count_where (\<lambda>al. Version al \<in> set vs) (mem_hist w (t, i))) \<and>
    mem_hist w' = (mem_hist w)((t, i) := filter (\<lambda>al. Version al \<notin> set vs) (mem_hist w (t, i)))"
proof -
  obtain s e where w: "w = (s, e)" by force
  let ?h = "versions_of s (t, i)"
  have "sorted_wrt (<) (map Version (filter (\<lambda>al. Version al \<notin> set vs) ?h))"
    using mem_okD(2) [OF assms] by (simp add: w sorted_wrt_map sorted_wrt_filter)
  then have "mem_ok (set_versions (t, i) (filter (\<lambda>al. Version al \<notin> set vs) ?h) s, e)"
    using assms mem_okD(3) [OF assms] unfolding w by (intro mem_ok_set') auto
  moreover have "int (length ?h) - int (length (filter (\<lambda>al. Version al \<notin> set vs) ?h)) = int (count_where (\<lambda>al. Version al \<in> set vs) ?h)"
    using sum_length_filter_compl [of "\<lambda>al. Version al \<in> set vs" ?h] by (simp add: count_where_def)
  ultimately show ?thesis by (simp add: mem_DeleteVersions_def w Let_def)
qed

lemma set_insert_refs: "set (fold insert_ref refs acc) = set refs \<union> set acc"
proof -
  have "set (insert_ref r xs) = insert r (set xs)" for r xs by (induction xs) auto
  then show ?thesis by (induction refs arbitrary: acc) auto
qed

lemma mem_OverThreshold_law:
  assumes "mem_ok w" and "0 \<le> limit"
  shows "\<exists>w' refs. mem_OverThreshold threshold limit w = (Inr refs, w') \<and> mem_ok w' \<and> mem_hist w' = mem_hist w \<and>
    int (length refs) \<le> limit \<and>
    (\<forall>r \<in> set refs. threshold < int (length (mem_hist w (ref_ModelType r, ref_ModelID r))))"
proof -
  obtain s e where w: "w = (s, e)" by force
  define refs where "refs = fold insert_ref (map (\<lambda>((t, i), vers). \<lparr>ref_ModelType = t, ref_ModelID = i, ref_Versions = int (length vers)\<rparr>)
                  (filter (\<lambda>(k, vers). int (length vers) > threshold) (models s))) []"
  have "threshold < int (length (versions_of s (ref_ModelType r, ref_ModelID r)))" if r: "r \<in> set refs" for r
  proof -
    obtain vers where "((ref_ModelType r, ref_ModelID r), vers) \<in> set (models s)" "int (length vers) > threshold"
      using r by (auto simp: refs_def set_insert_refs)
    then show ?thesis using mem_okD(1) [OF assms(1)] map_of_is_SomeI [of "models s" _ vers] by (simp add: w versions_of_def)
  qed
  moreover have "mem_OverThreshold threshold limit w = (Inr (if limit < int (length refs) then take (nat limit) refs else refs), w)"
    using assms(2) by (simp add: mem_OverThreshold_def w refs_def Let_def)
  ultimately show ?thesis using assms by (auto simp: w dest: in_set_takeD)
qed

lemma mem_ops_simps [simp]:
  "Save mem_ops = mem_Save" "LastByModelID mem_ops = mem_Last" "HistoryByModelID mem_ops = mem_History"
  "ModelByVersion mem_ops = mem_ByVersion" "Versions mem_ops = mem_Versions"
  "DeleteVersions mem_ops = mem_DeleteVersions" "OverThreshold mem_ops = mem_OverThreshold"
  by (simp_all add: mem_ops_def)

interpretation mem: audit_core mem_ops mem_ok mem_hist Some "mem_core clock every opts" js max_int64 "\<lambda>_. True"
  for clock every opts js
  by (unfold_locales; (unfold mem_ops_simps)?;
      (fact mem_okD | fact mem_Save_new | fact mem_Save_taken | fact mem_Last_law | fact mem_ByVersion_law
       | fact mem_DeleteVersions_law | fact mem_OverThreshold_law | fact mem_time_Now)?)
    (auto simp: mem_History_def mem_Versions_def mem_core_def intro: mem_Save_new mem_Save_taken)

end
