(* ===== verification/Auditlog_PG.thy ===== *)
theory Auditlog_PG
  imports Auditlog_Mem "HOL-Library.Multiset"
begin

text \<open>The store of \<open>auditlog/auditpg\<close>, and that it keeps the contract of a store.\<close>

section \<open>The store in PostgreSQL\<close>

text \<open>
  The table \<open>audit_log\<close>: the identifiers the sequence has given and the rows. The server is an
  argument: \<open>jsonb\<close> is the text of a payload as the column returns it, \<open>timestamptz\<close> the instant
  it returns, \<open>dup\<close> the error of a unique violation, \<open>plan\<close> the order among models with as many
  versions; the texts are ones that a text column can hold. The limit of PostgreSQL on the number of
  parameters of a statement, which a thinning of more than 65533 versions at once would exceed, is
  not modelled.
\<close>

record pg_server =
  jsonb :: "string \<Rightarrow> go_error + string"
  timestamptz :: "instant \<Rightarrow> instant"
  dup :: go_error
  plan :: "ModelRef list \<Rightarrow> ModelRef list"

type_synonym auditLogDB = AuditLog

record audit_table =
  seq :: int
  rows :: "auditLogDB list"

definition toDBAuditLog :: "AuditLog \<Rightarrow> auditLogDB" where
  "toDBAuditLog al = \<lparr>ID = 0, Version = Version al, ModelType = ModelType al, ModelID = ModelID al,
     Method = Method al, Path = Path al, Payload = Payload al, CreatedAt = CreatedAt al,
     CreatedBy = CreatedBy al\<rparr>"

definition toCoreAuditLog :: "auditLogDB \<Rightarrow> AuditLog" where
  "toCoreAuditLog r = \<lparr>ID = ID r, Version = Version r, ModelType = ModelType r, ModelID = ModelID r,
     Method = Method r, Path = Path r, Payload = Payload r, CreatedAt = CreatedAt r,
     CreatedBy = CreatedBy r\<rparr>"

definition toCoreAuditLogSlice :: "auditLogDB list \<Rightarrow> AuditLog list" where
  "toCoreAuditLogSlice rs = map toCoreAuditLog rs"

text \<open>The value a row keeps of an entry, where the columns can hold it: \<open>version\<close> is an \<open>INT\<close>.\<close>

definition stored_row :: "pg_server \<Rightarrow> auditLogDB \<Rightarrow> go_error + auditLogDB" where
  "stored_row sv r =
     (if Version r < - (2 ^ 31) \<or> 2 ^ 31 - 1 < Version r then Inl (Plain ''integer out of range'')
      else case jsonb sv (Payload r) of
        Inl e \<Rightarrow> Inl e
      | Inr p \<Rightarrow> Inr (r\<lparr>Payload := p, CreatedAt := timestamptz sv (CreatedAt r)\<rparr>))"

definition sql_save :: "pg_server \<Rightarrow> auditLogDB \<Rightarrow> (audit_table, unit) stmt" where
  "sql_save sv r tb =
     (case stored_row sv r of
        Inl e \<Rightarrow> (Inl e, tb)
      | Inr r \<Rightarrow>
          let tb = tb\<lparr>seq := seq tb + 1\<rparr>
          in if \<exists>x \<in> set (rows tb). model_of x = model_of r \<and> Version x = Version r then (Inl (dup sv), tb)
             else (Inr (), tb\<lparr>rows := rows tb @ [r\<lparr>ID := seq tb\<rparr>]\<rparr>))"

definition of_model :: "string \<Rightarrow> string \<Rightarrow> auditLogDB list \<Rightarrow> auditLogDB list" where
  "of_model t i rs = filter (\<lambda>r. model_of r = (t, i)) rs"

definition pg_Save :: "'e db_env \<Rightarrow> classifier option \<Rightarrow> pg_server \<Rightarrow> AuditLog \<Rightarrow> audit_table \<times> 'e \<Rightarrow> err \<times> audit_table \<times> 'e" where
  "pg_Save env cls sv al w =
     (case Exec env cls (sql_save sv (toDBAuditLog al)) w of
        (Some e, w) \<Rightarrow> (Some (wrap_err ''save'' e), w)
      | (None, w) \<Rightarrow> (None, w))"

definition query_one_err :: "string \<Rightarrow> go_error \<Rightarrow> go_error" where
  "query_one_err what e =
     (if err_is (Some e) ErrDBNotFound then wrap_err what (Sentinel ErrNotFound) else wrap_err what e)"

definition pg_Last ::
    "'e db_env \<Rightarrow> classifier option \<Rightarrow> string \<Rightarrow> string \<Rightarrow> audit_table \<times> 'e \<Rightarrow> (go_error + AuditLog) \<times> audit_table \<times> 'e" where
  "pg_Last env cls t i w =
     (case QueryOne env cls (\<lambda>tb. (Inr (take 1 (rev (sort_key Version (of_model t i (rows tb))))), tb)) w of
        (Inl e, w) \<Rightarrow> (Inl (query_one_err ''querylastbymodelid'' e), w)
      | (Inr r, w) \<Rightarrow> (Inr (toCoreAuditLog r), w))"

definition pg_History ::
    "'e db_env \<Rightarrow> classifier option \<Rightarrow> string \<Rightarrow> string \<Rightarrow> audit_table \<times> 'e \<Rightarrow> (go_error + AuditLog list) \<times> audit_table \<times> 'e" where
  "pg_History env cls t i w =
     (case QueryList env cls (\<lambda>tb. (Inr (sort_key Version (of_model t i (rows tb))), tb)) w of
        (Inl e, w) \<Rightarrow> (Inl (wrap_err ''queryhistorybymodelid'' e), w)
      | (Inr rs, w) \<Rightarrow> (Inr (toCoreAuditLogSlice rs), w))"

definition pg_ByVersion ::
    "'e db_env \<Rightarrow> classifier option \<Rightarrow> string \<Rightarrow> string \<Rightarrow> int \<Rightarrow> audit_table \<times> 'e \<Rightarrow>
     (go_error + AuditLog) \<times> audit_table \<times> 'e" where
  "pg_ByVersion env cls t i ver w =
     (case QueryOne env cls (\<lambda>tb. (Inr (filter (\<lambda>r. Version r = ver) (of_model t i (rows tb))), tb)) w of
        (Inl e, w) \<Rightarrow> (Inl (query_one_err ''querymodelbyversion'' e), w)
      | (Inr r, w) \<Rightarrow> (Inr (toCoreAuditLog r), w))"

definition pg_Versions ::
    "'e db_env \<Rightarrow> string \<Rightarrow> string \<Rightarrow> audit_table \<times> 'e \<Rightarrow> (go_error + int list) \<times> audit_table \<times> 'e" where
  "pg_Versions env t i w =
     (case round_trip env (\<lambda>tb. (Inr (map Version (sort_key Version (of_model t i (rows tb)))), tb)) w of
        (Inl e, w) \<Rightarrow> (Inl (wrap_err ''versions'' e), w)
      | (Inr vs, w) \<Rightarrow> (Inr vs, w))"

text \<open>The result of the statement carries the count of rows, which may not be available.\<close>

definition sql_delete_versions :: "string \<Rightarrow> string \<Rightarrow> int list \<Rightarrow> (audit_table, go_error + int) stmt" where
  "sql_delete_versions t i vs tb =
     (let hit = (\<lambda>r. model_of r = (t, i) \<and> Version r \<in> set vs)
      in (Inr (Inr (int (count_where hit (rows tb)))), tb\<lparr>rows := filter (\<lambda>r. \<not> hit r) (rows tb)\<rparr>))"

definition pg_DeleteVersions ::
    "'e db_env \<Rightarrow> string \<Rightarrow> string \<Rightarrow> int list \<Rightarrow> audit_table \<times> 'e \<Rightarrow> (go_error + int) \<times> audit_table \<times> 'e" where
  "pg_DeleteVersions env t i vs w =
     (if vs = [] then (Inr 0, w)
      else case round_trip env (sql_delete_versions t i vs) w of
        (Inl e, w) \<Rightarrow> (Inl (wrap_err ''deleteversions'' e), w)
      | (Inr (Inl e), w) \<Rightarrow> (Inl (wrap_err ''deleteversions: rows affected'' e), w)
      | (Inr (Inr n), w) \<Rightarrow> (Inr n, w))"

definition sql_over_threshold :: "pg_server \<Rightarrow> int \<Rightarrow> int \<Rightarrow> (audit_table, ModelRef list) stmt" where
  "sql_over_threshold sv threshold limit tb =
     (if limit < 0 then (Inl (Plain ''LIMIT must not be negative''), tb)
      else let refs = map (\<lambda>(t, i). \<lparr>ref_ModelType = t, ref_ModelID = i, ref_Versions = int (length (of_model t i (rows tb)))\<rparr>)
                        (remdups (map model_of (rows tb)))
           in (Inr (take (nat limit) (plan sv (filter (\<lambda>r. ref_Versions r > threshold) refs))), tb))"

definition pg_OverThreshold ::
    "'e db_env \<Rightarrow> pg_server \<Rightarrow> int \<Rightarrow> int \<Rightarrow> audit_table \<times> 'e \<Rightarrow> (go_error + ModelRef list) \<times> audit_table \<times> 'e" where
  "pg_OverThreshold env sv threshold limit w =
     (case round_trip env (sql_over_threshold sv threshold limit) w of
        (Inl e, w) \<Rightarrow> (Inl (wrap_err ''overthreshold'' e), w)
      | (Inr refs, w) \<Rightarrow> (Inr refs, w))"

definition pg_ops :: "'e db_env \<Rightarrow> classifier option \<Rightarrow> pg_server \<Rightarrow> (audit_table \<times> 'e) store_ops" where
  "pg_ops env cls sv = \<lparr>Save = pg_Save env cls sv, LastByModelID = pg_Last env cls,
     HistoryByModelID = pg_History env cls, ModelByVersion = pg_ByVersion env cls,
     Versions = pg_Versions env, DeleteVersions = pg_DeleteVersions env,
     OverThreshold = pg_OverThreshold env sv\<rparr>"

definition pg_core ::
    "'e db_env \<Rightarrow> classifier option \<Rightarrow> pg_server \<Rightarrow> ('e \<Rightarrow> instant \<times> 'e) \<Rightarrow> int \<Rightarrow> compactOptions \<Rightarrow>
     (audit_table \<times> 'e) core" where
  "pg_core env cls sv clock every opts = \<lparr>core_store = pg_ops env cls sv, autoCompactEvery = every,
     autoCompactOpts = opts, time_Now = (\<lambda>(s, e). case clock e of (t, e) \<Rightarrow> (t, s, e))\<rparr>"

section \<open>The contract\<close>

definition pg_hist :: "audit_table \<times> 'e \<Rightarrow> string \<times> string \<Rightarrow> AuditLog list" where
  "pg_hist w k = sort_key Version (filter (\<lambda>r. model_of r = k) (rows (fst w)))"

definition pg_stored :: "pg_server \<Rightarrow> AuditLog \<Rightarrow> AuditLog option" where
  "pg_stored sv al = (case stored_row sv (toDBAuditLog al) of Inr r \<Rightarrow> Some r | Inl _ \<Rightarrow> None)"

text \<open>
  The server works, its unique violations are told apart by the classifier, it orders the
  models it lists, and a payload reads back as it decodes; the rows obey the constraint.
\<close>

definition pg_server_ok :: "'e db_env \<Rightarrow> classifier option \<Rightarrow> pg_server \<Rightarrow> ('n, 'v) json_lib \<Rightarrow> bool" where
  "pg_server_ok env cls sv js =
     (works env \<and> err_is (classify cls (Some (dup sv))) ErrDBDuplicatedEntry \<and>
      (\<forall>refs. set (plan sv refs) \<subseteq> set refs) \<and>
      (\<forall>p q. jsonb sv p = Inr q \<longrightarrow> Unmarshal js q = Unmarshal js p))"

definition table_ok :: "audit_table \<Rightarrow> bool" where
  "table_ok tb = (distinct (map (\<lambda>r. (model_of r, Version r)) (rows tb)) \<and> (\<forall>r \<in> set (rows tb). 0 < Version r))"

definition pg_ok :: "'e db_env \<Rightarrow> classifier option \<Rightarrow> pg_server \<Rightarrow> ('n, 'v) json_lib \<Rightarrow> audit_table \<times> 'e \<Rightarrow> bool" where
  "pg_ok env cls sv js w = (pg_server_ok env cls sv js \<and> table_ok (fst w))"

lemma toCoreAuditLog_id [simp]: "toCoreAuditLog r = r"
  by (simp add: toCoreAuditLog_def)

lemma toCoreAuditLogSlice_id [simp]: "toCoreAuditLogSlice rs = rs"
  by (induction rs) (simp_all add: toCoreAuditLogSlice_def)

lemma of_model_hist: "sort_key Version (of_model t i (rows tb)) = pg_hist (tb, e) (t, i)"
  by (simp add: of_model_def pg_hist_def)

lemma pg_hist_seq [simp]: "pg_hist (tb\<lparr>seq := n\<rparr>, e) = pg_hist (tb, e')"
  by (simp add: pg_hist_def fun_eq_iff)

lemma pg_hist_env: "pg_hist (tb, e) = pg_hist (tb, e')"
  by (simp add: pg_hist_def fun_eq_iff)

lemma pg_ok_env: "pg_ok env cls sv js (tb, e) \<Longrightarrow> pg_ok env cls sv js (tb, e')"
  by (simp add: pg_ok_def)

lemma set_pg_hist: "set (pg_hist w k) = {r \<in> set (rows (fst w)). model_of r = k}"
  by (auto simp: pg_hist_def)

lemma sort_key_snoc:
  assumes "\<forall>y \<in> set xs. f y < f x"
  shows "sort_key f (xs @ [x]) = sort_key f xs @ [x :: 'a]"
proof (rule properties_for_sort_key)
  show "mset (sort_key f xs @ [x]) = mset (xs @ [x])" by simp
  show "filter (\<lambda>y. f k = f y) (sort_key f xs @ [x]) = filter (\<lambda>y. f k = f y) (xs @ [x])" for k
    by (simp add: sort_key_stable eq_commute [of "f k"])
  show "sorted (map f (sort_key f xs @ [x]))" using assms by (auto simp: sorted_append less_imp_le)
qed

lemma pg_hist_ascending:
  assumes "table_ok (fst w)"
  shows "sorted_wrt (<) (map Version (pg_hist w k))"
proof -
  let ?rs = "filter (\<lambda>r. model_of r = k) (rows (fst w))"
  have "distinct (map (\<lambda>r. (model_of r, Version r)) ?rs)"
    using assms distinct_map_filter unfolding table_ok_def by blast
  then have "inj_on Version (set ?rs)" and "distinct ?rs"
    by (auto simp: distinct_map inj_on_def)
  then have "distinct (map Version (pg_hist w k))"
    by (simp add: pg_hist_def distinct_map)
  then show ?thesis by (simp add: strict_sorted_iff pg_hist_def)
qed

lemma pg_Save_new:
  assumes "pg_ok env cls sv js w" and "pg_stored sv al = Some al'" and "0 < Version al"
    and "\<And>x. x \<in> set (pg_hist w (model_of al)) \<Longrightarrow> Version x < Version al"
  shows "\<exists>w' n. pg_Save env cls sv al w = (None, w') \<and> pg_ok env cls sv js w' \<and>
    pg_hist w' = (pg_hist w)(model_of al := pg_hist w (model_of al) @ [al'\<lparr>ID := n\<rparr>])"
proof -
  obtain tb e where w: "w = (tb, e)" by force
  have wk: "works env" and tb: "table_ok tb" using assms(1) by (simp_all add: pg_ok_def pg_server_ok_def w)
  have st: "stored_row sv (toDBAuditLog al) = Inr al'"
    using assms(2) by (auto simp: pg_stored_def split: sum.splits)
  then have al': "model_of al' = model_of al" "Version al' = Version al"
    by (auto simp: stored_row_def toDBAuditLog_def model_of_def split: if_splits sum.splits)
  have new: "Version x < Version al" if "x \<in> set (rows tb)" "model_of x = model_of al" for x
    using assms(4) that by (simp add: set_pg_hist w)
  define tb' where "tb' = tb\<lparr>seq := seq tb + 1, rows := rows tb @ [al'\<lparr>ID := seq tb + 1\<rparr>]\<rparr>"
  have "sql_save sv (toDBAuditLog al) tb = (Inr (), tb')"
    using al' by (auto simp: sql_save_def st Let_def tb'_def dest: new)
  then have "pg_Save env cls sv al w = (None, tb', snd (db_fault env e))"
    using works_Exec [OF wk, of "sql_save sv (toDBAuditLog al)" tb] by (simp add: pg_Save_def w)
  moreover have "table_ok tb'"
  proof -
    have "(model_of al, Version al) \<notin> (\<lambda>r. (model_of r, Version r)) ` set (rows tb)" by (auto dest: new)
    then show ?thesis using tb al' assms(3) by (simp add: table_ok_def tb'_def model_of_def)
  qed
  moreover have "pg_hist (tb', e') = (pg_hist w)(model_of al := pg_hist w (model_of al) @ [al'\<lparr>ID := seq tb + 1\<rparr>])" for e'
  proof
    fix k
    have "model_of (al'\<lparr>ID := seq tb + 1\<rparr>) = model_of al" using al' by (simp add: model_of_def)
    then show "pg_hist (tb', e') k = ((pg_hist w)(model_of al := pg_hist w (model_of al) @ [al'\<lparr>ID := seq tb + 1\<rparr>])) k"
      using sort_key_snoc [of "filter (\<lambda>r. model_of r = model_of al) (rows tb)" Version "al'\<lparr>ID := seq tb + 1\<rparr>"] new al'
      by (auto simp: pg_hist_def tb'_def w)
  qed
  ultimately show ?thesis
    using assms(1) by (intro exI [of _ "(tb', snd (db_fault env e))"] exI [of _ "seq tb + 1"]) (simp add: pg_ok_def w)
qed

lemma pg_Save_taken:
  assumes "pg_ok env cls sv js w" and "pg_stored sv al \<noteq> None" and "x \<in> set (pg_hist w (model_of al))"
    and "Version x = Version al"
  shows "\<exists>w' e. pg_Save env cls sv al w = (Some e, w') \<and> err_is (Some e) ErrDBDuplicatedEntry \<and>
    pg_ok env cls sv js w' \<and> pg_hist w' = pg_hist w"
proof -
  obtain tb e where w: "w = (tb, e)" by force
  have wk: "works env" and d: "err_is (classify cls (Some (dup sv))) ErrDBDuplicatedEntry"
    using assms(1) by (simp_all add: pg_ok_def pg_server_ok_def)
  obtain al' where st: "stored_row sv (toDBAuditLog al) = Inr al'"
    using assms(2) by (auto simp: pg_stored_def split: sum.splits)
  then have "model_of al' = model_of al" "Version al' = Version al"
    by (auto simp: stored_row_def toDBAuditLog_def model_of_def split: if_splits sum.splits)
  then have "sql_save sv (toDBAuditLog al) tb = (Inl (dup sv), tb\<lparr>seq := seq tb + 1\<rparr>)"
    using assms(3,4) by (auto simp: sql_save_def st Let_def set_pg_hist w)
  then have "pg_Save env cls sv al w = (Some (wrap_err ''save'' (the (classify cls (Some (dup sv))))), tb\<lparr>seq := seq tb + 1\<rparr>, snd (db_fault env e))"
    by (simp add: pg_Save_def w Exec_def exec_def works_round_trip [OF wk])
  moreover have "\<exists>c. classify cls (Some (dup sv)) = Some c" using d by (cases "classify cls (Some (dup sv))") auto
  ultimately show ?thesis using assms(1) d by (auto simp: w pg_ok_def table_ok_def)
qed

lemma works_QueryOne:
  assumes "works env"
  shows "QueryOne env cls (\<lambda>s. (Inr (f s), s)) (s, e) =
    ((case f s of [] \<Rightarrow> Inl (Sentinel ErrDBNotFound) | r # _ \<Rightarrow> Inr r), s, snd (db_fault env e))"
  by (simp add: QueryOne_def works_exec [OF assms] classify_def split: list.splits)

lemma pg_Last_law:
  assumes "pg_ok env cls sv js w"
  shows "\<exists>w' r. pg_Last env cls t i w = (r, w') \<and> pg_ok env cls sv js w' \<and> pg_hist w' = pg_hist w \<and>
    (if pg_hist w (t, i) = [] then \<exists>e. r = Inl e \<and> err_is (Some e) ErrNotFound else r = Inr (last (pg_hist w (t, i))))"
proof -
  obtain tb e where w: "w = (tb, e)" by force
  have wk: "works env" using assms(1) by (simp add: pg_ok_def pg_server_ok_def)
  have "take 1 (rev (pg_hist (tb, e) (t, i))) = (if pg_hist (tb, e) (t, i) = [] then [] else [last (pg_hist (tb, e) (t, i))])"
    by (cases "pg_hist (tb, e) (t, i)" rule: rev_cases) auto
  then show ?thesis
    using assms(1) pg_hist_env by (auto simp: pg_Last_def w works_QueryOne [OF wk] of_model_hist [of _ _ _ e] query_one_err_def pg_ok_def)
qed

lemma pg_History_law:
  assumes "pg_ok env cls sv js w"
  shows "\<exists>w'. pg_History env cls t i w = (Inr (pg_hist w (t, i)), w') \<and> pg_ok env cls sv js w' \<and> pg_hist w' = pg_hist w"
proof -
  obtain tb e where w: "w = (tb, e)" by force
  have wk: "works env" using assms(1) by (simp add: pg_ok_def pg_server_ok_def)
  show ?thesis
    using assms(1) pg_hist_env by (auto simp: pg_History_def QueryList_def w works_exec [OF wk] of_model_hist [of _ _ _ e] pg_ok_def)
qed

lemma pg_ByVersion_law:
  assumes "pg_ok env cls sv js w" and "al \<in> set (pg_hist w (t, i))"
  shows "\<exists>w'. pg_ByVersion env cls t i (Version al) w = (Inr al, w') \<and> pg_ok env cls sv js w' \<and> pg_hist w' = pg_hist w"
proof -
  obtain tb e where w: "w = (tb, e)" by force
  have wk: "works env" and tb: "table_ok tb" using assms(1) by (simp_all add: pg_ok_def pg_server_ok_def w)
  have al: "al \<in> set (rows tb)" "model_of al = (t, i)" using assms(2) by (simp_all add: set_pg_hist w)
  have "x = al" if "x \<in> set (rows tb)" "model_of x = (t, i)" "Version x = Version al" for x
    using tb that al by (auto simp: table_ok_def distinct_map inj_on_def)
  then have "\<forall>x \<in> set (filter (\<lambda>r. Version r = Version al) (of_model t i (rows tb))). x = al"
    and "al \<in> set (filter (\<lambda>r. Version r = Version al) (of_model t i (rows tb)))"
    using al by (auto simp: of_model_def)
  then obtain rest where "filter (\<lambda>r. Version r = Version al) (of_model t i (rows tb)) = al # rest"
    by (cases "filter (\<lambda>r. Version r = Version al) (of_model t i (rows tb))") auto
  then show ?thesis
    using assms(1) pg_hist_env by (auto simp: pg_ByVersion_def w works_QueryOne [OF wk] pg_ok_def)
qed

lemma pg_Versions_law:
  assumes "pg_ok env cls sv js w"
  shows "\<exists>w'. pg_Versions env t i w = (Inr (map Version (pg_hist w (t, i))), w') \<and> pg_ok env cls sv js w' \<and> pg_hist w' = pg_hist w"
proof -
  obtain tb e where w: "w = (tb, e)" by force
  have wk: "works env" using assms(1) by (simp add: pg_ok_def pg_server_ok_def)
  show ?thesis
    using assms(1) pg_hist_env by (auto simp: pg_Versions_def w works_round_trip [OF wk] of_model_hist [of _ _ _ e] pg_ok_def)
qed

lemma pg_DeleteVersions_law:
  assumes "pg_ok env cls sv js w"
  shows "\<exists>w' n. pg_DeleteVersions env t i vs w = (Inr n, w') \<and> pg_ok env cls sv js w' \<and>
    n = int (count_where (\<lambda>al. Version al \<in> set vs) (pg_hist w (t, i))) \<and>
    pg_hist w' = (pg_hist w)((t, i) := filter (\<lambda>al. Version al \<notin> set vs) (pg_hist w (t, i)))"
proof -
  obtain tb e where w: "w = (tb, e)" by force
  have wk: "works env" and tb: "table_ok tb" using assms(1) by (simp_all add: pg_ok_def pg_server_ok_def w)
  define hit where "hit = (\<lambda>r. model_of r = (t, i) \<and> Version r \<in> set vs)"
  define tb' where "tb' = tb\<lparr>rows := filter (\<lambda>r. \<not> hit r) (rows tb)\<rparr>"
  have del: "sql_delete_versions t i vs tb = (Inr (Inr (int (count_where hit (rows tb)))), tb')"
    by (simp add: sql_delete_versions_def hit_def tb'_def)
  have "table_ok tb'" using tb distinct_map_filter unfolding table_ok_def tb'_def by auto
  then have ok': "pg_ok env cls sv js (tb', e')" for e' using assms(1) by (simp add: pg_ok_def w)
  have h': "pg_hist (tb', e') = (pg_hist w)((t, i) := filter (\<lambda>al. Version al \<notin> set vs) (pg_hist w (t, i)))" for e'
  proof
    fix k
    have "filter (\<lambda>r. model_of r = k) (filter (\<lambda>r. \<not> hit r) (rows tb)) =
        (if k = (t, i) then filter (\<lambda>al. Version al \<notin> set vs) (filter (\<lambda>r. model_of r = k) (rows tb))
         else filter (\<lambda>r. model_of r = k) (rows tb))"
      by (auto simp: hit_def intro!: filter_cong)
    then show "pg_hist (tb', e') k = ((pg_hist w)((t, i) := filter (\<lambda>al. Version al \<notin> set vs) (pg_hist w (t, i)))) k"
      by (simp add: pg_hist_def tb'_def w filter_sort)
  qed
  have n: "count_where hit (rows tb) = count_where (\<lambda>al. Version al \<in> set vs) (pg_hist w (t, i))"
    by (simp add: count_where_def pg_hist_def w filter_sort hit_def conj_commute)
  show ?thesis
  proof (cases "vs = []")
    case True
    then show ?thesis using assms(1) by (auto simp: pg_DeleteVersions_def count_where_def)
  next
    case False
    then have "pg_DeleteVersions env t i vs w = (Inr (int (count_where hit (rows tb))), tb', snd (db_fault env e))"
      by (simp add: pg_DeleteVersions_def w works_round_trip [OF wk] del)
    then show ?thesis using ok' h' n by auto
  qed
qed

lemma pg_OverThreshold_law:
  assumes "pg_ok env cls sv js w" and "0 \<le> limit"
  shows "\<exists>w' refs. pg_OverThreshold env sv threshold limit w = (Inr refs, w') \<and> pg_ok env cls sv js w' \<and> pg_hist w' = pg_hist w \<and>
    int (length refs) \<le> limit \<and>
    (\<forall>r \<in> set refs. threshold < int (length (pg_hist w (ref_ModelType r, ref_ModelID r))))"
proof -
  obtain tb e where w: "w = (tb, e)" by force
  have wk: "works env" and pl: "\<And>refs. set (plan sv refs) \<subseteq> set refs"
    using assms(1) by (simp_all add: pg_ok_def pg_server_ok_def)
  define refs where "refs = filter (\<lambda>r. ref_Versions r > threshold)
     (map (\<lambda>(t, i). \<lparr>ref_ModelType = t, ref_ModelID = i, ref_Versions = int (length (of_model t i (rows tb)))\<rparr>)
       (remdups (map model_of (rows tb))))"
  have "sql_over_threshold sv threshold limit tb = (Inr (take (nat limit) (plan sv refs)), tb)"
    using assms(2) by (simp add: sql_over_threshold_def refs_def Let_def)
  then have "pg_OverThreshold env sv threshold limit w = (Inr (take (nat limit) (plan sv refs)), tb, snd (db_fault env e))"
    by (simp add: pg_OverThreshold_def w works_round_trip [OF wk])
  moreover have "threshold < int (length (pg_hist w (ref_ModelType r, ref_ModelID r)))" if "r \<in> set refs" for r
    using that by (auto simp: refs_def pg_hist_def of_model_def w)
  then have "\<forall>r \<in> set (take (nat limit) (plan sv refs)). threshold < int (length (pg_hist w (ref_ModelType r, ref_ModelID r)))"
    using pl in_set_takeD by fast
  ultimately show ?thesis using assms pg_hist_env by (auto simp: pg_ok_def w)
qed

lemma pg_stored_decodes:
  "pg_ok env cls sv js w \<Longrightarrow> pg_stored sv al = Some al' \<Longrightarrow>
   Version al' = Version al \<and> Unmarshal js (Payload al') = Unmarshal js (Payload al)"
  by (auto simp: pg_ok_def pg_server_ok_def pg_stored_def stored_row_def toDBAuditLog_def split: sum.splits if_splits)

lemma pg_ops_simps [simp]:
  "Save (pg_ops env cls sv) = pg_Save env cls sv" "LastByModelID (pg_ops env cls sv) = pg_Last env cls"
  "HistoryByModelID (pg_ops env cls sv) = pg_History env cls" "ModelByVersion (pg_ops env cls sv) = pg_ByVersion env cls"
  "Versions (pg_ops env cls sv) = pg_Versions env" "DeleteVersions (pg_ops env cls sv) = pg_DeleteVersions env"
  "OverThreshold (pg_ops env cls sv) = pg_OverThreshold env sv"
  by (simp_all add: pg_ops_def)

lemma pg_time_Now:
  "pg_ok env cls sv js w \<Longrightarrow> pg_ok env cls sv js (snd (time_Now (pg_core env cls sv clock every opts) w)) \<and>
    pg_hist (snd (time_Now (pg_core env cls sv clock every opts) w)) = pg_hist w"
  using pg_hist_env by (cases w) (auto simp: pg_core_def pg_ok_def split: prod.splits)

lemma pg_hist_version: "pg_ok env cls sv js w \<Longrightarrow> al \<in> set (pg_hist w k) \<Longrightarrow> 0 < Version al"
  by (simp add: pg_ok_def table_ok_def set_pg_hist)

interpretation pg: audit_core "pg_ops env cls sv" "pg_ok env cls sv js" pg_hist "pg_stored sv"
    "pg_core env cls sv clock every opts" js "2 ^ 31 - 1" "\<lambda>p. \<exists>q. jsonb sv p = Inr q"
  for env cls sv js clock every opts
  by (unfold_locales; (unfold pg_ops_simps)?;
      (fact pg_hist_version | fact pg_Save_new | fact pg_Save_taken | fact pg_Last_law | fact pg_History_law
       | fact pg_ByVersion_law | fact pg_Versions_law | fact pg_DeleteVersions_law | fact pg_OverThreshold_law
       | fact pg_time_Now | fact pg_stored_decodes)?)
    (auto simp: pg_core_def pg_ok_def pg_hist_ascending pg_stored_def stored_row_def toDBAuditLog_def)

section \<open>The audit trail\<close>

text \<open>
  C30: The audit core over the PostgreSQL store implements the abstract history. From any table
  that obeys its constraint and holds payloads that decode, over a server that works, with payloads
  that encode to JSON objects the column accepts and versions that stay below \<open>2^31\<close>, a
  sequence of calls of \<open>Create\<close> and \<open>Compact\<close> returns no error, and the table then stands for
  what the abstract operations make of the history it stood for: a change appends the next
  version, a snapshot equal to the last one up to \<open>updated_at\<close> and \<open>updated_by\<close> appends
  nothing, and a thinning, by call or by the version number, keeps what it must.
\<close>

theorem audit_refines:
  assumes "pg_server_ok env cls sv js" and "table_ok tb" and "readable js (pg_hist (tb, e))"
    and "\<forall>op \<in> set ops. encodable js op"
    and "\<forall>inp. Op_Create inp \<in> set ops \<longrightarrow> (\<exists>q. jsonb sv (payload_text js (in_Payload inp)) = Inr q)"
    and "\<forall>k. next_version (abstract_history js (pg_hist (tb, e)) k) + int (length ops) \<le> 2 ^ 31"
  shows "\<exists>tb' e'. run_ops (pg_core env cls sv clock every opts) js ops (tb, e) = (replicate (length ops) None, tb', e') \<and>
    table_ok tb' \<and>
    abstract_history js (pg_hist (tb', e')) = fold (abstract_op every opts js) ops (abstract_history js (pg_hist (tb, e)))"
  using pg.run_ops_refine [of env cls sv js "(tb, e)" ops clock every opts] assms
  by (force simp: pg_ok_def pg_core_def)

definition example_lib :: "(unit, string) json_lib" where
  "example_lib = \<lparr>Marshal = Inr, Unmarshal = (\<lambda>s. Inr (Some [(''name'', JStr s)])), Marshal_map = (\<lambda>m. Inr []),
     cmp_Diff = (\<lambda>a b. [])\<rparr>"

definition example_server :: pg_server where
  "example_server = \<lparr>jsonb = Inr, timestamptz = (\<lambda>t. t), dup = Sentinel ErrDBDuplicatedEntry, plan = (\<lambda>refs. refs)\<rparr>"

definition example_change :: "string \<Rightarrow> string audit_op" where
  "example_change s = Op_Create \<lparr>in_ModelID = ''1'', in_ModelType = ''w'', in_Method = [], in_Path = [],
     in_Payload = s, in_CreatedBy = []\<rparr>"

definition example_opts :: compactOptions where
  "example_opts = \<lparr>compactOptions.Factor = 2, KeepRecent = 0, MaxVersions = 0, MinVersions = 0\<rparr>"

lemma example_ready:
  "pg_server_ok calm_db None example_server example_lib" "table_ok \<lparr>seq = 0, rows = []\<rparr>"
  "\<forall>op \<in> set (map example_change ss). encodable example_lib op"
  "\<forall>inp. Op_Create inp \<in> set (map example_change ss) \<longrightarrow>
     (\<exists>q. jsonb example_server (payload_text example_lib (in_Payload inp)) = Inr q)"
  "readable example_lib (pg_hist (\<lparr>seq = 0, rows = []\<rparr>, e))"
  "abstract_history example_lib (pg_hist (\<lparr>seq = 0, rows = []\<rparr>, e)) k = []"
  by (auto simp: pg_server_ok_def works_def calm_db_def example_server_def classify_def table_ok_def example_change_def
      ErrDBDuplicatedEntry_def ErrDBNotFound_def example_lib_def readable_def pg_hist_def abstract_history_def)

lemma example_snapshot [simp]:
  "snapshot example_lib (payload_text example_lib s) = Some [(''name'', JStr s)]"
  by (simp add: snapshot_def payload_text_def normalizeMap_def example_lib_def)

theorem audit_refines_witness:
  "\<exists>tb' e'. run_ops (pg_core calm_db None example_server (\<lambda>e. (7, e)) 0 example_opts) example_lib
      (map example_change [''a'', ''a'', ''b'']) (\<lparr>seq = 0, rows = []\<rparr>, ()) = ([None, None, None], tb', e') \<and>
    abstract_history example_lib (pg_hist (tb', e')) (''w'', ''1'') =
      [(1, Some [(''name'', JStr ''a'')]), (2, Some [(''name'', JStr ''b'')])]"
proof -
  let ?ops = "map example_change [''a'', ''a'', ''b'']" and ?tb = "\<lparr>seq = 0, rows = []\<rparr> :: audit_table"
  have "\<forall>k. next_version (abstract_history example_lib (pg_hist (?tb, ())) k) + int (length ?ops) \<le> 2 ^ 31"
    by (simp add: example_ready(6) next_version_def del: abstract_history_Nil)
  from audit_refines [OF example_ready(1,2,5,3,4) this, of "\<lambda>e. (7, e)" 0 example_opts]
  obtain tb' e' where "run_ops (pg_core calm_db None example_server (\<lambda>e. (7, e)) 0 example_opts) example_lib ?ops (?tb, ()) = (replicate (length ?ops) None, tb', e')"
    "abstract_history example_lib (pg_hist (tb', e')) = fold (abstract_op 0 example_opts example_lib) ?ops (abstract_history example_lib (pg_hist (?tb, ())))"
    by blast
  moreover have "fold (abstract_op 0 example_opts example_lib) ?ops H (''w'', ''1'') =
      [(1, Some [(''name'', JStr ''a'')]), (2, Some [(''name'', JStr ''b'')])]" if "H (''w'', ''1'') = []" for H
    using that by (simp add: example_change_def add_snapshot_def next_version_def)
  moreover have "replicate (length ?ops) None = [None, None, None]" by simp
  ultimately show ?thesis using example_ready(6) by metis
qed

text \<open>What the abstract history holds after operations from an empty one.\<close>

fun latest :: "('n, 'v) json_lib \<Rightarrow> string \<times> string \<Rightarrow> 'v audit_op list \<Rightarrow> 'n object option option" where
  "latest js k [] = None"
| "latest js k (Op_Create inp # ops) =
     (case latest js k ops of
        Some d \<Rightarrow> Some d
      | None \<Rightarrow> if k = (in_ModelType inp, in_ModelID inp) then Some (snapshot js (payload_text js (in_Payload inp))) else None)"
| "latest js k (Op_Compact t i opts # ops) = latest js k ops"

definition trail_ok :: "(int \<times> 'd) list \<Rightarrow> 'd option \<Rightarrow> bool" where
  "trail_ok h d = (sorted_wrt (<) (map fst h) \<and>
     (case d of None \<Rightarrow> h = [] | Some d \<Rightarrow> h \<noteq> [] \<and> fst (hd h) = 1 \<and> snd (last h) = d))"

lemma trail_ok_thin: "trail_ok h d \<Longrightarrow> trail_ok (thin_history opts h) d"
  using thin_history_last [of h opts] thin_history_sorted [of h opts]
  by (cases d) (auto simp: trail_ok_def thin_history_def)

lemma trail_ok_add:
  assumes "trail_ok h d'"
  shows "trail_ok (add_snapshot every opts d h) (Some d)"
proof (cases "h \<noteq> [] \<and> snd (last h) = d")
  case True
  then show ?thesis using assms by (auto simp: trail_ok_def add_snapshot_def split: option.splits)
next
  case False
  have "\<forall>x \<in> set h. fst x < next_version h"
    using ascending_last [of fst h] assms by (auto simp: trail_ok_def next_version_def)
  then have "trail_ok (h @ [(next_version h, d)]) (Some d)"
    using assms by (cases d') (auto simp: trail_ok_def sorted_wrt_append next_version_def)
  then show ?thesis using False trail_ok_thin by (auto simp: add_snapshot_def Let_def)
qed

lemma abstract_trail:
  assumes "\<And>k. trail_ok (H k) (D k)"
  shows "trail_ok (fold (abstract_op every opts js) ops H k) (case latest js k ops of Some d \<Rightarrow> Some d | None \<Rightarrow> D k)"
  using assms
proof (induction ops arbitrary: H D)
  case (Cons op ops)
  define D' where "D' k = (case latest js k [op] of Some d \<Rightarrow> Some d | None \<Rightarrow> D k)" for k
  have "trail_ok (abstract_op every opts js op H k) (D' k)" for k
    using Cons.prems [of k] trail_ok_add [OF Cons.prems] trail_ok_thin [OF Cons.prems]
    by (cases op) (auto simp: D'_def Let_def)
  from Cons.IH [OF this] have "trail_ok (fold (abstract_op every opts js) (op # ops) H k)
      (case latest js k ops of Some d \<Rightarrow> Some d | None \<Rightarrow> D' k)" by simp
  moreover have "(case latest js k ops of Some d \<Rightarrow> Some d | None \<Rightarrow> D' k) = (case latest js k (op # ops) of Some d \<Rightarrow> Some d | None \<Rightarrow> D k)"
    by (cases op) (auto simp: D'_def split: option.splits)
  ultimately show ?case by simp
qed (simp split: option.splits)

text \<open>
  C32: From an empty table, over a server that works, with payloads that encode to JSON objects
  the column accepts, whatever calls of \<open>Create\<close> and \<open>Compact\<close> run (fewer than \<open>2^31\<close>) and however the core is set to compact by itself, the versions of every model
  ascend and start at 1, and the last one holds the snapshot of the last change to the model;
  a model nothing changed has no version.
\<close>

theorem audit_trail:
  assumes "pg_server_ok env cls sv js" and "\<forall>op \<in> set ops. encodable js op"
    and "\<forall>inp. Op_Create inp \<in> set ops \<longrightarrow> (\<exists>q. jsonb sv (payload_text js (in_Payload inp)) = Inr q)"
    and "length ops < 2 ^ 31"
    and "run_ops (pg_core env cls sv clock every opts) js ops (\<lparr>seq = 0, rows = []\<rparr>, e) = (errors, w)"
  shows "set errors \<subseteq> {None} \<and> sorted_wrt (<) (map Version (pg_hist w k)) \<and>
    (case latest js k ops of
       None \<Rightarrow> pg_hist w k = []
     | Some d \<Rightarrow> pg_hist w k \<noteq> [] \<and> Version (hd (pg_hist w k)) = 1 \<and> normalizeMap js (Payload (last (pg_hist w k))) = Inr d)"
proof -
  let ?w = "(\<lparr>seq = 0, rows = []\<rparr>, e)"
  have h: "pg_hist ?w k = []" for k by (simp add: pg_hist_def)
  have H: "abstract_history js (pg_hist ?w) k = []" for k by (simp add: abstract_history_def h)
  have "int (length ops) < 2 ^ 31" using assms(4) by simp
  then have w: "set errors \<subseteq> {None}" "readable js (pg_hist w)"
      "abstract_history js (pg_hist w) = fold (abstract_op every opts js) ops (abstract_history js (pg_hist ?w))"
    using pg.run_ops_refine [of env cls sv js ?w ops clock every opts] assms h
    by (auto simp: pg_ok_def pg_core_def readable_def H next_version_def table_ok_def)
  have "trail_ok (abstract_history js (pg_hist w) k) (latest js k ops)"
    using abstract_trail [of "abstract_history js (pg_hist ?w)" "\<lambda>_. None" every opts js ops k]
    unfolding w(3) by (simp add: H trail_ok_def split: option.splits)
  moreover have "normalizeMap js (Payload (last (pg_hist w k))) = Inr (snapshot js (Payload (last (pg_hist w k))))"
    if "pg_hist w k \<noteq> []"
  proof -
    obtain d where "Unmarshal js (Payload (last (pg_hist w k))) = Inr d"
      using readableD [OF w(2), of "last (pg_hist w k)" k] \<open>pg_hist w k \<noteq> []\<close> by auto
    then show ?thesis by (simp add: snapshot_def normalizeMap_def)
  qed
  ultimately show ?thesis
    using w(1) by (auto simp: trail_ok_def abstract_history_last hd_map abstract_history_def last_map comp_def split: option.splits)
qed

theorem audit_trail_witness:
  "\<exists>errors w. run_ops (pg_core calm_db None example_server (\<lambda>e. (7, e)) 2 example_opts)
      example_lib (map example_change [''a'', ''b'', ''c'', ''d'']) (\<lparr>seq = 0, rows = []\<rparr>, ()) = (errors, w) \<and>
    pg_hist w (''w'', ''1'') \<noteq> [] \<and> Version (hd (pg_hist w (''w'', ''1''))) = 1 \<and>
    normalizeMap example_lib (Payload (last (pg_hist w (''w'', ''1'')))) = Inr (Some [(''name'', JStr ''d'')])"
proof -
  let ?ops = "map example_change [''a'', ''b'', ''c'', ''d'']"
  obtain errors w where r: "run_ops (pg_core calm_db None example_server (\<lambda>e. (7, e)) 2 example_opts) example_lib
      ?ops (\<lparr>seq = 0, rows = []\<rparr>, ()) = (errors, w)" using surj_pair by metis
  have "latest example_lib (''w'', ''1'') ?ops = Some (Some [(''name'', JStr ''d'')])"
    by (simp add: example_change_def)
  moreover have "length ?ops < 2 ^ 31" by simp
  ultimately show ?thesis using audit_trail [OF example_ready(1,3,4) _ r, of "(''w'', ''1'')"] r by auto
qed

section \<open>Changed fields\<close>

text \<open>
  C33: \<open>compareJSON\<close> is exact: it reports a key, once, if and only if the two payloads differ
  at it, in presence or in value, with the value on either side or nil where there is none.
\<close>

theorem compareJSON_exact:
  assumes "distinct (map fst (fields_of prev))" and "distinct (map fst (fields_of cur))"
  shows "distinct (map fst (compareJSON prev cur)) \<and>
    (\<forall>k old new. (k, old, new) \<in> set (compareJSON prev cur) \<longleftrightarrow>
       map_of (fields_of prev) k \<noteq> map_of (fields_of cur) k \<and>
       old = value_at (fields_of prev) k \<and> new = value_at (fields_of cur) k) \<and>
    (compareJSON prev cur = [] \<longleftrightarrow> map_of (fields_of prev) = map_of (fields_of cur))"
proof -
  let ?p = "fields_of prev" and ?c = "fields_of cur"
  let ?A = "filter (\<lambda>(key, v). map_of ?p key \<noteq> Some v) ?c" and ?B = "filter (\<lambda>(key, v). map_of ?c key = None) ?p"
  have keys: "map fst (compareJSON prev cur) = map fst ?A @ map fst ?B"
    by (simp add: compareJSON_def Let_def comp_def case_prod_unfold)
  have "distinct (map fst ?A)" "distinct (map fst ?B)" using assms distinct_map_filter by blast+
  moreover have "set (map fst ?A) \<inter> set (map fst ?B) = {}" by (force simp: map_of_eq_None_iff)
  ultimately have d: "distinct (map fst (compareJSON prev cur))" by (simp only: keys distinct_append)
  have iff: "(k, old, new) \<in> set (compareJSON prev cur) \<longleftrightarrow>
      map_of ?p k \<noteq> map_of ?c k \<and> old = value_at ?p k \<and> new = value_at ?c k" for k old new
  proof -
    have "(k, old, new) \<in> set (compareJSON prev cur) \<longleftrightarrow>
        (map_of ?c k = Some new \<and> map_of ?p k \<noteq> Some new \<and> old = value_at ?p k) \<or>
        (map_of ?p k = Some old \<and> map_of ?c k = None \<and> new = JNull)"
      using assms by (auto simp: compareJSON_def Let_def)
    then show ?thesis by (cases "map_of ?c k"; cases "map_of ?p k") (auto simp: value_at_def)
  qed
  have "compareJSON prev cur = [] \<longleftrightarrow> (\<forall>k. map_of ?p k = map_of ?c k)"
  proof
    assume "compareJSON prev cur = []"
    then show "\<forall>k. map_of ?p k = map_of ?c k" using iff by fastforce
  next
    assume "\<forall>k. map_of ?p k = map_of ?c k"
    then have "x \<notin> set (compareJSON prev cur)" for x using iff by (cases x) auto
    then show "compareJSON prev cur = []" by (metis list.set_intros(1) neq_Nil_conv)
  qed
  then show ?thesis using d iff by (simp add: fun_eq_iff)
qed

theorem compareJSON_exact_witness:
  "(''b'', JNull, JStr ''y'') \<in> set (compareJSON (Some [(''a'', JStr ''x'')]) (Some [(''a'', JStr ''x''), (''b'', JStr ''y'' :: unit json)]))"
  using compareJSON_exact [of "Some [(''a'', JStr ''x'')]" "Some [(''a'', JStr ''x''), (''b'', JStr ''y'' :: unit json)]"]
  by (simp add: fields_of_def value_at_def)

end
