(* ===== verification/Auditlog_Async.thy ===== *)
theory Auditlog_Async
  imports Auditlog "HOL-Library.Word"
begin

text \<open>
  The asynchronous recorder of \<open>auditlog/async.go\<close> as a transition system: callers of
  \<open>Record\<close>, the coordinator that \<open>Start\<close> runs beside the workers, and one worker per shard. A
  step ends where another goroutine may interleave. The context of a job is left out.
\<close>

section \<open>Definitions\<close>

unbundle bit_operations_syntax

text \<open>FNV-1a with 32 bits, of \<open>hash/fnv\<close>.\<close>

definition fnv32a :: "string \<Rightarrow> 32 word" where
  "fnv32a s = foldl (\<lambda>h c. (h XOR of_char c) * 16777619) 2166136261 s"

definition shardFor :: "nat \<Rightarrow> 'v NewAuditLog \<Rightarrow> nat" where
  "shardFor n entry = unat (fnv32a (in_ModelType entry @ [CHR 0x00] @ in_ModelID entry) mod of_nat n)"

record AsyncConfig =
  Workers :: int
  Buffer :: int
  BlockOnFull :: bool

definition async_defaults :: "AsyncConfig \<Rightarrow> AsyncConfig" where
  "async_defaults cfg =
     (let cfg = (if Workers cfg \<le> 0 then cfg\<lparr>Workers := 4\<rparr> else cfg)
      in if Buffer cfg \<le> 0 then cfg\<lparr>Buffer := 256\<rparr> else cfg)"

text \<open>
  A worker is at the outer \<open>select\<close>, writes an entry (on its way to drain or not), waits for
  \<open>drainReady\<close>, is at the inner \<open>select\<close>, or has returned. The coordinator waits for the context,
  then closes \<open>done\<close> and waits for the write lock, then holds it and has set \<open>closing\<close>, and last
  has closed \<open>drainReady\<close>.
\<close>

datatype 'v worker = Selecting | Writing "'v NewAuditLog" bool | Waiting | Draining | Returned

datatype coordinator = Waits | Locking | Closing | Ready

text \<open>
  \<open>senders\<close> are the callers that hold the read lock; \<open>accepted\<close> and \<open>written\<close> record, per shard,
  the entries sent and those handed to the core, \<open>dropped\<close> the entries given up.
\<close>

record 'v async =
  shards :: "'v NewAuditLog list list"
  workers :: "'v worker list"
  senders :: "'v NewAuditLog list"
  coord :: coordinator
  ctx_done :: bool
  accepted :: "'v NewAuditLog list list"
  written :: "'v NewAuditLog list list"
  dropped :: "'v NewAuditLog list"

definition closing :: "'v async \<Rightarrow> bool" where
  "closing s = (coord s = Closing \<or> coord s = Ready)"

definition NewAsyncRecorder :: "AsyncConfig \<Rightarrow> 'v async" where
  "NewAsyncRecorder cfg =
     (let n = nat (Workers cfg)
      in \<lparr>shards = replicate n [], workers = replicate n Selecting, senders = [], coord = Waits, ctx_done = False,
          accepted = replicate n [], written = replicate n [], dropped = []\<rparr>)"

text \<open>The parts of \<open>Record\<close>: taking the read lock, and the send.\<close>

definition Record_enter :: "'v NewAuditLog \<Rightarrow> 'v async \<Rightarrow> 'v async" where
  "Record_enter entry s =
     (if closing s then s\<lparr>dropped := dropped s @ [entry]\<rparr> else s\<lparr>senders := entry # senders s\<rparr>)"

definition Record_send :: "'v NewAuditLog \<Rightarrow> 'v async \<Rightarrow> 'v async" where
  "Record_send entry s =
     (let i = shardFor (length (shards s)) entry
      in s\<lparr>shards := (shards s)[i := shards s ! i @ [entry]], senders := remove1 entry (senders s),
          accepted := (accepted s)[i := accepted s ! i @ [entry]]\<rparr>)"

definition async_drop :: "'v NewAuditLog \<Rightarrow> 'v async \<Rightarrow> 'v async" where
  "async_drop entry s = s\<lparr>senders := remove1 entry (senders s), dropped := dropped s @ [entry]\<rparr>"

text \<open>A worker receives the oldest entry of its shard, then writes it.\<close>

definition receive :: "nat \<Rightarrow> bool \<Rightarrow> 'v async \<Rightarrow> 'v async" where
  "receive i draining s =
     s\<lparr>shards := (shards s)[i := tl (shards s ! i)], workers := (workers s)[i := Writing (hd (shards s ! i)) draining]\<rparr>"

definition async_write :: "nat \<Rightarrow> 'v NewAuditLog \<Rightarrow> bool \<Rightarrow> 'v async \<Rightarrow> 'v async" where
  "async_write i entry draining s =
     s\<lparr>workers := (workers s)[i := if draining then Draining else Selecting],
       written := (written s)[i := written s ! i @ [entry]]\<rparr>"

text \<open>
  The steps. A reader is not let in while the coordinator waits for the write lock. A caller
  that blocks on a full shard gives up only once \<open>done\<close> is closed; \<open>select\<close> may choose that
  though there is room.
\<close>

inductive async_step :: "AsyncConfig \<Rightarrow> 'v async \<Rightarrow> 'v async \<Rightarrow> bool" for cfg where
  enter: "coord s \<noteq> Locking \<Longrightarrow> async_step cfg s (Record_enter entry s)"
| send: "entry \<in> set (senders s) \<Longrightarrow> int (length (shards s ! shardFor (length (shards s)) entry)) < Buffer cfg \<Longrightarrow>
    async_step cfg s (Record_send entry s)"
| full: "entry \<in> set (senders s) \<Longrightarrow> \<not> BlockOnFull cfg \<Longrightarrow>
    int (length (shards s ! shardFor (length (shards s)) entry)) = Buffer cfg \<Longrightarrow>
    async_step cfg s (async_drop entry s)"
| give_up: "entry \<in> set (senders s) \<Longrightarrow> BlockOnFull cfg \<Longrightarrow> coord s \<noteq> Waits \<Longrightarrow> async_step cfg s (async_drop entry s)"
| cancelled: "async_step cfg s (s\<lparr>ctx_done := True\<rparr>)"
| close_done: "ctx_done s \<Longrightarrow> coord s = Waits \<Longrightarrow> async_step cfg s (s\<lparr>coord := Locking\<rparr>)"
| lock: "coord s = Locking \<Longrightarrow> senders s = [] \<Longrightarrow> async_step cfg s (s\<lparr>coord := Closing\<rparr>)"
| drain_ready: "coord s = Closing \<Longrightarrow> async_step cfg s (s\<lparr>coord := Ready\<rparr>)"
| take_job: "i < length (workers s) \<Longrightarrow> workers s ! i = Selecting \<Longrightarrow> shards s ! i \<noteq> [] \<Longrightarrow>
    async_step cfg s (receive i False s)"
| wrote: "i < length (workers s) \<Longrightarrow> workers s ! i = Writing entry d \<Longrightarrow> async_step cfg s (async_write i entry d s)"
| stopping: "i < length (workers s) \<Longrightarrow> workers s ! i = Selecting \<Longrightarrow> ctx_done s \<Longrightarrow>
    async_step cfg s (s\<lparr>workers := (workers s)[i := Waiting]\<rparr>)"
| drain_on: "i < length (workers s) \<Longrightarrow> workers s ! i = Waiting \<Longrightarrow> coord s = Ready \<Longrightarrow>
    async_step cfg s (s\<lparr>workers := (workers s)[i := Draining]\<rparr>)"
| drain_job: "i < length (workers s) \<Longrightarrow> workers s ! i = Draining \<Longrightarrow> shards s ! i \<noteq> [] \<Longrightarrow>
    async_step cfg s (receive i True s)"
| drained: "i < length (workers s) \<Longrightarrow> workers s ! i = Draining \<Longrightarrow> shards s ! i = [] \<Longrightarrow>
    async_step cfg s (s\<lparr>workers := (workers s)[i := Returned]\<rparr>)"

text \<open>\<open>Start\<close> returns when every worker has.\<close>

definition Start_returned :: "'v async \<Rightarrow> bool" where
  "Start_returned s = (\<forall>w \<in> set (workers s). w = Returned)"

section \<open>The invariant\<close>

fun in_hand :: "'v worker \<Rightarrow> 'v NewAuditLog list" where
  "in_hand (Writing entry d) = [entry]"
| "in_hand _ = []"

fun past_ready :: "'v worker \<Rightarrow> bool" where
  "past_ready (Writing entry d) = d"
| "past_ready Draining = True"
| "past_ready Returned = True"
| "past_ready _ = False"

definition shard_ok ::
    "int \<Rightarrow> nat \<Rightarrow> coordinator \<Rightarrow> 'v NewAuditLog list \<Rightarrow> 'v NewAuditLog list \<Rightarrow> 'v worker \<Rightarrow> 'v NewAuditLog list \<Rightarrow> nat \<Rightarrow> bool" where
  "shard_ok b n c acc wr w q i =
     (acc = wr @ in_hand w @ q \<and> (past_ready w \<longrightarrow> c = Ready) \<and> (w = Returned \<longrightarrow> q = []) \<and>
      int (length q) \<le> b \<and> (\<forall>entry \<in> set acc. shardFor n entry = i))"

definition async_inv :: "AsyncConfig \<Rightarrow> 'v async \<Rightarrow> bool" where
  "async_inv cfg s =
     (0 < length (shards s) \<and> length (shards s) < 2 ^ 32 \<and> length (workers s) = length (shards s) \<and>
      length (accepted s) = length (shards s) \<and> length (written s) = length (shards s) \<and>
      (closing s \<longrightarrow> senders s = []) \<and>
      (\<forall>i < length (shards s). shard_ok (Buffer cfg) (length (shards s)) (coord s)
         (accepted s ! i) (written s ! i) (workers s ! i) (shards s ! i) i))"

lemma shardFor_less: "0 < n \<Longrightarrow> n < 2 ^ 32 \<Longrightarrow> shardFor n entry < n"
  by (simp add: shardFor_def unat_mod unsigned_of_nat take_bit_nat_eq_self)

lemma async_inv_init:
  "0 < Workers cfg \<Longrightarrow> Workers cfg < 2 ^ 32 \<Longrightarrow> 0 \<le> Buffer cfg \<Longrightarrow> async_inv cfg (NewAsyncRecorder cfg)"
  by (simp add: async_inv_def NewAsyncRecorder_def Let_def closing_def shard_ok_def nat_less_iff)

lemma shard_ok_send:
  "shard_ok b n c acc wr w q i \<Longrightarrow> c \<noteq> Ready \<Longrightarrow> int (length q) < b \<Longrightarrow> shardFor n entry = i \<Longrightarrow>
   shard_ok b n c (acc @ [entry]) wr w (q @ [entry]) i"
  by (cases w) (auto simp: shard_ok_def)

text \<open>A step of one worker or one sender changes one shard.\<close>

lemma async_inv_shard:
  assumes "async_inv cfg s" and "j < length (shards s)"
    and "shard_ok (Buffer cfg) (length (shards s)) (coord s) a w k q j" and "set p \<subseteq> set (senders s)"
  shows "async_inv cfg (s\<lparr>shards := (shards s)[j := q], workers := (workers s)[j := k], senders := p,
    accepted := (accepted s)[j := a], written := (written s)[j := w], dropped := d\<rparr>)"
proof -
  have "shard_ok (Buffer cfg) (length (shards s)) (coord s)
      ((accepted s)[j := a] ! i) ((written s)[j := w] ! i) ((workers s)[j := k] ! i) ((shards s)[j := q] ! i) i"
    if "i < length (shards s)" for i
    using assms that by (cases "i = j") (simp_all add: async_inv_def)
  then show ?thesis using assms(1,4) by (auto simp: async_inv_def closing_def)
qed

lemma shard_at:
  "async_inv cfg s \<Longrightarrow> i < length (workers s) \<Longrightarrow>
   shard_ok (Buffer cfg) (length (shards s)) (coord s) (accepted s ! i) (written s ! i) (workers s ! i) (shards s ! i) i \<and>
   i < length (shards s)"
  by (simp add: async_inv_def)

lemma async_inv_worker:
  assumes "async_inv cfg s" and "i < length (workers s)"
    and "shard_ok (Buffer cfg) (length (shards s)) (coord s) (accepted s ! i) w k q i"
  shows "async_inv cfg (s\<lparr>shards := (shards s)[i := q], workers := (workers s)[i := k], written := (written s)[i := w]\<rparr>)"
  using async_inv_shard [OF assms(1) _ assms(3), of "senders s" "dropped s"] shard_at [OF assms(1,2)] by simp

lemma async_inv_coord:
  assumes "async_inv cfg s" and "coord s \<noteq> Ready" and "c = Closing \<or> c = Ready \<Longrightarrow> senders s = []"
  shows "async_inv cfg (s\<lparr>coord := c\<rparr>)"
  using assms by (auto simp: async_inv_def closing_def shard_ok_def)

lemma async_inv_senders:
  assumes "async_inv cfg s" and "closing s \<Longrightarrow> p = []"
  shows "async_inv cfg (s\<lparr>senders := p, dropped := d\<rparr>)"
  using assms by (simp add: async_inv_def closing_def)

lemma async_inv_step:
  assumes "async_step cfg s t" and "async_inv cfg s"
  shows "async_inv cfg t"
  using assms
proof (induction rule: async_step.induct)
  case (enter s entry)
  then show ?case
    using async_inv_senders [of cfg s "senders s" "dropped s @ [entry]"]
      async_inv_senders [of cfg s "entry # senders s" "dropped s"]
    by (auto simp: Record_enter_def async_inv_def)
next
  case (send entry s)
  let ?i = "shardFor (length (shards s)) entry"
  have i: "?i < length (shards s)" "?i < length (workers s)"
    using send.prems by (auto simp: async_inv_def intro: shardFor_less)
  have nc: "\<not> closing s" using send.prems send.hyps(1) by (auto simp: async_inv_def)
  note at = shard_at [OF send.prems i(2)]
  have "shard_ok (Buffer cfg) (length (shards s)) (coord s) (accepted s ! ?i @ [entry]) (written s ! ?i) (workers s ! ?i) (shards s ! ?i @ [entry]) ?i"
    using at send.hyps(2) nc by (intro shard_ok_send) (auto simp: closing_def)
  from async_inv_shard [OF send.prems i(1) this, of "remove1 entry (senders s)" "dropped s"] show ?case
    by (simp add: Record_send_def Let_def set_remove1_subset)
next
  case (full entry s)
  then show ?case using async_inv_senders [of cfg s "remove1 entry (senders s)"] by (auto simp: async_drop_def async_inv_def)
next
  case (give_up entry s)
  then show ?case using async_inv_senders [of cfg s "remove1 entry (senders s)"] by (auto simp: async_drop_def async_inv_def)
next
  case (cancelled s)
  then show ?case by (simp add: async_inv_def closing_def)
next
  case (close_done s)
  then show ?case by (intro async_inv_coord) auto
next
  case (lock s)
  then show ?case by (intro async_inv_coord) auto
next
  case (drain_ready s)
  then show ?case by (intro async_inv_coord) (auto simp: async_inv_def closing_def)
next
  case (take_job i s)
  then show ?case
    using async_inv_worker [OF take_job.prems take_job.hyps(1), of "written s ! i" "Writing (hd (shards s ! i)) False" "tl (shards s ! i)"]
      shard_at [OF take_job.prems take_job.hyps(1)]
    by (cases "shards s ! i") (auto simp: receive_def shard_ok_def)
next
  case (wrote i s entry d)
  then show ?case
    using async_inv_worker [OF wrote.prems wrote.hyps(1), of "written s ! i @ [entry]" "if d then Draining else Selecting" "shards s ! i"]
      shard_at [OF wrote.prems wrote.hyps(1)]
    by (auto simp: async_write_def shard_ok_def)
next
  case (stopping i s)
  then show ?case
    using async_inv_worker [OF stopping.prems stopping.hyps(1), of "written s ! i" Waiting "shards s ! i"]
      shard_at [OF stopping.prems stopping.hyps(1)]
    by (auto simp: shard_ok_def)
next
  case (drain_on i s)
  then show ?case
    using async_inv_worker [OF drain_on.prems drain_on.hyps(1), of "written s ! i" Draining "shards s ! i"]
      shard_at [OF drain_on.prems drain_on.hyps(1)]
    by (auto simp: shard_ok_def)
next
  case (drain_job i s)
  then show ?case
    using async_inv_worker [OF drain_job.prems drain_job.hyps(1), of "written s ! i" "Writing (hd (shards s ! i)) True" "tl (shards s ! i)"]
      shard_at [OF drain_job.prems drain_job.hyps(1)]
    by (cases "shards s ! i") (auto simp: receive_def shard_ok_def)
next
  case (drained i s)
  then show ?case
    using async_inv_worker [OF drained.prems drained.hyps(1), of "written s ! i" Returned "shards s ! i"]
      shard_at [OF drained.prems drained.hyps(1)] list_update_id [of "shards s" i]
    by (auto simp: shard_ok_def)
qed

lemma async_run_inv:
  assumes "rtranclp (async_step cfg) s t" and "async_inv cfg s"
  shows "async_inv cfg t"
  by (rule run_invariant [where I = "async_inv cfg", OF assms async_inv_step])

section \<open>Nothing is lost\<close>

lemma returned_still:
  assumes "rtranclp (async_step cfg) s t" and "async_inv cfg s" and "Start_returned s"
  shows "Start_returned t \<and> accepted t = accepted s \<and> written t = written s"
  using assms
proof (induction rule: rtranclp_induct)
  case (step t u)
  have inv: "async_inv cfg t" using async_run_inv [OF step(1,4)] .
  have ret: "workers t ! i = Returned" if "i < length (workers t)" for i
    using step that by (auto simp: Start_returned_def)
  have "length (workers t) > 0" using inv by (simp add: async_inv_def)
  then have "coord t = Ready" using shard_at [OF inv, of 0] ret [of 0] by (auto simp: shard_ok_def)
  then have "senders t = []" using inv by (simp add: async_inv_def closing_def)
  with step(2) have "workers u = workers t \<and> accepted u = accepted t \<and> written u = written t"
    using ret \<open>coord t = Ready\<close> by (cases rule: async_step.cases) (auto simp: Record_enter_def closing_def)
  then show ?case using step by (simp add: Start_returned_def)
qed simp

text \<open>
  C34: Once \<open>Start\<close> of an asynchronous recorder has returned, in whatever order callers, workers
  and the shutdown ran, every entry that a shard accepted has been handed to the core, each
  once and shard by shard in the order of acceptance, the entries of one model all lie in one
  shard, and from then on no entry is accepted.
\<close>

theorem async_loses_nothing:
  assumes "rtranclp (async_step (async_defaults cfg)) (NewAsyncRecorder (async_defaults cfg)) s"
    and "Workers cfg < 2 ^ 32" and "Start_returned s"
    and "rtranclp (async_step (async_defaults cfg)) s t"
  shows "written s = accepted s \<and> accepted t = accepted s \<and> written t = written s \<and>
    (\<forall>i < length (accepted s). \<forall>entry \<in> set (accepted s ! i). shardFor (length (accepted s)) entry = i)"
proof -
  let ?cfg = "async_defaults cfg"
  have "0 < Workers ?cfg" "Workers ?cfg < 2 ^ 32" "0 \<le> Buffer ?cfg"
    using assms(2) by (auto simp: async_defaults_def Let_def)
  then have inv: "async_inv ?cfg s" using async_run_inv [OF assms(1)] async_inv_init by blast
  have at: "shard_ok (Buffer ?cfg) (length (shards s)) (coord s) (accepted s ! i) (written s ! i) Returned (shards s ! i) i"
    if "i < length (shards s)" for i
  proof -
    have "i < length (workers s)" using inv that by (simp add: async_inv_def)
    moreover from this have "workers s ! i = Returned" using assms(3) by (simp add: Start_returned_def)
    ultimately show ?thesis using shard_at [OF inv] by metis
  qed
  have "written s ! i = accepted s ! i" if "i < length (shards s)" for i
    using at [OF that] by (simp add: shard_ok_def)
  then have "written s = accepted s" using inv by (intro nth_equalityI) (auto simp: async_inv_def)
  moreover have "\<forall>i < length (accepted s). \<forall>entry \<in> set (accepted s ! i). shardFor (length (accepted s)) entry = i"
    using at inv by (simp add: shard_ok_def async_inv_def)
  ultimately show ?thesis using returned_still [OF assms(4) inv assms(3)] by simp
qed

definition example_async :: AsyncConfig where
  "example_async = \<lparr>Workers = 1, Buffer = 1, BlockOnFull = False\<rparr>"

definition example_entry :: "unit NewAuditLog" where
  "example_entry = \<lparr>in_ModelID = ''1'', in_ModelType = ''w'', in_Method = [], in_Path = [], in_Payload = (), in_CreatedBy = []\<rparr>"

lemma example_async_run:
  defines "s \<equiv> \<lparr>shards = [[]], workers = [Returned], senders = [], coord = Ready, ctx_done = True,
     accepted = [[example_entry]], written = [[example_entry]], dropped = []\<rparr>"
  shows "rtranclp (async_step (async_defaults example_async)) (NewAsyncRecorder (async_defaults example_async)) s"
proof -
  let ?cfg = "async_defaults example_async" and ?e = example_entry
  define st where "st q w p c d a wr = \<lparr>shards = [q], workers = [w], senders = p, coord = c, ctx_done = d,
     accepted = [a], written = [wr], dropped = []\<rparr>" for q :: "unit NewAuditLog list" and w p c d a wr
  have [simp]: "shardFor (Suc 0) ?e = 0" using shardFor_less [of 1 ?e] by simp
  have cfg: "?cfg = example_async" by (simp add: async_defaults_def example_async_def)
  have "NewAsyncRecorder ?cfg = st [] Selecting [] Waits False [] []"
    unfolding cfg by (simp add: NewAsyncRecorder_def example_async_def st_def)
  moreover have "async_step ?cfg (st [] Selecting [] Waits False [] []) (st [] Selecting [?e] Waits False [] [])"
    using async_step.enter [of "st [] Selecting [] Waits False [] []" ?cfg ?e] by (simp add: st_def Record_enter_def closing_def)
  moreover have "async_step ?cfg (st [] Selecting [?e] Waits False [] []) (st [?e] Selecting [] Waits False [?e] [])"
    using async_step.send [of ?e "st [] Selecting [?e] Waits False [] []" ?cfg]
    unfolding cfg by (simp add: st_def Record_send_def Let_def example_async_def)
  moreover have "async_step ?cfg (st [?e] Selecting [] Waits False [?e] []) (st [?e] Selecting [] Waits True [?e] [])"
    using async_step.cancelled [of ?cfg "st [?e] Selecting [] Waits False [?e] []"] by (simp add: st_def)
  moreover have "async_step ?cfg (st [?e] Selecting [] Waits True [?e] []) (st [?e] Waiting [] Waits True [?e] [])"
    using async_step.stopping [of 0 "st [?e] Selecting [] Waits True [?e] []" ?cfg] by (simp add: st_def)
  moreover have "async_step ?cfg (st [?e] Waiting [] Waits True [?e] []) (st [?e] Waiting [] Locking True [?e] [])"
    using async_step.close_done [of "st [?e] Waiting [] Waits True [?e] []" ?cfg] by (simp add: st_def)
  moreover have "async_step ?cfg (st [?e] Waiting [] Locking True [?e] []) (st [?e] Waiting [] Closing True [?e] [])"
    using async_step.lock [of "st [?e] Waiting [] Locking True [?e] []" ?cfg] by (simp add: st_def)
  moreover have "async_step ?cfg (st [?e] Waiting [] Closing True [?e] []) (st [?e] Waiting [] Ready True [?e] [])"
    using async_step.drain_ready [of "st [?e] Waiting [] Closing True [?e] []" ?cfg] by (simp add: st_def)
  moreover have "async_step ?cfg (st [?e] Waiting [] Ready True [?e] []) (st [?e] Draining [] Ready True [?e] [])"
    using async_step.drain_on [of 0 "st [?e] Waiting [] Ready True [?e] []" ?cfg] by (simp add: st_def)
  moreover have "async_step ?cfg (st [?e] Draining [] Ready True [?e] []) (st [] (Writing ?e True) [] Ready True [?e] [])"
    using async_step.drain_job [of 0 "st [?e] Draining [] Ready True [?e] []" ?cfg] by (simp add: st_def receive_def)
  moreover have "async_step ?cfg (st [] (Writing ?e True) [] Ready True [?e] []) (st [] Draining [] Ready True [?e] [?e])"
    using async_step.wrote [of 0 "st [] (Writing ?e True) [] Ready True [?e] []" ?e True ?cfg] by (simp add: st_def async_write_def)
  moreover have "async_step ?cfg (st [] Draining [] Ready True [?e] [?e]) (st [] Returned [] Ready True [?e] [?e])"
    using async_step.drained [of 0 "st [] Draining [] Ready True [?e] [?e]" ?cfg] by (simp add: st_def)
  moreover have "st [] Returned [] Ready True [?e] [?e] = s" by (simp add: st_def s_def)
  ultimately show ?thesis by (metis (no_types, lifting) converse_rtranclp_into_rtranclp rtranclp.rtrancl_refl)
qed

theorem async_loses_nothing_witness:
  "\<exists>s. rtranclp (async_step (async_defaults example_async)) (NewAsyncRecorder (async_defaults example_async)) s \<and>
    Start_returned s \<and> accepted s = [[example_entry]] \<and> written s = accepted s"
  using async_loses_nothing [OF example_async_run _ _ run_refl]
  by (intro exI [of _ "\<lparr>shards = [[]], workers = [Returned], senders = [], coord = Ready, ctx_done = True,
     accepted = [[example_entry]], written = [[example_entry]], dropped = []\<rparr>"] conjI example_async_run)
    (simp_all add: Start_returned_def example_async_def)

end
