(* ===== verification/Page_Order.thy ===== *)
theory Page_Order
  imports Go_Strconv
begin

text \<open>
  The packages \<open>page\<close> (offset paging in \<open>page.go\<close>, cursor paging in \<open>cursor.go\<close>, with the
  unpadded URL alphabet of \<open>encoding/base64\<close>) and \<open>order\<close> (\<open>order.go\<close>).
\<close>

section \<open>Pages\<close>

definition DefaultPageNumber :: int where "DefaultPageNumber = 1"
definition DefaultRowsPerPage :: int where "DefaultRowsPerPage = 10"
definition MaxRowsPerPage :: int where "MaxRowsPerPage = 100"

record page =
  number :: int
  rows :: int

text \<open>The error of \<open>strconv.Atoi\<close>.\<close>

definition atoi_error :: "string \<Rightarrow> go_error" where
  "atoi_error s =
     (let digits = (case s of c # cs \<Rightarrow> if c = CHR ''-'' \<or> c = CHR ''+'' then cs else s | [] \<Rightarrow> []);
          what = (if read_digits digits = None then ''invalid syntax'' else ''value out of range'')
      in wrap_err (''strconv.Atoi: parsing '' @ go_quote s) (Sentinel what))"

definition parse_number :: "string \<Rightarrow> int \<Rightarrow> string \<Rightarrow> go_error + int" where
  "parse_number what dflt s =
     (if s = [] then Inr dflt
      else case Atoi s of None \<Rightarrow> Inl (wrap_err what (atoi_error s)) | Some n \<Rightarrow> Inr n)"

definition page_Parse :: "string \<Rightarrow> string \<Rightarrow> go_error + page" where
  "page_Parse pg rowsPerPage =
     (case parse_number ''page conversion'' DefaultPageNumber pg of
        Inl e \<Rightarrow> Inl e
      | Inr n \<Rightarrow>
          (case parse_number ''rows conversion'' DefaultRowsPerPage rowsPerPage of
             Inl e \<Rightarrow> Inl e
           | Inr r \<Rightarrow>
               if n \<le> 0 then Inl (Plain ''page value too small, must be larger than 0'')
               else if r \<le> 0 then Inl (Plain ''rows value too small, must be larger than 0'')
               else if r > MaxRowsPerPage
               then Inl (Plain (''rows value too large, must be '' @ show_int MaxRowsPerPage @ '' or less''))
               else if n - 1 > max_int64 div r then Inl (Plain ''page value too large'')
               else Inr \<lparr>number = n, rows = r\<rparr>))"

definition page_MustParse :: "string \<Rightarrow> string \<Rightarrow> page outcome" where
  "page_MustParse pg rowsPerPage =
     (case page_Parse pg rowsPerPage of Inl e \<Rightarrow> Panics (err_text e) | Inr p \<Rightarrow> Ret p)"

definition clamp_rows :: "int \<Rightarrow> int" where
  "clamp_rows r = (if r \<le> 0 then DefaultRowsPerPage else if r > MaxRowsPerPage then MaxRowsPerPage else r)"

definition page_New :: "int \<Rightarrow> int \<Rightarrow> page" where
  "page_New n rowsPerPage =
     \<lparr>number = (if n < 1 then DefaultPageNumber else n), rows = clamp_rows rowsPerPage\<rparr>"

definition page_String :: "page \<Rightarrow> string" where
  "page_String p = ''page: '' @ show_int (number p) @ '' rows: '' @ show_int (rows p)"

definition Offset :: "page \<Rightarrow> int" where
  "Offset p = wrap64 ((number p - 1) * rows p)"

section \<open>Cursors\<close>

text \<open>The digits of a byte string in base 64, and the alphabet of \<open>base64.RawURLEncoding\<close>.\<close>

definition b64_char :: "nat \<Rightarrow> char" where
  "b64_char d =
     char_of (if d < 26 then 65 + d else if d < 52 then 71 + d else if d < 62 then d - 4
              else if d = 62 then 45 else 95)"

definition b64_digit :: "char \<Rightarrow> nat option" where
  "b64_digit c =
     (let n = of_char c :: nat
      in if 65 \<le> n \<and> n \<le> 90 then Some (n - 65)
         else if 97 \<le> n \<and> n \<le> 122 then Some (n - 71)
         else if 48 \<le> n \<and> n \<le> 57 then Some (n + 4)
         else if n = 45 then Some 62 else if n = 95 then Some 63 else None)"

fun b64_digits :: "nat list \<Rightarrow> nat list" where
  "b64_digits [] = []"
| "b64_digits [a] = [a div 4, (a mod 4) * 16]"
| "b64_digits [a, b] = [a div 4, (a mod 4) * 16 + b div 16, (b mod 16) * 4]"
| "b64_digits (a # b # c # bs) =
     [a div 4, (a mod 4) * 16 + b div 16, (b mod 16) * 4 + c div 64, c mod 64] @ b64_digits bs"

definition EncodeToString :: "string \<Rightarrow> string" where
  "EncodeToString s = map b64_char (b64_digits (map of_char s))"

text \<open>
  The decoder: the bytes of a group of digits; line breaks in the text are skipped, and an error
  names the position of the byte.
\<close>

fun b64_bytes :: "nat list \<Rightarrow> nat list" where
  "b64_bytes [a, b] = [a * 4 + b div 16]"
| "b64_bytes [a, b, c] = [a * 4 + b div 16, (b mod 16) * 16 + c div 4]"
| "b64_bytes [a, b, c, d] = [a * 4 + b div 16, (b mod 16) * 16 + c div 4, (c mod 4) * 64 + d]"
| "b64_bytes _ = []"

definition corrupt :: "nat \<Rightarrow> go_error" where
  "corrupt n = Plain (''illegal base64 data at input byte '' @ show_nat n)"

fun decode_loop :: "nat \<Rightarrow> nat list \<Rightarrow> string \<Rightarrow> go_error + nat list" where
  "decode_loop si ds [] =
     (if length ds = 1 then Inl (corrupt (si - 1)) else Inr (b64_bytes ds))"
| "decode_loop si ds (c # cs) =
     (if c = CHR 0x0A \<or> c = CHR 0x0D then decode_loop (si + 1) ds cs
      else case b64_digit c of
        None \<Rightarrow> Inl (corrupt si)
      | Some d \<Rightarrow>
          if length ds = 3
          then (case decode_loop (si + 1) [] cs of
                  Inl e \<Rightarrow> Inl e | Inr bs \<Rightarrow> Inr (b64_bytes (ds @ [d]) @ bs))
          else decode_loop (si + 1) (ds @ [d]) cs)"

definition DecodeString :: "string \<Rightarrow> go_error + string" where
  "DecodeString s = (case decode_loop 0 [] s of Inl e \<Rightarrow> Inl e | Inr bs \<Rightarrow> Inr (map char_of bs))"

record cursor =
  token :: string
  limit :: int

definition NewCursor :: "string \<Rightarrow> int \<Rightarrow> cursor" where
  "NewCursor tok lim = \<lparr>token = tok, limit = clamp_rows lim\<rparr>"

definition cursor_Key :: "cursor \<Rightarrow> go_error + string" where
  "cursor_Key c =
     (if token c = [] then Inr []
      else case DecodeString (token c) of
        Inl e \<Rightarrow> Inl (wrap_err ''page: invalid cursor'' e)
      | Inr raw \<Rightarrow> Inr raw)"

definition EncodeCursor :: "string \<Rightarrow> string" where
  "EncodeCursor key = (if key = [] then [] else EncodeToString key)"

section \<open>Orders\<close>

definition ASC :: string where "ASC = ''ASC''"
definition DESC :: string where "DESC = ''DESC''"

definition directions :: "string list" where
  "directions = [ASC, DESC]"

record By =
  Field :: string
  Direction :: string

definition NewBy :: "string \<Rightarrow> string \<Rightarrow> By" where
  "NewBy field direction =
     (if direction \<notin> set directions then \<lparr>Field = field, Direction = ASC\<rparr>
      else \<lparr>Field = field, Direction = direction\<rparr>)"

text \<open>The map of the allowed names is an association list.\<close>

definition order_Parse :: "(string \<times> string) list \<Rightarrow> string \<Rightarrow> By \<Rightarrow> go_error + By" where
  "order_Parse allowed orderBy def =
     (if orderBy = [] then Inr def
      else let parts = split_on CHR '','' orderBy; name = trim_space (parts ! 0)
           in case map_of allowed name of
                None \<Rightarrow> Inl (Plain (''order: unknown field '' @ go_quote name))
              | Some field \<Rightarrow>
                  (if length parts = 1 then Inr (NewBy field ASC)
                   else if length parts = 2
                   then (let direction = trim_space (parts ! 1)
                         in if direction \<notin> set directions
                            then Inl (Plain (''order: unknown direction '' @ go_quote direction))
                            else Inr (NewBy field direction))
                   else Inl (Plain (''order: malformed order '' @ go_quote orderBy))))"

section \<open>Properties\<close>

lemma int_le_div_iff:
  assumes "0 < (r :: int)" shows "x \<le> a div r \<longleftrightarrow> x * r \<le> a"
proof
  assume "x \<le> a div r"
  then have "x * r \<le> (a div r) * r" using assms by (intro mult_right_mono) auto
  also have "\<dots> \<le> a" using assms div_mult_mod_eq [of a r] pos_mod_sign [of r a] by linarith
  finally show "x * r \<le> a" .
next
  assume "x * r \<le> a"
  then have "(x * r) div r \<le> a div r" using assms by (intro zdiv_mono1)
  then show "x \<le> a div r" using assms by simp
qed

lemma parse_number_range: "parse_number what d s = Inr n \<Longrightarrow> in_int64 d \<Longrightarrow> in_int64 n"
  by (auto simp: parse_number_def Atoi_def Let_def split: if_splits option.splits list.splits)

text \<open>
  C35: A page that \<open>Parse\<close> accepts is well formed: its number is at least 1, its size between 1
  and 100, both the ones the texts name (or the defaults), and its offset is the exact product,
  which has not wrapped. \<open>Parse\<close> accepts every such pair of texts.
\<close>

theorem page_Parse_type:
  "page_Parse pg rowsPerPage = Inr p \<longleftrightarrow>
     parse_number ''page conversion'' DefaultPageNumber pg = Inr (number p) \<and>
     parse_number ''rows conversion'' DefaultRowsPerPage rowsPerPage = Inr (rows p) \<and>
     1 \<le> number p \<and> 1 \<le> rows p \<and> rows p \<le> 100 \<and> (number p - 1) * rows p \<le> max_int64 \<and>
     Offset p = (number p - 1) * rows p \<and> 0 \<le> Offset p"
proof -
  have off: "Offset p = (number p - 1) * rows p" "0 \<le> Offset p"
    if "1 \<le> number p" "1 \<le> rows p" "(number p - 1) * rows p \<le> max_int64"
  proof -
    have "0 \<le> (number p - 1) * rows p" using that by simp
    moreover from this have "in_int64 ((number p - 1) * rows p)" using that(3) by (simp add: in_int64_def)
    ultimately show "Offset p = (number p - 1) * rows p" "0 \<le> Offset p" by (simp_all add: Offset_def)
  qed
  have "page_Parse pg rowsPerPage = Inr p \<longleftrightarrow>
     parse_number ''page conversion'' DefaultPageNumber pg = Inr (number p) \<and>
     parse_number ''rows conversion'' DefaultRowsPerPage rowsPerPage = Inr (rows p) \<and>
     1 \<le> number p \<and> 1 \<le> rows p \<and> rows p \<le> 100 \<and> (number p - 1) * rows p \<le> max_int64"
  proof -
    have D: "9223372036854775807 div r < n - 1 \<longleftrightarrow> \<not> (n - 1) * r \<le> 9223372036854775807" if "1 \<le> r" for n r :: int
      using int_le_div_iff [of r "n - 1" 9223372036854775807] that by auto
    show ?thesis
      unfolding page_Parse_def MaxRowsPerPage_def
      by (cases p; cases "parse_number ''page conversion'' DefaultPageNumber pg";
          cases "parse_number ''rows conversion'' DefaultRowsPerPage rowsPerPage")
        (simp_all only: sum.case, auto simp: D)
  qed
  then show ?thesis using off by blast
qed

lemma page_New_wraps: "Offset (page_New (2 ^ 62) 100) \<noteq> (2 ^ 62 - 1) * 100 \<and> Offset (page_New (2 ^ 62) 100) < 0"
  by (simp add: Offset_def page_New_def clamp_rows_def MaxRowsPerPage_def DefaultRowsPerPage_def wrap64_def)

lemma b64_char_code:
  assumes "d < 64"
  shows "(of_char (b64_char d) :: nat) =
    (if d < 26 then 65 + d else if d < 52 then 71 + d else if d < 62 then d - 4 else if d = 62 then 45 else 95)"
  using assms by (simp add: b64_char_def)

lemma b64_char_digit:
  assumes "d < 64"
  shows "b64_digit (b64_char d) = Some d" and "b64_char d \<noteq> CHR 0x0A" and "b64_char d \<noteq> CHR 0x0D"
proof -
  show "b64_digit (b64_char d) = Some d"
    unfolding b64_digit_def Let_def b64_char_code [OF assms] using assms by simp arith
  have "45 \<le> (of_char (b64_char d) :: nat)" unfolding b64_char_code [OF assms] by simp arith
  then show "b64_char d \<noteq> CHR 0x0A" "b64_char d \<noteq> CHR 0x0D" by auto
qed

lemma b64_digits_less: "\<forall>b \<in> set bs. b < 256 \<Longrightarrow> \<forall>d \<in> set (b64_digits bs). d < 64"
  by (induction bs rule: b64_digits.induct) auto

lemma decode_digit:
  "d < 64 \<Longrightarrow> decode_loop si ds (b64_char d # cs) =
    (if length ds = 3
     then (case decode_loop (si + 1) [] cs of Inl e \<Rightarrow> Inl e | Inr bs \<Rightarrow> Inr (b64_bytes (ds @ [d]) @ bs))
     else decode_loop (si + 1) (ds @ [d]) cs)"
  using b64_char_digit [of d] by simp

lemma decode_digits: "\<forall>b \<in> set bs. b < 256 \<Longrightarrow> decode_loop si [] (map b64_char (b64_digits bs)) = Inr bs"
proof (induction bs arbitrary: si rule: b64_digits.induct)
  case (2 a)
  then have "a div 4 < 64" "(a mod 4) * 16 < 64" by auto
  then show ?case by (simp add: decode_digit del: decode_loop.simps(2))
next
  case (3 a b)
  then have "a div 4 < 64" "(a mod 4) * 16 + b div 16 < 64" "(b mod 16) * 4 < 64" "b div 16 < 16" by auto
  then show ?case by (simp add: decode_digit del: decode_loop.simps(2))
next
  case (4 a b c bs)
  then have "a div 4 < 64" "(a mod 4) * 16 + b div 16 < 64" "(b mod 16) * 4 + c div 64 < 64" "c mod 64 < 64"
    "b div 16 < 16" "c div 64 < 4" by auto
  then show ?case using 4 by (simp add: decode_digit del: decode_loop.simps(2))
qed simp

text \<open>
  C36: The cursor round trip: the key that a store packs into a token with \<open>EncodeCursor\<close> is the
  key it reads back from a cursor with that token, for every byte string, and the limit of the
  cursor is between 1 and 100.
\<close>

theorem cursor_roundtrip:
  "cursor_Key (NewCursor (EncodeCursor key) lim) = Inr key \<and>
   1 \<le> limit (NewCursor (EncodeCursor key) lim) \<and> limit (NewCursor (EncodeCursor key) lim) \<le> 100"
proof -
  have "cursor_Key (NewCursor (EncodeCursor key) lim) = Inr key"
  proof (cases "key = []")
    case False
    then have "b64_digits (map of_char key) \<noteq> []"
      by (cases "map of_char key :: nat list" rule: b64_digits.cases) auto
    moreover have "decode_loop 0 [] (EncodeToString key) = Inr (map of_char key)"
      unfolding EncodeToString_def by (rule decode_digits) auto
    ultimately show ?thesis
      using False by (simp add: cursor_Key_def NewCursor_def EncodeCursor_def EncodeToString_def DecodeString_def comp_def)
  qed (simp add: cursor_Key_def NewCursor_def EncodeCursor_def)
  then show ?thesis
    by (simp add: NewCursor_def clamp_rows_def DefaultRowsPerPage_def MaxRowsPerPage_def)
qed

text \<open>An order comes from the allowed columns or is the default, with a known direction.\<close>

lemma order_Parse_allowed:
  "order_Parse allowed orderBy def = Inr b \<Longrightarrow>
   b = def \<or> (Field b \<in> snd ` set allowed \<and> Direction b \<in> {ASC, DESC})"
  by (force simp: order_Parse_def NewBy_def directions_def Let_def split: if_splits option.splits dest: map_of_SomeD)

end
