(* ===== verification/Closer.thy ===== *)
theory Closer
  imports Go_Prelude
begin

text \<open>
  The package \<open>closer\<close>: registering shutdown handlers and running them once, in turn in the
  reverse order (\<open>CloseSync\<close>) or concurrently (\<open>Close\<close>). A handler is a function on the state of
  the program that may fail or panic. Signals and log records are left out.
\<close>

section \<open>Definitions\<close>

type_synonym 'w handler = "'w \<Rightarrow> err outcome \<times> 'w"

text \<open>\<open>once\<close> says that the body given to \<open>sync.Once\<close> has run.\<close>

record 'w closer =
  fns :: "'w handler list"
  closed :: bool
  once :: bool

definition closer_New :: "'w closer" where
  "closer_New = \<lparr>fns = [], closed = False, once = False\<rparr>"

text \<open>A nil function is \<open>None\<close>.\<close>

definition closer_add :: "'w handler option \<Rightarrow> 'w closer \<Rightarrow> 'w closer" where
  "closer_add fn c =
     (case fn of
        None \<Rightarrow> c
      | Some f \<Rightarrow> if closed c then c else c\<lparr>fns := fns c @ [f]\<rparr>)"

text \<open>The function that \<open>addNamed\<close> registers calls \<open>fn\<close>, also when it is nil.\<close>

definition nil_call :: string where
  "nil_call = ''runtime error: invalid memory address or nil pointer dereference''"

definition closer_addNamed :: "'w handler option \<Rightarrow> 'w closer \<Rightarrow> 'w closer" where
  "closer_addNamed fn c =
     closer_add (Some (\<lambda>w.
       case (case fn of Some f \<Rightarrow> f w | None \<Rightarrow> (Panics nil_call, w)) of
         (Ret (Some e), w) \<Rightarrow> (Ret (Some e), w)
       | (Ret None, w) \<Rightarrow> (Ret None, w)
       | (Panics v, w) \<Rightarrow> (Panics v, w))) c"

text \<open>The copy in reverse, element by element, and the reset of the closer.\<close>

fun reverse_into :: "nat \<Rightarrow> nat \<Rightarrow> 'a list \<Rightarrow> 'a option list \<Rightarrow> 'a option list" where
  "reverse_into n i [] funcs = funcs"
| "reverse_into n i (f # fs) funcs = reverse_into n (i + 1) fs (funcs[n - 1 - i := Some f])"

definition copyAndReverseHandlers :: "'w closer \<Rightarrow> 'w handler option list \<times> 'w closer" where
  "copyAndReverseHandlers c =
     (reverse_into (length (fns c)) 0 (fns c) (replicate (length (fns c)) None),
      c\<lparr>fns := [], closed := True\<rparr>)"

text \<open>One handler, with the recovery of its panic; the errors it adds.\<close>

definition run_handler :: "'w handler \<Rightarrow> 'w \<Rightarrow> go_error list \<times> 'w" where
  "run_handler f w =
     (case f w of
        (Ret None, w) \<Rightarrow> ([], w)
      | (Ret (Some e), w) \<Rightarrow> ([e], w)
      | (Panics v, w) \<Rightarrow> ([Plain (''panic recovered in closer: '' @ v)], w))"

fun run_handlers :: "'w handler option list \<Rightarrow> 'w \<Rightarrow> go_error list \<times> 'w" where
  "run_handlers [] w = ([], w)"
| "run_handlers (None # fs) w = run_handlers fs w"
| "run_handlers (Some f # fs) w =
     (case run_handler f w of (es, w) \<Rightarrow> (case run_handlers fs w of (es', w) \<Rightarrow> (es @ es', w)))"

definition errors_Join :: "go_error list \<Rightarrow> err" where
  "errors_Join es = (if es = [] then None else Some (Wrap_Many (join [CHR 0x0A] (map err_text es)) es))"

definition CloseSync :: "'w closer \<Rightarrow> 'w \<Rightarrow> err \<times> 'w closer \<times> 'w" where
  "CloseSync c w =
     (if once c then (None, c, w)
      else case copyAndReverseHandlers c of (funcs, c) \<Rightarrow>
        (case run_handlers funcs w of (es, w) \<Rightarrow> (errors_Join es, c\<lparr>once := True\<rparr>, w)))"

text \<open>
  \<open>Close\<close> starts the handlers together. Each one is taken to act at once, in an order the
  argument gives, in which their errors also arrive.
\<close>

definition Close :: "(nat \<Rightarrow> nat list) \<Rightarrow> 'w closer \<Rightarrow> 'w \<Rightarrow> err \<times> 'w closer \<times> 'w" where
  "Close order c w =
     (if once c then (None, c, w)
      else case copyAndReverseHandlers c of (funcs, c) \<Rightarrow>
        (case run_handlers (map (\<lambda>i. funcs ! i) (order (length funcs))) w of
           (es, w) \<Rightarrow> (errors_Join es, c\<lparr>once := True\<rparr>, w)))"

section \<open>Lemmas\<close>

lemma reverse_into_rev:
  "i + length fs = n \<Longrightarrow> length funcs = n \<Longrightarrow>
   reverse_into n i fs funcs = map Some (rev fs) @ drop (length fs) funcs"
proof (induction fs arbitrary: i funcs)
  case (Cons f fs)
  have i: "n - 1 - i = length fs" using Cons.prems by simp
  have "reverse_into n i (f # fs) funcs = map Some (rev fs) @ drop (length fs) (funcs[length fs := Some f])"
    unfolding reverse_into.simps i using Cons by (intro Cons.IH) auto
  also have "drop (length fs) (funcs[length fs := Some f]) = Some f # drop (Suc (length fs)) funcs"
    using Cons.prems by (simp add: Cons_nth_drop_Suc [symmetric])
  finally show ?case by simp
qed simp

lemma copyAndReverse_rev [simp]:
  "copyAndReverseHandlers c = (map Some (rev (fns c)), c\<lparr>fns := [], closed := True\<rparr>)"
  by (simp add: copyAndReverseHandlers_def reverse_into_rev)

lemma closer_addNamed_some [simp]: "closer_addNamed (Some f) c = closer_add (Some f) c"
proof -
  have "(\<lambda>w. case f w of (Ret None, w) \<Rightarrow> (Ret None, w) | (Ret (Some e), w) \<Rightarrow> (Ret (Some e), w) | (Panics v, w) \<Rightarrow> (Panics v, w)) = f"
    by (rule ext) (auto split: prod.splits outcome.splits option.splits)
  then show ?thesis by (simp add: closer_addNamed_def)
qed

section \<open>What closing must do\<close>

text \<open>A registration by \<open>Add\<close> or \<open>AddNamed\<close>, and the handler it stands for: a nil function of \<open>Add\<close> none,
  one of \<open>AddNamed\<close> a call that panics.\<close>

datatype 'w registration = Via_Add "'w handler option" | Via_AddNamed "'w handler option"

fun register :: "'w registration \<Rightarrow> 'w closer \<Rightarrow> 'w closer" where
  "register (Via_Add h) c = closer_add h c"
| "register (Via_AddNamed h) c = closer_addNamed h c"

fun stands_for :: "'w registration \<Rightarrow> 'w handler list" where
  "stands_for (Via_Add None) = []"
| "stands_for (Via_AddNamed None) = [\<lambda>w. (Panics nil_call, w)]"
| "stands_for (Via_Add (Some f)) = [f]"
| "stands_for (Via_AddNamed (Some f)) = [f]"

text \<open>
  The state in which the handler at a place in a sequence runs when every earlier one has run, and
  the error that a handler counts as in a state.
\<close>

definition state_at :: "'w handler list \<Rightarrow> 'w \<Rightarrow> nat \<Rightarrow> 'w" where
  "state_at fs w i = fold (\<lambda>f w. snd (f w)) (take i fs) w"

definition failure :: "'w handler \<Rightarrow> 'w \<Rightarrow> err" where
  "failure f w = (case fst (f w) of Ret e \<Rightarrow> e | Panics v \<Rightarrow> Some (Plain (''panic recovered in closer: '' @ v)))"

section \<open>Proofs\<close>

lemma closer_addNamed_none [simp]: "closer_addNamed None c = closer_add (Some (\<lambda>w. (Panics nil_call, w))) c"
  by (simp add: closer_addNamed_def)

lemma fold_register:
  "\<not> closed c \<Longrightarrow> fold register rs c = c\<lparr>fns := fns c @ concat (map stands_for rs)\<rparr>"
proof (induction rs arbitrary: c)
  case (Cons r rs)
  have "register r c = c\<lparr>fns := fns c @ stands_for r\<rparr>"
    using Cons.prems by (cases r rule: stands_for.cases) (simp_all add: closer_add_def)
  then show ?case using Cons by simp
qed simp

lemma run_handler_failure:
  "run_handler f w = (case failure f w of None \<Rightarrow> [] | Some e \<Rightarrow> [e], snd (f w))"
  by (auto simp: run_handler_def failure_def split: prod.splits outcome.splits option.splits)

lemma run_handlers_all:
  "run_handlers (map Some fs) w =
     (concat (map (\<lambda>i. case failure (fs ! i) (state_at fs w i) of None \<Rightarrow> [] | Some e \<Rightarrow> [e]) [0..<length fs]),
      state_at fs w (length fs))"
proof (induction fs arbitrary: w)
  case (Cons f fs)
  have "state_at (f # fs) w (Suc i) = state_at fs (snd (f w)) i" for i by (simp add: state_at_def)
  then have "run_handlers (map Some fs) (snd (f w)) =
      (concat (map (\<lambda>i. case failure ((f # fs) ! i) (state_at (f # fs) w i) of None \<Rightarrow> [] | Some e \<Rightarrow> [e])
         (map Suc [0..<length fs])), state_at (f # fs) w (Suc (length fs)))"
    using Cons.IH [of "snd (f w)"] by (simp add: o_def)
  moreover have "state_at (f # fs) w 0 = w" by (simp add: state_at_def)
  ultimately show ?case
    by (simp add: run_handler_failure map_Suc_upt upt_conv_Cons del: upt_Suc)
qed (simp add: state_at_def)

text \<open>
  C37: the handlers registered with \<open>Add\<close> and \<open>AddNamed\<close>, nil functions of \<open>Add\<close> apart, run exactly
  once. The first \<open>CloseSync\<close> runs them all in the reverse order of their registration, each in the
  state the previous one left, whether or not that one failed or panicked. The errors of those
  that failed and the recovered panics, a nil function given to \<open>AddNamed\<close> among them, come back in
  that order, all of them, joined as \<open>errors.Join\<close> does, or nil when there is none. From then on
  registering changes nothing, and closing, in either way, runs nothing and returns nil.
\<close>

theorem CloseSync_lifo_once:
  fixes rs :: "'w registration list" and w :: 'w
  defines "fs \<equiv> rev (concat (map stands_for rs))"
  defines "es \<equiv> concat (map (\<lambda>i. case failure (fs ! i) (state_at fs w i) of None \<Rightarrow> [] | Some e \<Rightarrow> [e]) [0..<length fs])"
  shows "\<exists>c'. CloseSync (fold register rs closer_New) w =
      (if es = [] then None else Some (Wrap_Many (join [CHR 0x0A] (map err_text es)) es), c', state_at fs w (length fs)) \<and>
    (\<forall>r. register r c' = c') \<and>
    (\<forall>w' order. CloseSync c' w' = (None, c', w') \<and> Close order c' w' = (None, c', w'))"
proof -
  have c: "fold register rs closer_New = \<lparr>fns = rev fs, closed = False, once = False\<rparr>"
    by (simp add: fold_register fs_def closer_New_def)
  have "register r \<lparr>fns = [], closed = True, once = True\<rparr> = \<lparr>fns = [], closed = True, once = True\<rparr>" for r :: "'w registration"
    by (cases r) (auto simp: closer_add_def closer_addNamed_def split: option.splits)
  then show ?thesis
    by (intro exI [of _ "\<lparr>fns = [], closed = True, once = True\<rparr>"])
      (simp add: c CloseSync_def Close_def run_handlers_all errors_Join_def flip: es_def)
qed

text \<open>Both ways of closing run the same handlers when the order of the second is that of the first.\<close>

lemma Close_in_order: "Close (\<lambda>n. [0..<n]) c w = CloseSync c w"
proof -
  have "map (\<lambda>i. map Some (rev (fns c)) ! i) [0..<length (map Some (rev (fns c)))] = map Some (rev (fns c))"
    by (rule map_nth)
  then show ?thesis unfolding Close_def CloseSync_def copyAndReverse_rev prod.case by (simp only:)
qed

end
