(* ===== verification/Translation_Tags.thy ===== *)
theory Translation_Tags
  imports Go_Prelude
begin

text \<open>
  The walk over the tags of a model, \<open>translation/parser.go\<close>, with the types of
  \<open>translation/types.go\<close> and the errors of \<open>translation/errors.go\<close>. What the code sees through
  \<open>reflect\<close> is data here: a declaration lists the fields of each struct type, and a heap holds the
  objects that pointers and slices refer to. A model is handed over as a pointer.
\<close>

section \<open>Types and values\<close>

text \<open>\<open>T_kind\<close> is a type of any other kind, by the name of the kind.\<close>

datatype gtype = T_string | T_ptr gtype | T_struct string | T_slice gtype | T_kind string

record gfield =
  f_name :: string
  f_tag :: string
  f_type :: gtype

type_synonym decls = "(string \<times> gfield list) list"

fun kind_text :: "gtype \<Rightarrow> string" where
  "kind_text T_string = ''string''"
| "kind_text (T_ptr t) = ''ptr''"
| "kind_text (T_struct s) = ''struct''"
| "kind_text (T_slice t) = ''slice''"
| "kind_text (T_kind k) = k"

fun elem :: "gtype \<Rightarrow> gtype" where
  "elem (T_ptr t) = t"
| "elem t = t"

text \<open>
  A value: a string, a pointer (\<open>None\<close> is nil), an inline struct, a slice whose elements, if they
  are models, lie at addresses of their own (\<open>None\<close> is a nil element), or any other value with
  its text under \<open>%v\<close> and whether it is zero.
\<close>

datatype gval =
    G_str string
  | G_ptr "nat option"
  | G_struct "(string \<times> gval) list"
  | G_slice bool "nat option list"
  | G_other string string bool

type_synonym heap = "nat \<Rightarrow> gval option"

fun kind_of :: "gval \<Rightarrow> string" where
  "kind_of (G_str s) = ''string''"
| "kind_of (G_ptr a) = ''ptr''"
| "kind_of (G_struct fs) = ''struct''"
| "kind_of (G_slice m xs) = ''slice''"
| "kind_of (G_other k text z) = k"

text \<open>\<open>Value.IsZero\<close>; a slice is zero when it is nil, which the model does not tell from empty.\<close>

fun is_zero :: "gval \<Rightarrow> bool" and fields_zero :: "(string \<times> gval) list \<Rightarrow> bool" where
  "is_zero (G_str s) = (s = [])"
| "is_zero (G_ptr a) = (a = None)"
| "is_zero (G_struct fs) = fields_zero fs"
| "is_zero (G_slice m xs) = (xs = [])"
| "is_zero (G_other k text z) = z"
| "fields_zero [] = True"
| "fields_zero ((n, v) # fs) = (is_zero v \<and> fields_zero fs)"

text \<open>Names whose first letter is a capital are exported (of ASCII).\<close>

definition exported :: "string \<Rightarrow> bool" where
  "exported n = (case n of [] \<Rightarrow> False | c # _ \<Rightarrow> 65 \<le> (of_char c :: nat) \<and> (of_char c :: nat) \<le> 90)"

section \<open>Errors\<close>

definition ErrTranslationNotFound :: string where "ErrTranslationNotFound = ''translation not found''"
definition ErrInvalidLanguage :: string where "ErrInvalidLanguage = ''invalid language''"
definition ErrInvalidTag :: string where "ErrInvalidTag = ''invalid translate tag''"
definition ErrNoPrimaryKey :: string where
  "ErrNoPrimaryKey = ''no primary key field found with translate:'' @ go_quote ''primary'' @ '' tag''"
definition ErrMultiplePrimaryKeys :: string where
  "ErrMultiplePrimaryKeys = ''multiple primary key fields found''"

section \<open>Tags\<close>

definition translateTagOmitCheck :: string where "translateTagOmitCheck = ''omitcheck''"

definition invalid_tag :: "string \<Rightarrow> go_error" where
  "invalid_tag text = Wrapf (ErrInvalidTag @ '': '' @ text) (Sentinel ErrInvalidTag)"

lemma cut_shorter: "cut sep s = (a, b, found) \<Longrightarrow> sep \<noteq> [] \<Longrightarrow> s \<noteq> [] \<Longrightarrow> length b < length s"
proof (induction sep s arbitrary: a b found rule: cut.induct)
  case (2 sep c cs)
  show ?case
  proof (cases "cut_prefix sep (c # cs)")
    case None
    then show ?thesis
      using 2 by (cases cs; cases sep) (auto split: prod.splits option.splits)
  next
    case (Some r)
    then have "c # cs = sep @ r" by (simp add: cut_prefix_Some)
    then have "length (c # cs) = length sep + length r" by (metis length_append)
    moreover have "b = r" using Some 2(2) by simp
    moreover have "0 < length sep" using 2(3) by simp
    ultimately show ?thesis by simp
  qed
qed simp

function tag_options :: "string \<Rightarrow> string \<Rightarrow> bool \<Rightarrow> go_error + bool" where
  "tag_options tag opts omitCheck =
     (if opts = [] then Inr omitCheck
      else case cut '','' opts of (opt, rest, found) \<Rightarrow>
        (if trim_space opt = translateTagOmitCheck then tag_options tag rest True
         else if trim_space opt = [] then tag_options tag rest omitCheck
         else Inl (invalid_tag (''unknown option '' @ go_quote (trim_space opt) @ '' in '' @ go_quote tag))))"
  by pat_completeness auto
termination
  by (relation "measure (\<lambda>(tag, opts, o'). length opts)") (auto dest: cut_shorter [OF sym])

declare tag_options.simps [simp del]

definition parseTranslateTag :: "string \<Rightarrow> go_error + string \<times> bool" where
  "parseTranslateTag tag =
     (case cut '','' tag of (name0, opts0, hasOpts) \<Rightarrow>
        (let name = trim_space name0; opts = trim_space opts0
         in if name = [] \<and> hasOpts \<and> opts \<noteq> []
            then Inl (invalid_tag (go_quote tag @ '' has options but no column name''))
            else case tag_options tag opts False of
              Inl e \<Rightarrow> Inl e
            | Inr omitCheck \<Rightarrow> Inr (name, omitCheck)))"

record fieldSchema =
  path :: "string list"
  columnName :: string
  isPrimary :: bool
  optional :: bool

definition fieldName :: "fieldSchema \<Rightarrow> string" where
  "fieldName fs = join ''.'' (path fs)"

text \<open>The fields found so far, and whether one of them is the primary key.\<close>

type_synonym walk_state = "fieldSchema list \<times> bool"

text \<open>The step of \<open>walkTags\<close> for a field with a tag.\<close>

definition tagged_field :: "string \<Rightarrow> bool \<Rightarrow> gtype \<Rightarrow> string list \<Rightarrow> walk_state \<Rightarrow> err \<times> walk_state" where
  "tagged_field tagName omitCheck ft pth = (\<lambda>(fds, primaryFound).
     if tagName = ''primary''
     then (if primaryFound then (Some (Sentinel ErrMultiplePrimaryKeys), fds, primaryFound)
           else (None, fds @ [\<lparr>path = pth, columnName = ''primary'', isPrimary = True, optional = False\<rparr>], True))
     else if ft \<noteq> T_string
     then (Some (invalid_tag (''field '' @ join ''.'' pth @ '' must be a string, got '' @ kind_text ft)), fds, primaryFound)
     else (None, fds @ [\<lparr>path = pth, columnName = tagName, isPrimary = False, optional = omitCheck\<rparr>], primaryFound))"

text \<open>\<open>visited\<close> holds the struct types the walk is inside of.\<close>

function walkTags :: "decls \<Rightarrow> gtype \<Rightarrow> string list \<Rightarrow> string list \<Rightarrow> walk_state \<Rightarrow> err \<times> walk_state"
  and walk_fields :: "decls \<Rightarrow> gfield list \<Rightarrow> string list \<Rightarrow> string list \<Rightarrow> walk_state \<Rightarrow> err \<times> walk_state" where
  "walkTags env t prefix visited st =
     (case elem t of
        T_struct s \<Rightarrow>
          (case map_of env s of
             None \<Rightarrow> (None, st)
           | Some fds \<Rightarrow> if s \<in> set visited then (None, st) else walk_fields env fds prefix (s # visited) st)
      | _ \<Rightarrow> (None, st))"
| "walk_fields env [] prefix visited st = (None, st)"
| "walk_fields env (f # fs) prefix visited st =
     (case parseTranslateTag (f_tag f) of
        Inl e \<Rightarrow> (Some (wrap_err (''field '' @ f_name f) e), st)
      | Inr (tagName, omitCheck) \<Rightarrow>
          (let ft = elem (f_type f)
           in case (if tagName = []
                    then (case ft of T_struct s \<Rightarrow> walkTags env ft (prefix @ [f_name f]) visited st | _ \<Rightarrow> (None, st))
                    else tagged_field tagName omitCheck ft (prefix @ [f_name f]) st) of
                (Some e, st) \<Rightarrow> (Some e, st)
              | (None, st) \<Rightarrow> walk_fields env fs prefix visited st))"
  by pat_completeness auto
termination
proof (relation "measures
    [\<lambda>x. case x of Inl (env, t, p, visited, st) \<Rightarrow> card (fst ` set env - set visited)
       | Inr (env, fs, p, visited, st) \<Rightarrow> card (fst ` set env - set visited),
     \<lambda>x. case x of Inl _ \<Rightarrow> 0 | Inr (env, fs, p, visited, st) \<Rightarrow> length fs]", goal_cases)
  case (2 env t prefix visited st s fds)
  then have "s \<in> fst ` set env - set visited" by (force dest: map_of_SomeD)
  then have "card (fst ` set env - set (s # visited)) < card (fst ` set env - set visited)"
    by (intro psubset_card_mono) auto
  then show ?case by simp
qed auto

declare walkTags.simps [simp del] walk_fields.simps [simp del]

text \<open>The schema of a type; the cache by type returns the same result again.\<close>

definition schemaForType :: "decls \<Rightarrow> gtype \<Rightarrow> go_error + fieldSchema list" where
  "schemaForType env t =
     (case walkTags env t [] [] ([], False) of
        (Some e, _) \<Rightarrow> Inl e
      | (None, fds, primaryFound) \<Rightarrow> if primaryFound then Inr fds else Inl (Sentinel ErrNoPrimaryKey))"

section \<open>Values by path\<close>

text \<open>A place: an object and the inline fields from it.\<close>

fun get_at :: "gval \<Rightarrow> string list \<Rightarrow> gval option" where
  "get_at v [] = Some v"
| "get_at (G_struct fs) (n # ns) = (case map_of fs n of None \<Rightarrow> None | Some v \<Rightarrow> get_at v ns)"
| "get_at _ (n # ns) = None"

definition read_place :: "heap \<Rightarrow> nat \<times> string list \<Rightarrow> gval option" where
  "read_place h pl = (case h (fst pl) of None \<Rightarrow> None | Some v \<Rightarrow> get_at v (snd pl))"

text \<open>One step of \<open>valueByPath\<close>; \<open>deeper\<close> says that it is not the first.\<close>

definition follow :: "heap \<Rightarrow> bool \<Rightarrow> nat \<times> string list \<Rightarrow> string \<Rightarrow> (nat \<times> string list) option" where
  "follow h deeper pl name =
     (let target = (case read_place h pl of Some (G_ptr None) \<Rightarrow> None | Some (G_ptr (Some b)) \<Rightarrow> Some (b, []) | _ \<Rightarrow> Some pl)
      in case target of
           None \<Rightarrow> None
         | Some pl \<Rightarrow>
             (case read_place h pl of
                Some (G_struct fs) \<Rightarrow>
                  if deeper \<and> fields_zero fs then None
                  else if map_of fs name = None then None else Some (fst pl, snd pl @ [name])
              | _ \<Rightarrow> None))"

fun valueByPath :: "heap \<Rightarrow> bool \<Rightarrow> nat \<times> string list \<Rightarrow> string list \<Rightarrow> (nat \<times> string list) option" where
  "valueByPath h deeper pl [] = Some pl"
| "valueByPath h deeper pl (n # ns) =
     (case follow h deeper pl n of None \<Rightarrow> None | Some pl \<Rightarrow> valueByPath h True pl ns)"

record fieldInfo =
  schema :: fieldSchema
  f_value :: string

text \<open>\<open>fmt.Sprintf("%v", v)\<close>; the text of a pointer, slice or struct is an argument.\<close>

definition sprint :: "(gval \<Rightarrow> string) \<Rightarrow> gval \<Rightarrow> string" where
  "sprint fmt v = (case v of G_str s \<Rightarrow> s | G_other k text z \<Rightarrow> text | _ \<Rightarrow> fmt v)"

definition field_info :: "(gval \<Rightarrow> string) \<Rightarrow> heap \<Rightarrow> nat \<Rightarrow> fieldSchema \<Rightarrow> fieldInfo option" where
  "field_info fmt h a fs =
     (case valueByPath h False (a, []) (path fs) of
        None \<Rightarrow> if length (path fs) > 1 then None else Some \<lparr>schema = fs, f_value = []\<rparr>
      | Some pl \<Rightarrow>
          Some \<lparr>schema = fs,
            f_value = (if list_all exported (path fs) then (case read_place h pl of Some v \<Rightarrow> sprint fmt v | None \<Rightarrow> []) else [])\<rparr>)"

text \<open>\<open>type_of\<close> gives the struct type of a model.\<close>

definition parseTranslateTags ::
    "decls \<Rightarrow> (gval \<Rightarrow> string) \<Rightarrow> (nat \<Rightarrow> gtype) \<Rightarrow> heap \<Rightarrow> nat \<Rightarrow> go_error + fieldInfo list" where
  "parseTranslateTags env fmt type_of h a =
     (case schemaForType env (type_of a) of
        Inl e \<Rightarrow> Inl e
      | Inr fds \<Rightarrow> Inr (concat (map (\<lambda>fs. case field_info fmt h a fs of None \<Rightarrow> [] | Some i \<Rightarrow> [i]) fds)))"

fun put_at :: "gval \<Rightarrow> string list \<Rightarrow> gval \<Rightarrow> gval" where
  "put_at v [] x = x"
| "put_at (G_struct fs) (n # ns) x = G_struct (map (\<lambda>(k, v). (k, if k = n then put_at v ns x else v)) fs)"
| "put_at v (n # ns) x = v"

definition write_place :: "heap \<Rightarrow> nat \<times> string list \<Rightarrow> gval \<Rightarrow> heap" where
  "write_place h pl x = (case h (fst pl) of None \<Rightarrow> h | Some v \<Rightarrow> h(fst pl \<mapsto> put_at v (snd pl) x))"

definition setFieldValue :: "fieldSchema \<Rightarrow> string \<Rightarrow> nat \<Rightarrow> heap \<Rightarrow> err \<times> heap" where
  "setFieldValue fs x a h =
     (case valueByPath h False (a, []) (path fs) of
        None \<Rightarrow> (Some (Plain (''field '' @ fieldName fs @ '' not found'')), h)
      | Some pl \<Rightarrow>
          if \<not> list_all exported (path fs) then (Some (Plain (''field '' @ fieldName fs @ '' cannot be set'')), h)
          else (case read_place h pl of
                  Some (G_str s) \<Rightarrow> (None, write_place h pl (G_str x))
                | Some v \<Rightarrow> (Some (Plain (''field '' @ fieldName fs @ '' must be a string, got '' @ kind_of v)), h)
                | None \<Rightarrow> (Some (Plain (''field '' @ fieldName fs @ '' not found'')), h)))"

section \<open>Nested models\<close>

text \<open>The elements of the slices of models in an object.\<close>

definition slice_models :: "(string \<times> gval) list \<Rightarrow> nat list" where
  "slice_models fs =
     concat (map (\<lambda>(n, v). case v of
       G_slice True xs \<Rightarrow> (if exported n then concat (map (\<lambda>x. case x of None \<Rightarrow> [] | Some b \<Rightarrow> [b]) xs) else [])
     | _ \<Rightarrow> []) fs)"

text \<open>
  \<open>collectNested\<close> with the set of objects it has entered, which is shared by all calls. A call
  below another has entered one more object, so a depth above the number of objects is never
  reached.
\<close>

fun collectNested :: "heap \<Rightarrow> nat \<Rightarrow> nat \<Rightarrow> nat list \<Rightarrow> nat list \<times> nat list"
  and collect_all :: "heap \<Rightarrow> nat \<Rightarrow> nat list \<Rightarrow> nat list \<Rightarrow> nat list \<times> nat list" where
  "collectNested h 0 a visited = ([], visited)"
| "collectNested h (Suc depth) a visited =
     (if a \<in> set visited then ([], visited)
      else case h a of
        Some (G_struct fs) \<Rightarrow> collect_all h depth (slice_models fs) (a # visited)
      | _ \<Rightarrow> ([], a # visited))"
| "collect_all h depth [] visited = ([], visited)"
| "collect_all h depth (b # bs) visited =
     (case collectNested h depth b visited of (r1, visited) \<Rightarrow>
        (case collect_all h depth bs visited of (r2, visited) \<Rightarrow> (b # r1 @ r2, visited)))"

definition collectNestedTranslatables :: "heap \<Rightarrow> nat \<Rightarrow> nat \<Rightarrow> nat list" where
  "collectNestedTranslatables h objects a = fst (collectNested h (Suc objects) a [])"

text \<open>
  Where the objects that slices lead to are among \<open>objects\<close>, every depth above the number of those
  not entered yet gives the same result, so the depth of \<open>collectNestedTranslatables\<close> cuts
  nothing off.
\<close>

lemma collect_grows:
  "set visited \<subseteq> set (snd (collectNested h depth a visited))"
  "set visited \<subseteq> set (snd (collect_all h depth bs visited))"
  by (induction h depth a visited and h depth bs visited rule: collectNested_collect_all.induct)
    (auto split: option.splits gval.splits prod.splits dest!: subsetD)

lemma collect_all_cong:
  assumes "\<And>a visited. a \<in> objects \<Longrightarrow> card (objects - set visited) < n \<Longrightarrow>
      collectNested h d a visited = collectNested h d' a visited" and "finite objects"
  shows "set bs \<subseteq> objects \<Longrightarrow> card (objects - set visited) < n \<Longrightarrow> collect_all h d bs visited = collect_all h d' bs visited"
proof (induction bs arbitrary: visited)
  case (Cons b bs)
  obtain r v where r: "collectNested h d' b visited = (r, v)" by force
  have "set visited \<subseteq> set v" using collect_grows(1) [of visited h d' b] r by simp
  then have "card (objects - set v) \<le> card (objects - set visited)" using assms(2) by (intro card_mono) auto
  then have "collect_all h d bs v = collect_all h d' bs v" using Cons by simp
  then show ?case using assms(1) [of b visited] Cons.prems r by simp
qed simp

lemma collect_deep_enough:
  assumes "finite objects"
    and closed: "\<And>a fs. a \<in> objects \<Longrightarrow> h a = Some (G_struct fs) \<Longrightarrow> set (slice_models fs) \<subseteq> objects"
  shows "a \<in> objects \<Longrightarrow> card (objects - set visited) < depth \<Longrightarrow> depth \<le> depth' \<Longrightarrow>
      collectNested h depth a visited = collectNested h depth' a visited"
proof (induction depth arbitrary: a visited depth')
  case (Suc depth)
  obtain d' where d': "depth' = Suc d'" "depth \<le> d'" using Suc.prems(3) by (cases depth') auto
  show ?case
  proof (cases "a \<in> set visited")
    case False
    have "objects - set (a # visited) \<subset> objects - set visited" using False Suc.prems(1) by auto
    then have "card (objects - set (a # visited)) < card (objects - set visited)"
      using assms(1) by (intro psubset_card_mono) auto
    then have less: "card (objects - set (a # visited)) < depth" using Suc.prems(2) by simp
    have "collect_all h depth (slice_models fs) (a # visited) = collect_all h d' (slice_models fs) (a # visited)"
      if "h a = Some (G_struct fs)" for fs
      by (rule collect_all_cong [OF _ assms(1) closed [OF Suc.prems(1) that] less]) (simp add: Suc.IH d'(2))
    then show ?thesis using d'(1) by (simp split: option.split gval.split)
  qed (simp add: d')
qed simp

lemma collectNestedTranslatables_complete:
  assumes "finite objects" and "card objects \<le> n" and "a \<in> objects" and "n < depth"
    and "\<And>a fs. a \<in> objects \<Longrightarrow> h a = Some (G_struct fs) \<Longrightarrow> set (slice_models fs) \<subseteq> objects"
  shows "collectNestedTranslatables h n a = fst (collectNested h depth a [])"
  using collect_deep_enough [OF assms(1,5,3), where visited = "[]" and depth = "Suc n" and depth' = depth] assms(2,4)
  by (simp add: collectNestedTranslatables_def)

end
