(* ===== verification/Translation.thy ===== *)
theory Translation
  imports Translation_Tags "HOL-Library.List_Lexorder" "HOL-Library.Char_ord"
begin

text \<open>
  The package \<open>translation\<close>: the translator (\<open>translate.go\<close>, \<open>validate.go\<close>, \<open>config.go\<close>), the
  choice of a language (\<open>middleware.go\<close>), and the contract of a store (\<open>storage.go\<close>) as a
  locale. A map is an association list in which a key occurs once.
\<close>

text \<open>Assignment to a key of a map.\<close>

fun set_entry :: "'k \<Rightarrow> 'v \<Rightarrow> ('k \<times> 'v) list \<Rightarrow> ('k \<times> 'v) list" where
  "set_entry k v [] = [(k, v)]"
| "set_entry k v ((k', x) # m) = (if k' = k then (k, v) # m else (k', x) # set_entry k v m)"

section \<open>Languages\<close>

record language =
  Code :: string
  Lang_Name :: string

definition missing_describe ::
    "(string \<times> string list) list \<Rightarrow> (string \<times> string) list \<Rightarrow> (string \<times> string) list \<Rightarrow> string" where
  "missing_describe missing columnNames langNames =
     (let shown = (\<lambda>names s. case map_of names s of Some (c # cs) \<Rightarrow> c # cs | _ \<Rightarrow> s)
      in join ''; '' (map (\<lambda>column.
           go_quote (shown columnNames column) @ '' - '' @
           join '', '' (map (shown langNames) (case map_of missing column of Some codes \<Rightarrow> codes | None \<Rightarrow> [])))
         (sort (map fst missing))))"

section \<open>The store\<close>

record data =
  ModelName :: string
  KeyID :: string
  Language :: language
  Columns :: "(string \<times> string) list"
  CreatedAt :: instant
  UpdatedAt :: instant

text \<open>
  A check of the columns returns the ones with no translation and in which languages, the
  \<open>MissingTranslationsError\<close>, or no column at all, which is nil.
\<close>

record 'w store_ops =
  SaveTranslation :: "data \<Rightarrow> 'w \<Rightarrow> err \<times> 'w"
  GetTranslations :: "string \<Rightarrow> string \<Rightarrow> language \<Rightarrow> 'w \<Rightarrow> (go_error + (string \<times> string) list) \<times> 'w"
  DeleteTranslations :: "string \<Rightarrow> string \<Rightarrow> language \<Rightarrow> 'w \<Rightarrow> err \<times> 'w"
  CheckExist :: "string \<Rightarrow> string \<Rightarrow> string list \<Rightarrow> language list \<Rightarrow> 'w \<Rightarrow> (go_error + (string \<times> string list) list) \<times> 'w"
  GetTranslationsBatch ::
    "string \<Rightarrow> string list \<Rightarrow> language \<Rightarrow> 'w \<Rightarrow> (go_error + (string \<times> (string \<times> string) list) list) \<times> 'w"

section \<open>The translator\<close>

record 'w config =
  cfg_Store :: "'w store_ops option"
  DefaultLanguage :: language
  SupportedLangs :: "language list"

definition config_Validate :: "'w config \<Rightarrow> err" where
  "config_Validate c =
     (if cfg_Store c = None then Some (Plain ''Store must be provided'')
      else if Code (DefaultLanguage c) = [] then Some (Plain ''DefaultLanguage must be set'')
      else if SupportedLangs c = [] then Some (Plain ''SupportedLangs must contain at least one language'')
      else if list_ex (\<lambda>l. Code l = Code (DefaultLanguage c)) (SupportedLangs c) then None
      else Some (Plain ''DefaultLanguage must be in SupportedLangs''))"

record 'w translator =
  store :: "'w store_ops"
  defaultLang :: language
  supportedLangs :: "language list"

definition translator_New :: "'w config \<Rightarrow> go_error + 'w translator" where
  "translator_New cfg =
     (case (config_Validate cfg, cfg_Store cfg) of
        (Some e, _) \<Rightarrow> Inl (wrap_err ''invalid config'' e)
      | (None, Some st) \<Rightarrow> Inr \<lparr>store = st, defaultLang = DefaultLanguage cfg, supportedLangs = SupportedLangs cfg\<rparr>
      | (None, None) \<Rightarrow> Inl (Plain ''Store must be provided''))"

definition IsDefaultLanguage :: "'w translator \<Rightarrow> language \<Rightarrow> bool" where
  "IsDefaultLanguage t lang = (Code lang = Code (defaultLang t))"

fun find_code :: "string \<Rightarrow> language list \<Rightarrow> language option" where
  "find_code code [] = None"
| "find_code code (l # ls) = (if Code l = code then Some l else find_code code ls)"

definition findLanguage :: "'w translator \<Rightarrow> string \<Rightarrow> language \<times> err" where
  "findLanguage t code =
     (case find_code code (supportedLangs t) of
        Some l \<Rightarrow> (l, None)
      | None \<Rightarrow> (defaultLang t, Some (Sentinel ErrInvalidLanguage)))"

definition Match :: "'w translator \<Rightarrow> string \<Rightarrow> language" where
  "Match t code = (case findLanguage t code of (l, None) \<Rightarrow> l | (_, Some _) \<Rightarrow> defaultLang t)"

definition ValidateLanguage :: "'w translator \<Rightarrow> language \<Rightarrow> err" where
  "ValidateLanguage t lang =
     (if list_ex (\<lambda>l. Code l = Code lang) (supportedLangs t) then None else Some (Sentinel ErrInvalidLanguage))"

text \<open>
  What the translator knows of the models: their declarations, the text of odd values, their
  types, the key each one returns, and how many objects there are.
\<close>

record models =
  m_decls :: decls
  m_fmt :: "gval \<Rightarrow> string"
  m_type :: "nat \<Rightarrow> gtype"
  GetTranslationKey :: "heap \<Rightarrow> nat \<Rightarrow> string \<times> string"
  m_objects :: nat

fun applyTranslations :: "fieldInfo list \<Rightarrow> (string \<times> string) list \<Rightarrow> nat \<Rightarrow> heap \<Rightarrow> err \<times> heap" where
  "applyTranslations [] tr a h = (None, h)"
| "applyTranslations (f # fs) tr a h =
     (if isPrimary (schema f) then applyTranslations fs tr a h
      else case map_of tr (columnName (schema f)) of
        None \<Rightarrow> applyTranslations fs tr a h
      | Some v \<Rightarrow>
          if optional (schema f) \<and> v = [] then applyTranslations fs tr a h
          else case setFieldValue (schema f) v a h of
            (Some e, h) \<Rightarrow> (Some (wrap_err (''failed to set field '' @ fieldName (schema f)) e), h)
          | (None, h) \<Rightarrow> applyTranslations fs tr a h)"

definition parse_model :: "models \<Rightarrow> heap \<Rightarrow> nat \<Rightarrow> go_error + fieldInfo list" where
  "parse_model ms h a =
     (case parseTranslateTags (m_decls ms) (m_fmt ms) (m_type ms) h a of
        Inl e \<Rightarrow> Inl (wrap_err ''failed to parse translate tags'' e)
      | Inr fs \<Rightarrow> Inr fs)"

fun apply_group :: "models \<Rightarrow> nat list \<Rightarrow> (string \<times> (string \<times> string) list) list \<Rightarrow> heap \<Rightarrow> err \<times> heap" where
  "apply_group ms [] batch h = (None, h)"
| "apply_group ms (a # as) batch h =
     (case map_of batch (snd (GetTranslationKey ms h a)) of
        None \<Rightarrow> apply_group ms as batch h
      | Some tr \<Rightarrow>
          (case parse_model ms h a of
             Inl e \<Rightarrow> (Some e, h)
           | Inr fs \<Rightarrow>
               (case applyTranslations fs tr a h of
                  (Some e, h) \<Rightarrow> (Some e, h)
                | (None, h) \<Rightarrow> apply_group ms as batch h)))"

text \<open>The loop over the groups; the order in which a map is ranged over is that of the argument.\<close>

fun translate_groups ::
    "'w translator \<Rightarrow> models \<Rightarrow> (string \<times> nat list) list \<Rightarrow> language \<Rightarrow> heap \<times> 'w \<Rightarrow> err \<times> heap \<times> 'w" where
  "translate_groups t ms [] lang (h, w) = (None, h, w)"
| "translate_groups t ms ((name, grp) # gs) lang (h, w) =
     (case GetTranslationsBatch (store t) name (map (\<lambda>a. snd (GetTranslationKey ms h a)) grp) lang w of
        (Inl e, w) \<Rightarrow> (Some (wrap_err ''failed to get batch translations'' e), h, w)
      | (Inr batch, w) \<Rightarrow>
          (case apply_group ms grp batch h of
             (Some e, h) \<Rightarrow> (Some e, h, w)
           | (None, h) \<Rightarrow> translate_groups t ms gs lang (h, w)))"

definition group_models :: "models \<Rightarrow> heap \<Rightarrow> nat list \<Rightarrow> (string \<times> nat list) list" where
  "group_models ms h as =
     (let name = (\<lambda>a. fst (GetTranslationKey ms h a))
      in map (\<lambda>n. (n, filter (\<lambda>a. name a = n) as)) (remdups (map name as)))"

definition translateMany ::
    "'w translator \<Rightarrow> models \<Rightarrow> nat list \<Rightarrow> language \<Rightarrow> heap \<times> 'w \<Rightarrow> err \<times> heap \<times> 'w" where
  "translateMany t ms as lang = (\<lambda>(h, w).
     if IsDefaultLanguage t lang then (None, h, w)
     else case ValidateLanguage t lang of
       Some e \<Rightarrow> (Some e, h, w)
     | None \<Rightarrow>
         if as = [] then (None, h, w)
         else let every = as @ concat (map (collectNestedTranslatables h (m_objects ms)) as)
              in translate_groups t ms (group_models ms h every) lang (h, w))"

definition Translate ::
    "'w translator \<Rightarrow> models \<Rightarrow> nat \<Rightarrow> language \<Rightarrow> heap \<times> 'w \<Rightarrow> err \<times> heap \<times> 'w" where
  "Translate t ms a lang = (\<lambda>(h, w).
     if IsDefaultLanguage t lang then (None, h, w)
     else case ValidateLanguage t lang of
       Some e \<Rightarrow> (Some e, h, w)
     | None \<Rightarrow> translateMany t ms [a] lang (h, w))"

definition TranslateSlice ::
    "'w translator \<Rightarrow> models \<Rightarrow> nat list \<Rightarrow> language \<Rightarrow> heap \<times> 'w \<Rightarrow> err \<times> heap \<times> 'w" where
  "TranslateSlice t ms as lang = (\<lambda>(h, w). if as = [] then (None, h, w) else translateMany t ms as lang (h, w))"

text \<open>The columns that \<open>Save\<close> writes; a later field with the same column replaces the value.\<close>

definition save_columns :: "fieldInfo list \<Rightarrow> (string \<times> string) list" where
  "save_columns fs =
     fold (\<lambda>f m. if isPrimary (schema f) \<or> optional (schema f) \<and> f_value f = [] then m
                 else set_entry (columnName (schema f)) (f_value f) m) fs []"

definition Save ::
    "'w translator \<Rightarrow> models \<Rightarrow> instant \<Rightarrow> language \<Rightarrow> nat \<Rightarrow> heap \<Rightarrow> 'w \<Rightarrow> err \<times> 'w" where
  "Save t ms at_time lang a h w =
     (case ValidateLanguage t lang of
        Some e \<Rightarrow> (Some e, w)
      | None \<Rightarrow>
          (case parse_model ms h a of
             Inl e \<Rightarrow> (Some e, w)
           | Inr fs \<Rightarrow>
               (let columns = save_columns fs; k = GetTranslationKey ms h a
                in if columns = [] then (Some (Plain ''no translatable fields found''), w)
                   else case SaveTranslation (store t)
                          \<lparr>ModelName = fst k, KeyID = snd k, Language = lang, Columns = columns,
                           CreatedAt = at_time, UpdatedAt = at_time\<rparr> w of
                     (Some e, w) \<Rightarrow> (Some (wrap_err ''failed to save translation'' e), w)
                   | (None, w) \<Rightarrow> (None, w))))"

definition Get :: "'w translator \<Rightarrow> models \<Rightarrow> language \<Rightarrow> nat \<Rightarrow> heap \<times> 'w \<Rightarrow> err \<times> heap \<times> 'w" where
  "Get t ms lang a = (\<lambda>(h, w).
     case ValidateLanguage t lang of
       Some e \<Rightarrow> (Some e, h, w)
     | None \<Rightarrow>
         (let k = GetTranslationKey ms h a
          in case GetTranslations (store t) (fst k) (snd k) lang w of
               (Inl e, w) \<Rightarrow> (Some e, h, w)
             | (Inr tr, w) \<Rightarrow>
                 (case parse_model ms h a of
                    Inl e \<Rightarrow> (Some e, h, w)
                  | Inr fs \<Rightarrow> (case applyTranslations fs tr a h of (e, h) \<Rightarrow> (e, h, w)))))"

definition Delete :: "'w translator \<Rightarrow> models \<Rightarrow> language \<Rightarrow> nat \<Rightarrow> heap \<Rightarrow> 'w \<Rightarrow> err \<times> 'w" where
  "Delete t ms lang a h w =
     (case ValidateLanguage t lang of
        Some e \<Rightarrow> (Some e, w)
      | None \<Rightarrow>
          (let k = GetTranslationKey ms h a
           in case DeleteTranslations (store t) (fst k) (snd k) lang w of
                (Some e, w) \<Rightarrow> (Some (wrap_err ''failed to delete translations'' e), w)
              | (None, w) \<Rightarrow> (None, w)))"

definition ValidateTranslateTags :: "models \<Rightarrow> heap \<Rightarrow> nat \<Rightarrow> err" where
  "ValidateTranslateTags ms h a =
     (case parseTranslateTags (m_decls ms) (m_fmt ms) (m_type ms) h a of
        Inl e \<Rightarrow> Some (wrap_err ''invalid translate tags'' e)
      | Inr _ \<Rightarrow>
          if fst (GetTranslationKey ms h a) = [] then Some (Plain ''GetTranslationKey() returned empty modelName'')
          else if snd (GetTranslationKey ms h a) = [] then Some (Plain ''GetTranslationKey() returned empty keyID'')
          else None)"

definition CheckTranslationsExist ::
    "'w translator \<Rightarrow> models \<Rightarrow> nat \<Rightarrow> heap \<Rightarrow> 'w \<Rightarrow> (go_error + (string \<times> string list) list) \<times> 'w" where
  "CheckTranslationsExist t ms a h w =
     (case parse_model ms h a of
        Inl e \<Rightarrow> (Inl e, w)
      | Inr fs \<Rightarrow>
          (let columns = map (\<lambda>f. columnName (schema f)) (filter (\<lambda>f. \<not> (isPrimary (schema f) \<or> optional (schema f))) fs);
               langs = filter (\<lambda>l. Code l \<noteq> Code (defaultLang t)) (supportedLangs t);
               k = GetTranslationKey ms h a
           in if columns = [] \<or> langs = [] then (Inr [], w)
              else CheckExist (store t) (fst k) (snd k) columns langs w))"

section \<open>The language of a request\<close>

record HeaderSource =
  Header_Name :: string
  AcceptLanguage :: bool

definition DefaultHeaderSources :: "HeaderSource list" where
  "DefaultHeaderSources = [\<lparr>Header_Name = ''X-Language'', AcceptLanguage = False\<rparr>,
     \<lparr>Header_Name = ''Accept-Language'', AcceptLanguage = True\<rparr>]"

text \<open>
  \<open>bases\<close> stands for \<open>language.ParseAcceptLanguage\<close> and \<open>Tag.Base\<close>: the base subtags of the value,
  by preference, or \<open>None\<close> when it does not parse.
\<close>

definition matchAcceptLanguage :: "(string \<Rightarrow> string list option) \<Rightarrow> 'w translator \<Rightarrow> string \<Rightarrow> language option" where
  "matchAcceptLanguage bases t header =
     (case bases header of
        None \<Rightarrow> None
      | Some bs \<Rightarrow> first_some (\<lambda>b. case findLanguage t b of (l, None) \<Rightarrow> Some l | _ \<Rightarrow> None) bs)"

fun from_sources ::
    "(string \<Rightarrow> string list option) \<Rightarrow> 'w translator \<Rightarrow> (string \<Rightarrow> string) \<Rightarrow> HeaderSource list \<Rightarrow> language" where
  "from_sources bases t header [] = defaultLang t"
| "from_sources bases t header (src # srcs) =
     (let raw = header (Header_Name src)
      in if raw = [] then from_sources bases t header srcs
         else if AcceptLanguage src
         then (case matchAcceptLanguage bases t raw of Some l \<Rightarrow> l | None \<Rightarrow> from_sources bases t header srcs)
         else (case findLanguage t raw of (l, None) \<Rightarrow> l | _ \<Rightarrow> from_sources bases t header srcs))"

definition LanguageFrom ::
    "(string \<Rightarrow> string list option) \<Rightarrow> 'w translator \<Rightarrow> (string \<Rightarrow> string) \<Rightarrow> HeaderSource list \<Rightarrow> language" where
  "LanguageFrom bases t header sources =
     from_sources bases t header (if sources = [] then DefaultHeaderSources else sources)"

section \<open>Lemmas\<close>

lemma map_of_set_entry [simp]: "map_of (set_entry k v m) = (map_of m)(k \<mapsto> v)"
  by (induction k v m rule: set_entry.induct) auto

lemma keys_set_entry: "fst ` set (set_entry k v m) = insert k (fst ` set m)"
  by (induction k v m rule: set_entry.induct) auto

lemma distinct_set_entry [simp]: "distinct (map fst (set_entry k v m)) = distinct (map fst m)"
proof (induction k v m rule: set_entry.induct)
  case (2 k v k' x m)
  then show ?case using keys_set_entry [of k v m] by auto
qed simp

definition required :: "fieldInfo \<Rightarrow> bool" where
  "required f = (\<not> (isPrimary (schema f) \<or> optional (schema f)))"

definition required_columns :: "fieldInfo list \<Rightarrow> string list" where
  "required_columns fs = map (\<lambda>f. columnName (schema f)) (filter required fs)"

lemma required_columns_in: "set (required_columns fs) \<subseteq> (\<lambda>f. columnName (schema f)) ` set fs"
  by (auto simp: required_columns_def)

text \<open>Where every required field has a value, so has its column among those saved.\<close>

lemma save_columns_filled:
  assumes "\<forall>f \<in> set fs. required f \<longrightarrow> f_value f \<noteq> []"
  shows "distinct (map fst (save_columns fs))"
    and "c \<in> set (required_columns fs) \<Longrightarrow> \<exists>v. map_of (save_columns fs) c = Some v \<and> v \<noteq> []"
    and "fst ` set (save_columns fs) \<subseteq> (\<lambda>f. columnName (schema f)) ` set fs"
proof -
  let ?step = "\<lambda>f m. if isPrimary (schema f) \<or> optional (schema f) \<and> f_value f = [] then m
                 else set_entry (columnName (schema f)) (f_value f) m"
  have "distinct (map fst m) \<Longrightarrow> distinct (map fst (fold ?step fs m))" for m
    by (induction fs arbitrary: m) auto
  then show "distinct (map fst (save_columns fs))" by (simp add: save_columns_def)
  have filled: "(\<exists>v. map_of m c = Some v \<and> v \<noteq> []) \<or> c \<in> set (required_columns fs) \<Longrightarrow>
      \<exists>v. map_of (fold ?step fs m) c = Some v \<and> v \<noteq> []" for m
    using assms
  proof (induction fs arbitrary: m)
    case (Cons f fs)
    have "(\<exists>v. map_of (?step f m) c = Some v \<and> v \<noteq> []) \<or> c \<in> set (required_columns fs)"
    proof (cases "c \<in> set (required_columns fs)")
      case False
      then have "(\<exists>v. map_of m c = Some v \<and> v \<noteq> []) \<or> required f \<and> c = columnName (schema f)"
        using Cons.prems(1) by (auto simp: required_columns_def split: if_splits)
      then show ?thesis using Cons.prems(2) by (auto simp: required_def)
    qed simp
    from Cons.IH [OF this] show ?case using Cons.prems(2) by simp
  qed (simp add: required_columns_def)
  show "\<exists>v. map_of (save_columns fs) c = Some v \<and> v \<noteq> []" if "c \<in> set (required_columns fs)"
    using filled [of "[]"] that by (simp add: save_columns_def)
  have "fst ` set (fold ?step fs m) \<subseteq> fst ` set m \<union> (\<lambda>f. columnName (schema f)) ` set fs" for m
  proof (induction fs arbitrary: m)
    case (Cons f fs)
    have "fst ` set (?step f m) \<subseteq> insert (columnName (schema f)) (fst ` set m)" by (simp add: keys_set_entry subset_insertI)
    with Cons.IH [of "?step f m"] show ?case unfolding fold_Cons o_apply list.set image_insert by blast
  qed simp
  from this [of "[]"] show "fst ` set (save_columns fs) \<subseteq> (\<lambda>f. columnName (schema f)) ` set fs"
    by (simp add: save_columns_def)
qed

section \<open>The contract of a store\<close>

text \<open>
  \<open>content\<close> are the translations of a model in a language by column; \<open>good\<close> says that the store
  can hold a column of a model in a language. A store may forget an empty value.
\<close>

definition key_of :: "data \<Rightarrow> string \<times> string \<times> string" where
  "key_of d = (ModelName d, KeyID d, Code (Language d))"

definition has_text :: "string option \<Rightarrow> bool" where
  "has_text v = (v \<noteq> None \<and> v \<noteq> Some [])"

text \<open>The translations of one model in several languages, each saved from its own copy of the model.\<close>

fun save_each ::
    "'w translator \<Rightarrow> models \<Rightarrow> instant \<Rightarrow> heap \<Rightarrow> (language \<Rightarrow> nat) \<Rightarrow> language list \<Rightarrow> 'w \<Rightarrow> err list \<times> 'w" where
  "save_each t ms at_time h copy [] w = ([], w)"
| "save_each t ms at_time h copy (l # ls) w =
     (case Save t ms at_time l (copy l) h w of (x, w) \<Rightarrow>
        (case save_each t ms at_time h copy ls w of (xs, w) \<Rightarrow> (x # xs, w)))"

locale translation_store =
  fixes st :: "'w store_ops"
    and ok :: "'w \<Rightarrow> bool"
    and content :: "'w \<Rightarrow> string \<times> string \<times> string \<Rightarrow> string \<rightharpoonup> string"
    and good :: "string \<times> string \<times> string \<Rightarrow> string \<Rightarrow> bool"
  assumes save: "ok w \<Longrightarrow> distinct (map fst (Columns d)) \<Longrightarrow> \<forall>c \<in> fst ` set (Columns d). good (key_of d) c \<Longrightarrow>
      \<exists>w'. SaveTranslation st d w = (None, w') \<and> ok w' \<and>
        (\<forall>c. case map_of (Columns d) c of
               None \<Rightarrow> content w' (key_of d) c = content w (key_of d) c
             | Some v \<Rightarrow> if v = [] then \<not> has_text (content w' (key_of d) c) else content w' (key_of d) c = Some v) \<and>
        (\<forall>l. l \<noteq> Code (Language d) \<longrightarrow>
           content w' (ModelName d, KeyID d, l) = content w (ModelName d, KeyID d, l))"
    and get: "ok w \<Longrightarrow> \<exists>r w'. GetTranslations st n k l w = (r, w') \<and> ok w' \<and> content w' = content w \<and>
        (if content w (n, k, Code l) = Map.empty then r = Inl (Sentinel ErrTranslationNotFound)
         else \<exists>tr. r = Inr tr \<and> map_of tr = content w (n, k, Code l))"
    and delete: "ok w \<Longrightarrow> \<exists>r w'. DeleteTranslations st n k l w = (r, w') \<and> ok w' \<and>
        content w' (n, k, Code l) = Map.empty"
    and check: "ok w \<Longrightarrow> \<forall>c \<in> set columns. \<forall>l \<in> set langs. good (n, k, Code l) c \<Longrightarrow>
      \<exists>m w'. CheckExist st n k columns langs w = (Inr m, w') \<and> ok w' \<and> content w' = content w \<and>
        (m = [] \<longleftrightarrow> (\<forall>c \<in> set columns. \<forall>l \<in> set langs. has_text (content w (n, k, Code l) c)))"
begin

lemma Save_fills:
  assumes "ok w" and "store t = st" and "ValidateLanguage t l = None" and "parse_model ms h a = Inr fs"
    and "GetTranslationKey ms h a = (n, k)" and "\<forall>f \<in> set fs. required f \<longrightarrow> f_value f \<noteq> []"
    and "\<forall>f \<in> set fs. good (n, k, Code l) (columnName (schema f))" and "required_columns fs \<noteq> []"
  shows "\<exists>w'. Save t ms at_time l a h w = (None, w') \<and> ok w' \<and>
    (\<forall>c \<in> set (required_columns fs). has_text (content w' (n, k, Code l) c)) \<and>
    (\<forall>l' c. l' \<noteq> Code l \<longrightarrow> content w' (n, k, l') c = content w (n, k, l') c)"
proof -
  note cols = save_columns_filled [OF assms(6)]
  define d where "d = \<lparr>ModelName = n, KeyID = k, Language = l, Columns = save_columns fs, CreatedAt = at_time, UpdatedAt = at_time\<rparr>"
  have d: "key_of d = (n, k, Code l)" "Columns d = save_columns fs" "Code (Language d) = Code l" "ModelName d = n" "KeyID d = k"
    by (simp_all add: d_def key_of_def)
  obtain c0 where "c0 \<in> set (required_columns fs)" using assms(8) by (cases "required_columns fs") auto
  then have ne: "save_columns fs \<noteq> []" using cols(2) by force
  have fits: "\<forall>c \<in> fst ` set (Columns d). good (key_of d) c"
    using cols(3) assms(7) unfolding d by fastforce
  have "distinct (map fst (Columns d))" using cols(1) unfolding d .
  from save [OF assms(1) this fits]
  obtain w' where w': "SaveTranslation st d w = (None, w')" "ok w'"
      "\<forall>c. case map_of (save_columns fs) c of
               None \<Rightarrow> content w' (n, k, Code l) c = content w (n, k, Code l) c
             | Some v \<Rightarrow> if v = [] then \<not> has_text (content w' (n, k, Code l) c) else content w' (n, k, Code l) c = Some v"
      "\<forall>l'. l' \<noteq> Code l \<longrightarrow> content w' (n, k, l') = content w (n, k, l')"
    unfolding d by (elim exE conjE) (rule that)
  have "has_text (content w' (n, k, Code l) c)" if "c \<in> set (required_columns fs)" for c
  proof -
    obtain v where "map_of (save_columns fs) c = Some v" "v \<noteq> []" using cols(2) \<open>c \<in> set (required_columns fs)\<close> by blast
    then show ?thesis using spec [OF w'(3), of c] by (simp add: has_text_def)
  qed
  moreover have "Save t ms at_time l a h w = (None, w')"
    using assms(2-5) ne w'(1) by (simp add: Save_def Let_def d_def)
  ultimately show ?thesis using w'(2,4) by auto
qed

lemma save_each_fills:
  assumes "ok w" and "store t = st" and "cols \<noteq> []"
    and "\<forall>l \<in> set ls. ValidateLanguage t l = None \<and> GetTranslationKey ms h (copy l) = (n, k) \<and>
      parse_model ms h (copy l) = Inr (fs l) \<and> (\<forall>f \<in> set (fs l). required f \<longrightarrow> f_value f \<noteq> []) \<and>
      (\<forall>f \<in> set (fs l). good (n, k, Code l) (columnName (schema f))) \<and> required_columns (fs l) = cols"
  shows "\<exists>w'. save_each t ms at_time h copy ls w = (replicate (length ls) None, w') \<and> ok w' \<and>
    (\<forall>c \<in> set cols. \<forall>l. l \<in> Code ` set ls \<or> has_text (content w (n, k, l) c) \<longrightarrow> has_text (content w' (n, k, l) c))"
  using assms(1,4)
proof (induction ls arbitrary: w)
  case (Cons l ls)
  have l: "ValidateLanguage t l = None" "GetTranslationKey ms h (copy l) = (n, k)" "parse_model ms h (copy l) = Inr (fs l)"
      "\<forall>f \<in> set (fs l). required f \<longrightarrow> f_value f \<noteq> []" "\<forall>f \<in> set (fs l). good (n, k, Code l) (columnName (schema f))"
      "required_columns (fs l) = cols"
    using Cons.prems(2) by auto
  obtain w1 where w1: "Save t ms at_time l (copy l) h w = (None, w1)" "ok w1"
      "\<forall>c \<in> set cols. has_text (content w1 (n, k, Code l) c)"
      "\<forall>l' c. l' \<noteq> Code l \<longrightarrow> content w1 (n, k, l') c = content w (n, k, l') c"
    using Save_fills [OF Cons.prems(1) assms(2) l(1,3,2,4,5)] l(6) assms(3) by blast
  have rest: "\<forall>l \<in> set ls. ValidateLanguage t l = None \<and> GetTranslationKey ms h (copy l) = (n, k) \<and>
      parse_model ms h (copy l) = Inr (fs l) \<and> (\<forall>f \<in> set (fs l). required f \<longrightarrow> f_value f \<noteq> []) \<and>
      (\<forall>f \<in> set (fs l). good (n, k, Code l) (columnName (schema f))) \<and> required_columns (fs l) = cols"
    using Cons.prems(2) by simp
  obtain w2 where w2: "save_each t ms at_time h copy ls w1 = (replicate (length ls) None, w2)" "ok w2"
      "\<forall>c \<in> set cols. \<forall>l. l \<in> Code ` set ls \<or> has_text (content w1 (n, k, l) c) \<longrightarrow> has_text (content w2 (n, k, l) c)"
    using Cons.IH [OF w1(2) rest] by blast
  have "has_text (content w2 (n, k, x) c)"
    if "c \<in> set cols" "x \<in> Code ` set (l # ls) \<or> has_text (content w (n, k, x) c)" for c x
    using that w1(3,4) w2(3) by (cases "x = Code l") auto
  then show ?case using w1(1) w2(1,2) by simp
qed simp

text \<open>Once every language but the default one has its translations, nothing is missing.\<close>

lemma complete_after_saves:
  fixes t :: "'w translator"
  defines "ls \<equiv> filter (\<lambda>l. Code l \<noteq> Code (defaultLang t)) (supportedLangs t)"
  assumes "ok w" and "store t = st"
    and copies: "\<forall>l \<in> set ls. GetTranslationKey ms h (copy l) = (n, k) \<and>
      parse_model ms h (copy l) = Inr (fs l) \<and> (\<forall>f \<in> set (fs l). required f \<longrightarrow> f_value f \<noteq> []) \<and>
      (\<forall>f \<in> set (fs l). good (n, k, Code l) (columnName (schema f))) \<and> required_columns (fs l) = required_columns fs0"
    and model: "GetTranslationKey ms h a = (n, k)" "parse_model ms h a = Inr fs0" "required_columns fs0 \<noteq> []"
  shows "\<exists>w' w''. save_each t ms at_time h copy ls w = (replicate (length ls) None, w') \<and>
    CheckTranslationsExist t ms a h w' = (Inr [], w'')"
proof -
  have val: "\<forall>l \<in> set ls. ValidateLanguage t l = None"
    by (auto simp: ls_def ValidateLanguage_def list_ex_iff)
  obtain w' where w': "save_each t ms at_time h copy ls w = (replicate (length ls) None, w')" "ok w'"
      "\<forall>c \<in> set (required_columns fs0). \<forall>l. l \<in> Code ` set ls \<or> has_text (content w (n, k, l) c) \<longrightarrow>
        has_text (content w' (n, k, l) c)"
    using save_each_fills [OF assms(2,3) model(3), of ls ms h copy n k fs] copies val by blast
  have "\<forall>c \<in> set (required_columns fs0). \<forall>l \<in> set ls. good (n, k, Code l) c"
    using copies by (metis (no_types, lifting) imageE required_columns_in subsetD)
  from check [OF w'(2) this] obtain m w'' where m: "CheckExist st n k (required_columns fs0) ls w' = (Inr m, w'')"
      "m = [] \<longleftrightarrow> (\<forall>c \<in> set (required_columns fs0). \<forall>l \<in> set ls. has_text (content w' (n, k, Code l) c))"
    by (elim exE conjE) (rule that)
  have "m = []" using w'(3) m(2) by blast
  then have "CheckTranslationsExist t ms a h w' = (Inr [], if ls = [] then w' else w'')"
    using m(1) model assms(3) unfolding CheckTranslationsExist_def required_columns_def required_def ls_def by (simp add: Let_def)
  then show ?thesis using w'(1) by blast
qed

end

end
