(* ===== verification/Translation_Stores.thy ===== *)
theory Translation_Stores
  imports Translation Dbx
begin

text \<open>
  The two stores of translations: in memory (\<open>translationtest/store.go\<close>) and in PostgreSQL
  (\<open>translationpg\<close>), and that both keep the contract.
\<close>

section \<open>The store in memory\<close>

type_synonym tr_memory = "(string \<times> (string \<times> string) list) list"

definition buildKey :: "string \<Rightarrow> string \<Rightarrow> string \<Rightarrow> string" where
  "buildKey modelName keyID langCode = modelName @ '':'' @ keyID @ '':'' @ langCode"

definition at_key :: "tr_memory \<Rightarrow> string \<Rightarrow> (string \<times> string) list" where
  "at_key m key = (case map_of m key of Some tr \<Rightarrow> tr | None \<Rightarrow> [])"

definition mem_SaveTranslation :: "data \<Rightarrow> tr_memory \<times> 'e \<Rightarrow> err \<times> tr_memory \<times> 'e" where
  "mem_SaveTranslation d = (\<lambda>(m, e).
     (None, fold (\<lambda>(c, v) m. let key = buildKey (ModelName d) (KeyID d) (Code (Language d))
                             in set_entry key (set_entry c v (at_key m key)) m) (Columns d) m, e))"

definition mem_GetTranslations ::
    "string \<Rightarrow> string \<Rightarrow> language \<Rightarrow> tr_memory \<times> 'e \<Rightarrow> (go_error + (string \<times> string) list) \<times> tr_memory \<times> 'e" where
  "mem_GetTranslations n k l = (\<lambda>(m, e).
     let tr = at_key m (buildKey n k (Code l))
     in (if tr = [] then Inl (Sentinel ErrTranslationNotFound) else Inr tr, m, e))"

definition mem_DeleteTranslations :: "string \<Rightarrow> string \<Rightarrow> language \<Rightarrow> tr_memory \<times> 'e \<Rightarrow> err \<times> tr_memory \<times> 'e" where
  "mem_DeleteTranslations n k l = (\<lambda>(m, e).
     let key = buildKey n k (Code l)
     in if map_of m key = None then (Some (Sentinel ErrTranslationNotFound), m, e)
        else (None, filter (\<lambda>(k', _). k' \<noteq> key) m, e))"

text \<open>The pairs of a column and a language with no value, column by column.\<close>

definition missing_pairs :: "(string \<Rightarrow> string \<Rightarrow> bool) \<Rightarrow> string list \<Rightarrow> string list \<Rightarrow> (string \<times> string list) list" where
  "missing_pairs filled columns codes =
     fold (\<lambda>c m. fold (\<lambda>l m. if filled c l then m
        else set_entry c ((case map_of m c of Some ls \<Rightarrow> ls | None \<Rightarrow> []) @ [l]) m) codes m) columns []"

definition mem_CheckExist ::
    "string \<Rightarrow> string \<Rightarrow> string list \<Rightarrow> language list \<Rightarrow> tr_memory \<times> 'e \<Rightarrow>
     (go_error + (string \<times> string list) list) \<times> tr_memory \<times> 'e" where
  "mem_CheckExist n k columns langs = (\<lambda>(m, e).
     (Inr (missing_pairs (\<lambda>c l. map_of (at_key m (buildKey n k l)) c \<notin> {None, Some []}) columns (map Code langs)), m, e))"

definition mem_GetBatch ::
    "string \<Rightarrow> string list \<Rightarrow> language \<Rightarrow> tr_memory \<times> 'e \<Rightarrow>
     (go_error + (string \<times> (string \<times> string) list) list) \<times> tr_memory \<times> 'e" where
  "mem_GetBatch n ks l = (\<lambda>(m, e).
     (Inr (fold (\<lambda>k r. case map_of m (buildKey n k (Code l)) of None \<Rightarrow> r | Some tr \<Rightarrow> set_entry k tr r) ks []), m, e))"

definition tr_mem_ops :: "(tr_memory \<times> 'e) store_ops" where
  "tr_mem_ops = \<lparr>SaveTranslation = mem_SaveTranslation, GetTranslations = mem_GetTranslations,
     DeleteTranslations = mem_DeleteTranslations, CheckExist = mem_CheckExist,
     GetTranslationsBatch = mem_GetBatch\<rparr>"

section \<open>The store in PostgreSQL\<close>

record translationRow =
  r_model :: string
  r_column :: string
  r_key :: string
  r_lang :: string
  r_value :: string
  r_created :: instant
  r_updated :: instant

type_synonym tr_table = "translationRow list"

definition row_id :: "translationRow \<Rightarrow> string \<times> string \<times> string \<times> string" where
  "row_id r = (r_model r, r_column r, r_key r, r_lang r)"

text \<open>
  The lengths of the \<open>VARCHAR\<close> columns, in characters of a text of one byte each; the texts are ones
  that a text column can hold, without NUL and in valid UTF-8.
\<close>

definition row_fits :: "translationRow \<Rightarrow> bool" where
  "row_fits r = (length (r_model r) \<le> 100 \<and> length (r_column r) \<le> 100 \<and> length (r_key r) \<le> 255 \<and> length (r_lang r) \<le> 10)"

definition sql_upsert :: "translationRow \<Rightarrow> (tr_table, unit) stmt" where
  "sql_upsert r tb =
     (if \<not> row_fits r then (Inl (Plain ''value too long for type character varying''), tb)
      else if \<exists>x \<in> set tb. row_id x = row_id r
      then (Inr (), update_where (\<lambda>x. row_id x = row_id r) (\<lambda>x. x\<lparr>r_value := r_value r, r_updated := r_updated r\<rparr>) tb)
      else (Inr (), tb @ [r]))"

definition sql_clear :: "translationRow \<Rightarrow> (tr_table, unit) stmt" where
  "sql_clear r tb = (Inr (), filter (\<lambda>x. row_id x \<noteq> row_id r) tb)"

text \<open>The row of a column, and the statement that saves it: an empty value clears the row.\<close>

definition column_row :: "data \<Rightarrow> string \<times> string \<Rightarrow> translationRow" where
  "column_row d = (\<lambda>(column, v). \<lparr>r_model = ModelName d, r_column = column, r_key = KeyID d, r_lang = Code (Language d),
     r_value = v, r_created = CreatedAt d, r_updated = UpdatedAt d\<rparr>)"

definition column_stmt :: "data \<Rightarrow> string \<times> string \<Rightarrow> (tr_table, unit) stmt" where
  "column_stmt d x = (if snd x = [] then sql_clear (column_row d x) else sql_upsert (column_row d x))"

fun save_rows :: "'e db_env \<Rightarrow> classifier option \<Rightarrow> data \<Rightarrow> (string \<times> string) list \<Rightarrow> (tr_table, 'e) tx_fn" where
  "save_rows env cls d [] w = (Ret None, w)"
| "save_rows env cls d (x # cols) w =
     (case Exec env cls (column_stmt d x) w of
        (Some e, w) \<Rightarrow> (Ret (Some (wrap_err (''save column '' @ fst x) e)), w)
      | (None, w) \<Rightarrow> save_rows env cls d cols w)"

definition with_times :: "instant \<Rightarrow> data \<Rightarrow> data" where
  "with_times now d =
     d\<lparr>CreatedAt := if CreatedAt d = 0 then now else CreatedAt d, UpdatedAt := if UpdatedAt d = 0 then now else UpdatedAt d\<rparr>"

definition pg_SaveTranslation ::
    "'e db_env \<Rightarrow> querier \<Rightarrow> classifier option \<Rightarrow> ('e \<Rightarrow> instant \<times> 'e) \<Rightarrow> data \<Rightarrow> tr_table \<times> 'e \<Rightarrow> err outcome \<times> tr_table \<times> 'e" where
  "pg_SaveTranslation env q cls clock d = (\<lambda>(tb, e).
     case clock e of (t, e) \<Rightarrow>
       (let d = with_times t d in WithinTran env q (save_rows env cls d (Columns d)) (tb, e)))"

definition rows_of :: "string \<Rightarrow> string \<Rightarrow> string \<Rightarrow> tr_table \<Rightarrow> tr_table" where
  "rows_of n k l tb = filter (\<lambda>r. r_model r = n \<and> r_key r = k \<and> r_lang r = l) tb"

definition pg_GetTranslations ::
    "'e db_env \<Rightarrow> classifier option \<Rightarrow> string \<Rightarrow> string \<Rightarrow> language \<Rightarrow> tr_table \<times> 'e \<Rightarrow>
     (go_error + (string \<times> string) list) \<times> tr_table \<times> 'e" where
  "pg_GetTranslations env cls n k l w =
     (case QueryList env cls (\<lambda>tb. (Inr (map (\<lambda>r. (r_column r, r_value r)) (rows_of n k (Code l) tb)), tb)) w of
        (Inl e, w) \<Rightarrow> (Inl (wrap_err ''get translations'' e), w)
      | (Inr rs, w) \<Rightarrow>
          (if rs = [] then Inl (Sentinel ErrTranslationNotFound)
           else Inr (fold (\<lambda>(c, v) m. set_entry c v m) rs []), w))"

definition pg_DeleteTranslations ::
    "'e db_env \<Rightarrow> classifier option \<Rightarrow> string \<Rightarrow> string \<Rightarrow> language \<Rightarrow> tr_table \<times> 'e \<Rightarrow> err \<times> tr_table \<times> 'e" where
  "pg_DeleteTranslations env cls n k l w =
     (case ExecRowsAffected env cls (\<lambda>tb.
        (Inr (Inr (int (length (rows_of n k (Code l) tb)))),
         filter (\<lambda>r. \<not> (r_model r = n \<and> r_key r = k \<and> r_lang r = Code l)) tb)) w of
        (Inl e, w) \<Rightarrow> (Some (wrap_err ''delete translations'' e), w)
      | (Inr m, w) \<Rightarrow> (if m = 0 then Some (Sentinel ErrTranslationNotFound) else None, w))"

text \<open>The pairs that are filled are looked up by the column and the code with a bar between them.\<close>

definition pg_CheckExist ::
    "'e db_env \<Rightarrow> classifier option \<Rightarrow> string \<Rightarrow> string \<Rightarrow> string list \<Rightarrow> language list \<Rightarrow> tr_table \<times> 'e \<Rightarrow>
     (go_error + (string \<times> string list) list) \<times> tr_table \<times> 'e" where
  "pg_CheckExist env cls n k columns langs w =
     (if columns = [] \<or> langs = [] then (Inr [], w)
      else case QueryList env cls (\<lambda>tb. (Inr (map (\<lambda>r. (r_column r, r_lang r))
          (filter (\<lambda>r. r_model r = n \<and> r_key r = k \<and> r_column r \<in> set columns \<and> r_lang r \<in> Code ` set langs \<and> r_value r \<noteq> []) tb)), tb)) w of
        (Inl e, w) \<Rightarrow> (Inl (wrap_err ''query translations'' e), w)
      | (Inr rs, w) \<Rightarrow>
          (let filled = map (\<lambda>(c, l). c @ ''|'' @ l) rs
           in (Inr (missing_pairs (\<lambda>c l. (c @ ''|'' @ l) \<in> set filled) columns (map Code langs)), w)))"

definition pg_GetBatch ::
    "'e db_env \<Rightarrow> classifier option \<Rightarrow> string \<Rightarrow> string list \<Rightarrow> language \<Rightarrow> tr_table \<times> 'e \<Rightarrow>
     (go_error + (string \<times> (string \<times> string) list) list) \<times> tr_table \<times> 'e" where
  "pg_GetBatch env cls n ks l w =
     (if ks = [] then (Inr [], w)
      else case QueryList env cls (\<lambda>tb. (Inr (map (\<lambda>r. (r_key r, r_column r, r_value r))
          (filter (\<lambda>r. r_model r = n \<and> r_lang r = Code l \<and> r_key r \<in> set ks) tb)), tb)) w of
        (Inl e, w) \<Rightarrow> (Inl (wrap_err ''query batch translations'' e), w)
      | (Inr rs, w) \<Rightarrow>
          (Inr (fold (\<lambda>(k, c, v) m. set_entry k (set_entry c v (case map_of m k of Some tr \<Rightarrow> tr | None \<Rightarrow> [])) m) rs []), w))"

text \<open>The body of the transaction never panics, so the store returns an error or nil.\<close>

definition tr_pg_ops ::
    "'e db_env \<Rightarrow> querier \<Rightarrow> classifier option \<Rightarrow> ('e \<Rightarrow> instant \<times> 'e) \<Rightarrow> (tr_table \<times> 'e) store_ops" where
  "tr_pg_ops env q cls clock = \<lparr>
     SaveTranslation = \<lambda>d w. (case pg_SaveTranslation env q cls clock d w of
       (Ret x, w) \<Rightarrow> (x, w) | (Panics p, w) \<Rightarrow> (Some (Plain ''panic''), w)),
     GetTranslations = pg_GetTranslations env cls, DeleteTranslations = pg_DeleteTranslations env cls,
     CheckExist = pg_CheckExist env cls, GetTranslationsBatch = pg_GetBatch env cls\<rparr>"

section \<open>Lemmas\<close>

lemma missing_pairs_empty:
  "missing_pairs filled columns codes = [] \<longleftrightarrow> (\<forall>c \<in> set columns. \<forall>l \<in> set codes. filled c l)"
proof -
  have se: "set_entry k v m \<noteq> []" for k v and m :: "(string \<times> string list) list"
    by (cases m) (auto split: if_splits)
  let ?f = "\<lambda>c l m. if filled c l then m else set_entry c ((case map_of m c of Some ls \<Rightarrow> ls | None \<Rightarrow> []) @ [l]) m"
  have row: "fold (?f c) codes m = [] \<longleftrightarrow> m = [] \<and> (\<forall>l \<in> set codes. filled c l)" for c m
    by (induction codes arbitrary: m) (auto simp: se)
  have "fold (\<lambda>c. fold (?f c) codes) columns m = [] \<longleftrightarrow> m = [] \<and> (\<forall>c \<in> set columns. \<forall>l \<in> set codes. filled c l)" for m
    by (induction columns arbitrary: m) (auto simp: row)
  then show ?thesis by (simp add: missing_pairs_def)
qed

lemma map_of_fold_entries:
  "distinct (map fst xs) \<Longrightarrow> map_of (fold (\<lambda>(c, v). set_entry c v) xs m) c =
     (case map_of xs c of None \<Rightarrow> map_of m c | Some v \<Rightarrow> Some v)"
proof (induction xs arbitrary: m)
  case (Cons x xs)
  obtain a v where x: "x = (a, v)" by force
  have "map_of xs a = None" using Cons.prems x by (simp add: map_of_eq_None_iff)
  then show ?case using Cons by (auto simp: x split: option.splits)
qed simp

subsection \<open>In memory\<close>

lemma at_key_set_entry: "at_key (set_entry key tr m) key' = (if key' = key then tr else at_key m key')"
  by (simp add: at_key_def)

lemma at_key_fold:
  "at_key (fold (\<lambda>(c, v) m. set_entry key (set_entry c v (at_key m key)) m) xs m) key' =
     (if key' = key then fold (\<lambda>(c, v). set_entry c v) xs (at_key m key) else at_key m key')"
  by (induction xs arbitrary: m) (auto simp: at_key_set_entry)

lemma buildKey_lang: "buildKey n k l = buildKey n k l' \<longleftrightarrow> l = l'"
  by (simp add: buildKey_def)

lemma map_of_removed: "map_of (filter (\<lambda>(k', _). k' \<noteq> key) m) key = None"
  by (induction m) auto

definition mem_content :: "tr_memory \<times> 'e \<Rightarrow> string \<times> string \<times> string \<Rightarrow> string \<rightharpoonup> string" where
  "mem_content w = (\<lambda>(n, k, l). map_of (at_key (fst w) (buildKey n k l)))"

lemma mem_save_law:
  assumes "distinct (map fst (Columns d))"
  shows "\<exists>w'. mem_SaveTranslation d w = (None, w') \<and>
    (\<forall>c. case map_of (Columns d) c of
           None \<Rightarrow> mem_content w' (key_of d) c = mem_content w (key_of d) c
         | Some v \<Rightarrow> if v = [] then \<not> has_text (mem_content w' (key_of d) c) else mem_content w' (key_of d) c = Some v) \<and>
    (\<forall>l. l \<noteq> Code (Language d) \<longrightarrow> mem_content w' (ModelName d, KeyID d, l) = mem_content w (ModelName d, KeyID d, l))"
  using assms
  by (cases w) (auto simp: mem_SaveTranslation_def mem_content_def key_of_def at_key_fold map_of_fold_entries
      buildKey_lang has_text_def Let_def split: option.splits)

interpretation tr_mem: translation_store tr_mem_ops "\<lambda>w. True" mem_content "\<lambda>key c. True"
proof unfold_locales
  fix w :: "tr_memory \<times> 'a" and d :: data
  assume "distinct (map fst (Columns d))"
  from mem_save_law [OF this, of w]
  show "\<exists>w'. SaveTranslation tr_mem_ops d w = (None, w') \<and> True \<and>
      (\<forall>c. case map_of (Columns d) c of
             None \<Rightarrow> mem_content w' (key_of d) c = mem_content w (key_of d) c
           | Some v \<Rightarrow> if v = [] then \<not> has_text (mem_content w' (key_of d) c) else mem_content w' (key_of d) c = Some v) \<and>
      (\<forall>l. l \<noteq> Code (Language d) \<longrightarrow> mem_content w' (ModelName d, KeyID d, l) = mem_content w (ModelName d, KeyID d, l))"
    by (simp add: tr_mem_ops_def)
next
  fix w :: "tr_memory \<times> 'a" and n k l
  show "\<exists>r w'. GetTranslations tr_mem_ops n k l w = (r, w') \<and> True \<and> mem_content w' = mem_content w \<and>
      (if mem_content w (n, k, Code l) = Map.empty then r = Inl (Sentinel ErrTranslationNotFound)
       else \<exists>tr. r = Inr tr \<and> map_of tr = mem_content w (n, k, Code l))"
    by (cases w) (simp add: tr_mem_ops_def mem_GetTranslations_def mem_content_def Let_def)
next
  fix w :: "tr_memory \<times> 'a" and n k l
  show "\<exists>r w'. DeleteTranslations tr_mem_ops n k l w = (r, w') \<and> True \<and> mem_content w' (n, k, Code l) = Map.empty"
    by (cases w) (simp add: tr_mem_ops_def mem_DeleteTranslations_def mem_content_def Let_def at_key_def map_of_removed)
next
  fix w :: "tr_memory \<times> 'a" and n k columns langs
  show "\<exists>m w'. CheckExist tr_mem_ops n k columns langs w = (Inr m, w') \<and> True \<and> mem_content w' = mem_content w \<and>
      (m = [] \<longleftrightarrow> (\<forall>c \<in> set columns. \<forall>l \<in> set langs. has_text (mem_content w (n, k, Code l) c)))"
    by (cases w) (simp add: tr_mem_ops_def mem_CheckExist_def mem_content_def missing_pairs_empty has_text_def)
qed

subsection \<open>In PostgreSQL\<close>

definition cells :: "tr_table \<Rightarrow> string \<times> string \<times> string \<times> string \<rightharpoonup> string" where
  "cells tb = map_of (map (\<lambda>r. (row_id r, r_value r)) tb)"

lemma cells_None: "cells tb i = None \<longleftrightarrow> i \<notin> row_id ` set tb"
  by (force simp: cells_def map_of_eq_None_iff)

lemma cells_update:
  "row_id r \<in> row_id ` set tb \<Longrightarrow>
   cells (update_where (\<lambda>x. row_id x = row_id r) (\<lambda>x. x\<lparr>r_value := v, r_updated := u\<rparr>) tb) = (cells tb)(row_id r \<mapsto> v)"
proof
  fix i
  have "cells (update_where (\<lambda>x. row_id x = row_id r) (\<lambda>x. x\<lparr>r_value := v, r_updated := u\<rparr>) tb) i =
      (if i = row_id r then (if row_id r \<in> row_id ` set tb then Some v else None) else cells tb i)"
    by (induction tb) (auto simp: cells_def update_where_def row_id_def)
  then show "row_id r \<in> row_id ` set tb \<Longrightarrow>
      cells (update_where (\<lambda>x. row_id x = row_id r) (\<lambda>x. x\<lparr>r_value := v, r_updated := u\<rparr>) tb) i =
      ((cells tb)(row_id r \<mapsto> v)) i" by simp
qed

lemma cells_append: "row_id r \<notin> row_id ` set tb \<Longrightarrow> cells (tb @ [r]) = (cells tb)(row_id r \<mapsto> r_value r)"
  using cells_None [of tb "row_id r"] by (auto simp: cells_def map_add_def fun_eq_iff split: option.splits)

lemma cells_clear: "cells (filter (\<lambda>x. row_id x \<noteq> row_id r) tb) = (cells tb)(row_id r := None)"
proof
  show "cells (filter (\<lambda>x. row_id x \<noteq> row_id r) tb) i = ((cells tb)(row_id r := None)) i" for i
    by (induction tb) (auto simp: cells_def)
qed

text \<open>What the statements do to a cell, and that the primary key stays one.\<close>

lemma sql_upsert_law:
  assumes "row_fits r"
  shows "fst (sql_upsert r tb) = Inr ()" "cells (snd (sql_upsert r tb)) = (cells tb)(row_id r \<mapsto> r_value r)"
    and "distinct (map row_id tb) \<Longrightarrow> distinct (map row_id (snd (sql_upsert r tb)))"
proof -
  have "map row_id (update_where (\<lambda>x. row_id x = row_id r) (\<lambda>x. x\<lparr>r_value := v, r_updated := u\<rparr>) tb) = map row_id tb" for v u
    by (rule map_update_where) (simp add: row_id_def)
  then show "distinct (map row_id tb) \<Longrightarrow> distinct (map row_id (snd (sql_upsert r tb)))"
    using assms by (auto simp: sql_upsert_def)
  have "(\<exists>x \<in> set tb. row_id x = row_id r) \<longleftrightarrow> row_id r \<in> row_id ` set tb" unfolding image_iff by metis
  then show "cells (snd (sql_upsert r tb)) = (cells tb)(row_id r \<mapsto> r_value r)"
    using assms cells_update [of r tb] cells_append [of r tb] unfolding sql_upsert_def
    by (cases "row_id r \<in> row_id ` set tb") (simp_all only: if_True if_False simp_thms snd_conv)
qed (simp add: sql_upsert_def assms)

lemma sql_clear_law:
  fixes r :: translationRow
  shows "fst (sql_clear r tb) = Inr ()" "cells (snd (sql_clear r tb)) = (cells tb)(row_id r := None)"
    and "distinct (map row_id tb) \<Longrightarrow> distinct (map row_id (snd (sql_clear r tb)))"
  by (simp_all add: sql_clear_def cells_clear distinct_map inj_on_def)

lemma column_stmt_law:
  assumes "row_fits (column_row d x)"
  shows "fst (column_stmt d x tb) = Inr ()"
    and "cells (snd (column_stmt d x tb)) = (cells tb)((ModelName d, fst x, KeyID d, Code (Language d)) := if snd x = [] then None else Some (snd x))"
    and "distinct (map row_id tb) \<Longrightarrow> distinct (map row_id (snd (column_stmt d x tb)))"
proof -
  have "row_id (column_row d x) = (ModelName d, fst x, KeyID d, Code (Language d))" "r_value (column_row d x) = snd x"
    by (simp_all add: column_row_def row_id_def split: prod.split)
  then show "fst (column_stmt d x tb) = Inr ()"
      "cells (snd (column_stmt d x tb)) = (cells tb)((ModelName d, fst x, KeyID d, Code (Language d)) := if snd x = [] then None else Some (snd x))"
      "distinct (map row_id tb) \<Longrightarrow> distinct (map row_id (snd (column_stmt d x tb)))"
    using sql_upsert_law [OF assms] sql_clear_law [where r = "column_row d x"] by (simp_all add: column_stmt_def)
qed

lemma save_rows_saves:
  assumes "works env" and "\<forall>x \<in> set xs. row_fits (column_row d x)"
  shows "\<exists>e'. save_rows env cls d xs (tb, e) = (Ret None, fold (\<lambda>x tb. snd (column_stmt d x tb)) xs tb, e')"
  using assms(2)
proof (induction xs arbitrary: tb e)
  case (Cons x xs)
  have "Exec env cls (column_stmt d x) (tb, e) = (None, snd (column_stmt d x tb), snd (db_fault env e))"
    using Cons.prems by (intro works_Exec [OF assms(1) column_stmt_law(1)]) simp
  then show ?case using Cons by simp
qed simp

lemma saved_law:
  assumes "\<forall>x \<in> set xs. row_fits (column_row d x)" and "distinct (map fst xs)"
  defines "tb' \<equiv> fold (\<lambda>x tb. snd (column_stmt d x tb)) xs"
  shows "distinct (map row_id tb) \<Longrightarrow> distinct (map row_id (tb' tb))"
    and "cells (tb' tb) (ModelName d, c, KeyID d, Code (Language d)) =
      (case map_of xs c of None \<Rightarrow> cells tb (ModelName d, c, KeyID d, Code (Language d)) | Some v \<Rightarrow> if v = [] then None else Some v)"
    and "l \<noteq> Code (Language d) \<Longrightarrow> cells (tb' tb) (n, c, k, l) = cells tb (n, c, k, l)"
proof -
  show "distinct (map row_id tb) \<Longrightarrow> distinct (map row_id (tb' tb))"
    using assms(1) unfolding tb'_def by (induction xs arbitrary: tb) (auto simp: column_stmt_law)
  show "cells (tb' tb) (ModelName d, c, KeyID d, Code (Language d)) =
      (case map_of xs c of None \<Rightarrow> cells tb (ModelName d, c, KeyID d, Code (Language d)) | Some v \<Rightarrow> if v = [] then None else Some v)"
    using assms(1,2) unfolding tb'_def
  proof (induction xs arbitrary: tb)
    case (Cons x xs)
    have "map_of xs (fst x) = None" using Cons.prems by (simp add: map_of_eq_None_iff)
    then show ?case using Cons by (cases x) (auto simp: column_stmt_law split: option.splits)
  qed simp
  show "l \<noteq> Code (Language d) \<Longrightarrow> cells (tb' tb) (n, c, k, l) = cells tb (n, c, k, l)"
    using assms(1) unfolding tb'_def by (induction xs arbitrary: tb) (auto simp: column_stmt_law)
qed

definition tr_content :: "tr_table \<times> 'e \<Rightarrow> string \<times> string \<times> string \<Rightarrow> string \<rightharpoonup> string" where
  "tr_content w = (\<lambda>(n, k, l) c. cells (fst w) (n, c, k, l))"

definition tr_ok :: "'e db_env \<Rightarrow> tr_table \<times> 'e \<Rightarrow> bool" where
  "tr_ok env w = (works env \<and> distinct (map row_id (fst w)))"

text \<open>The columns of the table can hold the key, and the code of the language has no bar in it.\<close>

definition tr_good :: "string \<times> string \<times> string \<Rightarrow> string \<Rightarrow> bool" where
  "tr_good = (\<lambda>(n, k, l) c. length n \<le> 100 \<and> length c \<le> 100 \<and> length k \<le> 255 \<and> length l \<le> 10 \<and> CHR ''|'' \<notin> set l)"

lemma rows_of_cells: "map_of (map (\<lambda>r. (r_column r, r_value r)) (rows_of n k l tb)) = (\<lambda>c. cells tb (n, c, k, l))"
  by (induction tb) (auto simp: rows_of_def cells_def row_id_def fun_eq_iff)

lemma rows_of_distinct: "distinct (map row_id tb) \<Longrightarrow> distinct (map r_column (rows_of n k l tb))"
  by (auto simp: rows_of_def row_id_def distinct_map inj_on_def)

lemma works_QueryList:
  "works env \<Longrightarrow> QueryList env cls (\<lambda>s. (Inr (f s), s)) (s, e) = (Inr (f s), s, snd (db_fault env e))"
  by (simp add: QueryList_def works_exec)

lemma pg_save_law:
  assumes "tr_ok env w" and "distinct (map fst (Columns d))" and "\<forall>c \<in> fst ` set (Columns d). tr_good (key_of d) c"
  shows "\<exists>w'. SaveTranslation (tr_pg_ops env (Pool pcls) cls clock) d w = (None, w') \<and> tr_ok env w' \<and>
    (\<forall>c. case map_of (Columns d) c of
           None \<Rightarrow> tr_content w' (key_of d) c = tr_content w (key_of d) c
         | Some v \<Rightarrow> if v = [] then \<not> has_text (tr_content w' (key_of d) c) else tr_content w' (key_of d) c = Some v) \<and>
    (\<forall>l. l \<noteq> Code (Language d) \<longrightarrow> tr_content w' (ModelName d, KeyID d, l) = tr_content w (ModelName d, KeyID d, l))"
proof -
  obtain tb e where w: "w = (tb, e)" by force
  obtain t e1 where t: "clock e = (t, e1)" by force
  define d' where "d' = with_times t d"
  have d': "Columns d' = Columns d" "ModelName d' = ModelName d" "KeyID d' = KeyID d" "Language d' = Language d"
    by (simp_all add: d'_def with_times_def)
  have ok: "works env" "distinct (map row_id tb)" using assms(1) by (simp_all add: tr_ok_def w)
  have fits: "\<forall>x \<in> set (Columns d'). row_fits (column_row d' x)"
    using assms(3) by (auto simp: d' tr_good_def key_of_def row_fits_def column_row_def)
  let ?tb = "fold (\<lambda>x tb. snd (column_stmt d' x tb)) (Columns d') tb"
  have law: "distinct (map row_id ?tb)"
    "cells ?tb (ModelName d, c, KeyID d, Code (Language d)) =
      (case map_of (Columns d) c of None \<Rightarrow> cells tb (ModelName d, c, KeyID d, Code (Language d)) | Some v \<Rightarrow> if v = [] then None else Some v)"
    "l \<noteq> Code (Language d) \<Longrightarrow> cells ?tb (n, c, k, l) = cells tb (n, c, k, l)" for n c k l
    using saved_law [of "Columns d'" d'] fits assms(2) ok(2) unfolding d' by simp_all
  obtain e2 where "WithinTran env (Pool pcls) (save_rows env cls d' (Columns d')) (tb, e1) = (Ret None, ?tb, e2)"
    using works_WithinTran [OF ok(1), of "save_rows env cls d' (Columns d')" tb ?tb pcls e1] save_rows_saves [OF ok(1) fits] by blast
  then have "SaveTranslation (tr_pg_ops env (Pool pcls) cls clock) d w = (None, ?tb, e2)"
    using t by (simp add: tr_pg_ops_def pg_SaveTranslation_def w d'_def Let_def)
  then show ?thesis using ok(1) law by (auto simp: tr_ok_def tr_content_def key_of_def w has_text_def split: option.split)
qed

lemma pg_get_law:
  assumes "tr_ok env w"
  shows "\<exists>r w'. pg_GetTranslations env cls n k l w = (r, w') \<and> tr_ok env w' \<and> tr_content w' = tr_content w \<and>
    (if tr_content w (n, k, Code l) = Map.empty then r = Inl (Sentinel ErrTranslationNotFound)
     else \<exists>tr. r = Inr tr \<and> map_of tr = tr_content w (n, k, Code l))"
proof -
  obtain tb e where w: "w = (tb, e)" by force
  let ?rs = "map (\<lambda>r. (r_column r, r_value r)) (rows_of n k (Code l) tb)"
  have c: "map_of ?rs = tr_content w (n, k, Code l)" by (simp add: rows_of_cells tr_content_def w)
  have "distinct (map fst ?rs)" using assms rows_of_distinct [of tb n k "Code l"] by (simp add: tr_ok_def w o_def)
  from map_of_fold_entries [OF this, of "[]"] have "map_of (fold (\<lambda>(c, v). set_entry c v) ?rs []) = tr_content w (n, k, Code l)"
    unfolding c by (auto simp: fun_eq_iff split: option.split)
  moreover have "?rs = [] \<longleftrightarrow> tr_content w (n, k, Code l) = Map.empty" unfolding c [symmetric] by (simp only: map_of_eq_empty_iff)
  ultimately show ?thesis
    using assms by (auto simp: pg_GetTranslations_def w works_QueryList tr_ok_def tr_content_def)
qed

lemma pg_delete_law:
  assumes "tr_ok env w"
  shows "\<exists>r w'. pg_DeleteTranslations env cls n k l w = (r, w') \<and> tr_ok env w' \<and> tr_content w' (n, k, Code l) = Map.empty"
proof -
  obtain tb e where w: "w = (tb, e)" by force
  have "cells (filter (\<lambda>r. \<not> (r_model r = n \<and> r_key r = k \<and> r_lang r = Code l)) tb) (n, c, k, Code l) = None" for c
    by (auto simp: cells_None row_id_def)
  moreover have "distinct (map row_id (filter P tb))" for P
    using assms by (auto simp: tr_ok_def w distinct_map inj_on_def)
  ultimately show ?thesis
    using assms by (simp add: pg_DeleteTranslations_def ExecRowsAffected_def w works_exec tr_ok_def tr_content_def fun_eq_iff)
qed

lemma bar_split: "b \<notin> set l \<Longrightarrow> b \<notin> set l' \<Longrightarrow> c @ b # l = c' @ b # l' \<longleftrightarrow> c = c' \<and> l = l'"
  by (auto simp: append_eq_append_conv2 append_eq_Cons_conv Cons_eq_append_conv)

lemma pg_check_law:
  assumes "tr_ok env w" and good: "\<forall>c \<in> set columns. \<forall>l \<in> set langs. tr_good (n, k, Code l) c"
  shows "\<exists>m w'. pg_CheckExist env cls n k columns langs w = (Inr m, w') \<and> tr_ok env w' \<and> tr_content w' = tr_content w \<and>
    (m = [] \<longleftrightarrow> (\<forall>c \<in> set columns. \<forall>l \<in> set langs. has_text (tr_content w (n, k, Code l) c)))"
proof (cases "columns = [] \<or> langs = []")
  case True
  then show ?thesis using assms(1) by (auto simp: pg_CheckExist_def)
next
  case False
  obtain tb e where w: "w = (tb, e)" by force
  let ?P = "\<lambda>r. r_model r = n \<and> r_key r = k \<and> r_column r \<in> set columns \<and> r_lang r \<in> Code ` set langs \<and> r_value r \<noteq> []"
  have d: "distinct (map row_id tb)" using assms(1) by (simp add: tr_ok_def w)
  have bar: "\<forall>l \<in> set langs. CHR ''|'' \<notin> set (Code l)" using good False by (cases columns) (auto simp: tr_good_def)
  have "(\<exists>r \<in> set (filter ?P tb). c @ CHR ''|'' # Code l = r_column r @ CHR ''|'' # r_lang r) \<longleftrightarrow> has_text (tr_content w (n, k, Code l) c)"
    if "c \<in> set columns" "l \<in> set langs" for c l
  proof -
    have "(\<exists>r \<in> set (filter ?P tb). c @ CHR ''|'' # Code l = r_column r @ CHR ''|'' # r_lang r) \<longleftrightarrow>
        (\<exists>r \<in> set tb. row_id r = (n, c, k, Code l) \<and> r_value r \<noteq> [])"
      using bar that by (auto simp: bar_split row_id_def)
    also have "\<dots> \<longleftrightarrow> (\<exists>v. cells tb (n, c, k, Code l) = Some v \<and> v \<noteq> [])"
      using d by (force simp: cells_def map_of_eq_Some_iff o_def)
    finally show ?thesis by (auto simp: tr_content_def w has_text_def)
  qed
  then show ?thesis
    using False assms(1) by (simp add: pg_CheckExist_def w works_QueryList tr_ok_def tr_content_def missing_pairs_empty image_iff)
qed

lemma tr_pg_ops_sel:
  "GetTranslations (tr_pg_ops env q cls clock) = pg_GetTranslations env cls"
  "DeleteTranslations (tr_pg_ops env q cls clock) = pg_DeleteTranslations env cls"
  "CheckExist (tr_pg_ops env q cls clock) = pg_CheckExist env cls"
  by (simp_all add: tr_pg_ops_def)

interpretation tr_pg: translation_store "tr_pg_ops env (Pool pcls) cls clock" "tr_ok env" tr_content tr_good
  for env :: "'e db_env" and pcls cls clock
  by (unfold_locales, unfold tr_pg_ops_sel) (rule pg_save_law pg_get_law pg_delete_law pg_check_law; assumption)+

section \<open>Properties\<close>

text \<open>
  C38: with the store in PostgreSQL over a server that works, let every supported language but the
  default one have a copy of the model, with the same key, a value in every required field and
  nothing too long for the table. Then \<open>Save\<close> of each copy returns nil, and \<open>CheckTranslationsExist\<close>
  of the model afterwards returns nil: what the parser of the tags asks for is what \<open>Save\<close> writes.
\<close>

theorem translations_complete:
  fixes env :: "'e db_env"
  assumes "tr_ok env w" and "store t = tr_pg_ops env (Pool pcls) cls clock"
    and "\<forall>l \<in> set (filter (\<lambda>l. Code l \<noteq> Code (defaultLang t)) (supportedLangs t)).
      GetTranslationKey ms h (copy l) = (n, k) \<and> parse_model ms h (copy l) = Inr (fs l) \<and>
      (\<forall>f \<in> set (fs l). required f \<longrightarrow> f_value f \<noteq> []) \<and>
      (\<forall>f \<in> set (fs l). tr_good (n, k, Code l) (columnName (schema f))) \<and> required_columns (fs l) = required_columns fs0"
    and "GetTranslationKey ms h a = (n, k)" and "parse_model ms h a = Inr fs0" and "required_columns fs0 \<noteq> []"
  shows "\<exists>w' w''. save_each t ms at_time h copy (filter (\<lambda>l. Code l \<noteq> Code (defaultLang t)) (supportedLangs t)) w =
      (replicate (length (filter (\<lambda>l. Code l \<noteq> Code (defaultLang t)) (supportedLangs t))) None, w') \<and>
    CheckTranslationsExist t ms a h w' = (Inr [], w'')"
  using tr_pg.complete_after_saves [OF assms] .

text \<open>A page with a key and a title, in English, Russian and Kazakh.\<close>

definition page_decls :: decls where
  "page_decls = [(''Page'', [\<lparr>f_name = ''ID'', f_tag = ''primary'', f_type = T_kind ''int''\<rparr>,
     \<lparr>f_name = ''Title'', f_tag = ''title'', f_type = T_string\<rparr>])]"

definition page_models :: models where
  "page_models = \<lparr>m_decls = page_decls, m_fmt = \<lambda>v. [], m_type = \<lambda>a. T_struct ''Page'',
     GetTranslationKey = \<lambda>h a. (''page'', ''1''), m_objects = 3\<rparr>"

definition page_heap :: heap where
  "page_heap = (\<lambda>a. Some (G_struct [(''ID'', G_other ''int'' ''1'' False), (''Title'', G_str ''Salem'')]))"

definition page_fields :: "fieldInfo list" where
  "page_fields = [\<lparr>schema = \<lparr>path = [''ID''], columnName = ''primary'', isPrimary = True, optional = False\<rparr>, f_value = ''1''\<rparr>,
     \<lparr>schema = \<lparr>path = [''Title''], columnName = ''title'', isPrimary = False, optional = False\<rparr>, f_value = ''Salem''\<rparr>]"

lemma page_schema: "schemaForType page_decls (T_struct ''Page'') = Inr (map schema page_fields)"
  by code_simp

lemma page_parse: "parse_model page_models page_heap a = Inr page_fields"
  by (simp add: parse_model_def parseTranslateTags_def page_models_def page_schema, simp add: field_info_def follow_def
      read_place_def page_heap_def sprint_def exported_def page_fields_def)

definition page_languages :: "language list" where
  "page_languages = map (\<lambda>c. \<lparr>Code = c, Lang_Name = []\<rparr>) [''en'', ''ru'', ''kk'']"

definition page_translator :: "(tr_table \<times> unit) translator" where
  "page_translator = \<lparr>store = tr_pg_ops calm_db (Pool None) None (\<lambda>e. (1, e)), defaultLang = hd page_languages,
     supportedLangs = page_languages\<rparr>"

theorem translations_complete_witness:
  "\<exists>w' w''. save_each page_translator page_models 5 page_heap (\<lambda>l. 7) (tl page_languages) ([], ()) = ([None, None], w') \<and>
     CheckTranslationsExist page_translator page_models 7 page_heap w' = (Inr [], w'')"
proof -
  have ls: "filter (\<lambda>l. Code l \<noteq> Code (defaultLang page_translator)) (supportedLangs page_translator) = tl page_languages"
    by (simp add: page_translator_def page_languages_def)
  have len: "replicate (length (tl page_languages)) None = [None, None]" by (simp add: page_languages_def numeral_eq_Suc)
  show ?thesis
  proof (rule translations_complete [of calm_db "([], ())" page_translator None None "\<lambda>e. (1, e)" page_models page_heap "\<lambda>l. 7"
        "''page''" "''1''" "\<lambda>l. page_fields" page_fields 7 5, unfolded ls len])
    show "tr_ok calm_db ([], ())" by (simp add: tr_ok_def works_def calm_db_def)
    show "store page_translator = tr_pg_ops calm_db (Pool None) None (\<lambda>e. (1, e))" by (simp add: page_translator_def)
    show "\<forall>l \<in> set (tl page_languages). GetTranslationKey page_models page_heap 7 = (''page'', ''1'') \<and>
        parse_model page_models page_heap 7 = Inr page_fields \<and> (\<forall>f \<in> set page_fields. required f \<longrightarrow> f_value f \<noteq> []) \<and>
        (\<forall>f \<in> set page_fields. tr_good (''page'', ''1'', Code l) (columnName (schema f))) \<and>
        required_columns page_fields = required_columns page_fields"
      using page_parse by (simp add: page_languages_def page_fields_def tr_good_def page_models_def)
  qed (simp_all add: page_parse, simp_all add: page_models_def page_fields_def required_columns_def required_def)
qed

end
