(* ===== verification/Spec2Isabelle.thy ===== *)
theory Spec2Isabelle
  imports Errs Retry Worker_Loop Worker_Pool Worker_Group Queue_Workers Dedup Partition Auditlog_Mem Auditlog_PG Auditlog_Async Page_Order Closer Translation_Stores
begin

text \<open>
  A verification of the service kit \<open>skit\<close>, a Go library from which services are put together.

  \<^bold>\<open>The program.\<close> The packages under \<open>src/\<close> are largely independent. Those modelled here are used
  on each other as follows. \<open>errs\<close> and \<open>retry\<close> stand at the bottom. \<open>worker\<close> runs loops,
  processors, pools and groups of background work, with \<open>safetick\<close> recovering their panics and
  \<open>poller\<close> built on the same loop. \<open>dbx\<close> runs statements and transactions and retries them with
  \<open>retry\<close>. \<open>queue\<close> keeps tasks in a table and hands them to a \<open>worker.Processor\<close>. \<open>dedup\<close> runs a
  function at most once per key. \<open>partition\<close> maintains the partitions of tables. \<open>auditlog\<close> records
  versions of models, and \<open>translation\<close> the texts of models in several languages, each over a store in
  memory or in PostgreSQL. \<open>page\<close>, \<open>order\<close> and \<open>closer\<close> are small packages of their own.

  \<^bold>\<open>How Go is read.\<close> A struct is a record and an enumeration a datatype. An error is a value of
  \<open>go_error\<close>, with \<open>chain\<close> as what \<open>errors.Is\<close> walks; \<open>err\<close> adds nil. A call that may panic returns an
  \<open>outcome\<close>. A function with effects takes and returns the state it works on. Integers are \<open>int\<close>
  with \<open>wrap64\<close> written out where 64 bits matter, instants and durations are nanoseconds, strings are
  lists of bytes, and maps are functions or association lists. Goroutines that share state are an
  \<open>inductive\<close> relation whose steps end where the code releases a lock or a channel operation
  completes; a run is the reflexive and transitive closure. Time, randomness, JSON, the database
  server, Redis and user callbacks are arguments.

  \<^bold>\<open>Theories.\<close>

  \<^item> \<open>Go_Prelude\<close>, \<open>Go_Strconv\<close>, \<open>Go_Time\<close>, \<open>Float64\<close>: the parts of the language and of its standard
    library that the sources use: errors, 64-bit integers, \<open>strings\<close>, \<open>strconv\<close>, the calendar of
    \<open>time\<close>, and \<open>float64\<close> with rounding and \<open>math.Pow\<close>.
  \<^item> \<open>Errs\<close> (\<open>errs/\<close>): codes, application errors, field errors, \<open>Sanitize\<close>. An application error is
    found through every wrapping; a sanitized message is short and ends at a whole rune.
  \<^item> \<open>Retry\<close> (\<open>retry/\<close>): \<open>NextWithRand\<close> and \<open>Do\<close>. With a ceiling and a positive base the delays keep their
    bounds; with the factor 2 and no jitter they double exactly; with a base of 0, or without a ceiling
    and with jitter, late attempts reach NaN. \<open>Do\<close> ends after at most its budget of attempts.
  \<^item> \<open>Worker_Processor\<close>, \<open>Worker_Loop\<close>, \<open>Worker_Pool\<close>, \<open>Worker_Group\<close> (\<open>worker/\<close>, \<open>safetick/\<close>,
    \<open>poller/\<close>): every claimed item is handled or released, and a panic of a handler is a failure
    of its item; every wait of an adaptive loop is the one its configuration asks for; a pool never runs more than its size and nothing after shutdown; a group stops all
    that it started, once, and no goroutine blocks on the channel of errors.
  \<^item> \<open>Queue_Store\<close>, \<open>Queue_Routing\<close>, \<open>Queue_Workers\<close> (\<open>queue/\<close>): the table and its statements, the
    routing of kinds, and the consumer. A claim takes the first due tasks and respects leases; a
    stale lease changes nothing; a batch leaves no lease behind; a checked task has a handler. The
    locale \<open>lease_source\<close> is what the processor needs of a queue and \<open>queue_consumer\<close> extends it.
  \<^item> \<open>Dedup\<close> (\<open>dedup/\<close>): the locale \<open>dedup_store\<close>, interpreted on the store in memory and on the one
    in Redis. Two concurrent calls never run the function for a key at once within a lease, a second
    call returns the stored result, and a failure frees the key.
  \<^item> \<open>Dbx\<close> (\<open>dbx/\<close>): a transaction leaves the database as it was or as one run of its body made it;
    a bulk insert sends every value, in order.
  \<^item> \<open>Partition\<close> (\<open>partition/\<close>): names are read back; \<open>Maintain\<close> covers the time ahead, drops exactly
    what has expired, and changes nothing the second time. The locale \<open>period_grid\<close> is the arithmetic
    of periods, interpreted for days and months.
  \<^item> \<open>Auditlog_Compact\<close>, \<open>Auditlog\<close>, \<open>Auditlog_Mem\<close>, \<open>Auditlog_PG\<close>, \<open>Auditlog_Async\<close> (\<open>auditlog/\<close>,
    \<open>auditlog/audittest\<close>, \<open>auditlog/auditpg\<close>): the locale \<open>audit_store\<close> is the contract of a store over
    an abstract history, \<open>audit_core\<close> the client, both interpreted on the two stores. Any sequence of
    operations refines the abstract one; versions ascend and the last one is the last snapshot;
    compaction keeps what it must; a comparison is exact; the asynchronous recorder loses nothing
    that it accepted.
  \<^item> \<open>Page_Order\<close> (\<open>page/\<close>, \<open>order/\<close>): a parsed page is well formed and its offset has not wrapped; a
    cursor is read back.
  \<^item> \<open>Closer\<close> (\<open>closer/\<close>): the handlers run once, last one first, past failures and panics.
  \<^item> \<open>Translation_Tags\<close>, \<open>Translation\<close>, \<open>Translation_Stores\<close> (\<open>translation/\<close>,
    \<open>translation/translationtest\<close>, \<open>translation/translationpg\<close>): the walk over struct tags and over
    values on a heap, the translator, and the locale \<open>translation_store\<close> interpreted on the two stores.
    What \<open>Save\<close> writes for each language is what \<open>CheckTranslationsExist\<close> asks for.

  \<^bold>\<open>Bounds.\<close> Every definition is total. Loops that end are recursion with a termination proof: the
  attempts left in \<open>Do\<close> and in \<open>Create\<close> of the audit log, the values left in \<open>BulkInsert\<close>, the text left
  in the scanners, the struct types not entered yet in \<open>walkTags\<close>. The loops that run until a context
  is cancelled recurse on the list of events that wake them, of any length. Only \<open>collectNested\<close>
  carries a depth: one more than the number of objects, which
  \<open>collectNestedTranslatables_complete\<close> shows to give the result of every larger depth.

  \<^bold>\<open>Assumptions.\<close> A theorem that speaks of a store's success assumes a server that works (\<open>works\<close>: no
  statement fails) and, where the table limits them, texts that fit; each such theorem has a witness.
  Characters of the \<open>VARCHAR\<close> columns are counted as bytes. A struct value on the heap holds a field for
  every name its type declares or else reads as missing. The order in which Go ranges over a map is
  that of the association list. Of the callbacks of a processor only \<open>Handle\<close> may panic. An operation of
  the \<open>dedup\<close> store in memory reads the clock under the mutex, and the concurrent calls of \<open>dedup\<close> meet
  round trips that work. A transaction that is not committed leaves no trace, whatever the rollback
  returns. Queue rows keep instants to the nanosecond. Texts are ones that a text column can hold, and
  the number of parameters of a statement is not limited. A nil slice counts as an empty one, and
  translated models are pointers.

  \<^bold>\<open>Not modelled.\<close> Log lines, metrics and tracing throughout. The DDL that the stores run at start
  (\<open>EnsureSchema\<close>, \<open>internal/pgschema\<close>), of which only the constraints of the tables appear. Packages
  that wire or call third-party code: \<open>logger\<close>, \<open>otel\<close>, \<open>config\<close>, \<open>rest\<close>, \<open>middleware\<close>, \<open>httpserver\<close>,
  \<open>grpcserver\<close>, \<open>grpcgateway\<close>, \<open>broker/kafka\<close>, \<open>broker/rabbitmq\<close>, \<open>auth\<close>, \<open>metrics\<close>, \<open>migrate\<close>, \<open>chx\<close>,
  \<open>httpclient\<close>, \<open>provider\<close>, \<open>validate\<close>, \<open>app\<close>, \<open>i18n\<close>, \<open>cron\<close> and the HTTP sides of \<open>auditlog\<close> and
  \<open>translation\<close>. Test helpers, examples and the generator \<open>cmd/skit\<close>. The packages \<open>dim\<close>, \<open>broker\<close>,
  \<open>outbox\<close>, \<open>eventbus\<close>, \<open>health\<close>, \<open>httpmw\<close>, \<open>lock\<close>, \<open>settings\<close> and the recorders \<open>auditlog/auditbus\<close> and
  \<open>auditlog/auditqueue\<close> have logic of their own that could be modelled in the same way and is not part
  of this development.
\<close>

end
